(* ===== verification/Prelude.thy ===== *)
theory Prelude
  imports Main "HOL-Library.Word" "HOL-Library.Monad_Syntax"
begin

unbundle bit_operations_syntax

text \<open>
  Shared vocabulary of the development: the machine integers of the C code, checked reads
  of byte buffers, byte order, and the generic lemmas on lists, maps and words that the
  component theories use.

  A packet or a struct is a list of bytes.  Reads go through \<open>rd8\<close>, \<open>ld16\<close> and
  \<open>rd_bytes\<close>, which return \<open>None\<close> when the access is not inside the buffer, so a
  function that returns \<open>Some\<close> has made no out-of-bounds access.  The reference target
  is little-endian (x86_64): a 16-bit load puts the first byte in the low half and
  \<open>htons\<close> swaps the two halves.
\<close>

section \<open>Machine integers\<close>

type_synonym u8 = "8 word"
type_synonym u16 = "16 word"
type_synonym u32 = "32 word"
type_synonym u64 = "64 word"

abbreviation (input) UINT32_MAX :: u32 where "UINT32_MAX \<equiv> 0xFFFFFFFF"

named_theorems layout_simps "reads of buffers whose layout is known"
named_theorems frame_simps "what an operation leaves unchanged"

section \<open>Checked reads\<close>

definition rd8 :: "u8 list \<Rightarrow> nat \<Rightarrow> u8 option" where
  "rd8 d i = (if i < length d then Some (d ! i) else None)"

definition le16 :: "u8 \<Rightarrow> u8 \<Rightarrow> u16" where
  "le16 b0 b1 = ucast b0 OR push_bit 8 (ucast b1)"

definition ld16 :: "u8 list \<Rightarrow> nat \<Rightarrow> u16 option" where
  "ld16 d i = (if i + 2 \<le> length d then Some (le16 (d ! i) (d ! (i + 1))) else None)"

definition rd_bytes :: "u8 list \<Rightarrow> nat \<Rightarrow> nat \<Rightarrow> u8 list option" where
  "rd_bytes d i n = (if i + n \<le> length d then Some (take n (drop i d)) else None)"

definition mem_write :: "u8 list \<Rightarrow> nat \<Rightarrow> u8 list \<Rightarrow> u8 list" where
  "mem_write m i bs = take i m @ bs @ drop (i + length bs) m"

definition be16_nat :: "u8 \<Rightarrow> u8 \<Rightarrow> nat" where
  "be16_nat hi lo = 256 * unat hi + unat lo"

lemma rd8_Some [simp]: "i < length d \<Longrightarrow> rd8 d i = Some (d ! i)"
  by (simp add: rd8_def)

lemma ld16_Some [simp]: "i + 2 \<le> length d \<Longrightarrow> ld16 d i = Some (le16 (d ! i) (d ! (i + 1)))"
  by (simp add: ld16_def)

lemma rd_bytes_Some [simp]: "i + n \<le> length d \<Longrightarrow> rd_bytes d i n = Some (take n (drop i d))"
  by (simp add: rd_bytes_def)

lemma length_mem_write [simp]: "i + length bs \<le> length m \<Longrightarrow> length (mem_write m i bs) = length m"
  by (simp add: mem_write_def)

lemma be16_nat_bound: "be16_nat hi lo < 65536"
proof -
  have "unat hi < 256" and "unat lo < 256"
    using unsigned_less [of hi] unsigned_less [of lo] by simp_all
  then show ?thesis by (simp add: be16_nat_def)
qed

section \<open>Computations that do not fault\<close>

definition defined :: "'a option \<Rightarrow> bool" where
  "defined m \<longleftrightarrow> m \<noteq> None"

lemma defined_simps [simp]: "defined (Some x)" "\<not> defined None"
  by (simp_all add: defined_def)

lemma bind_defined:
  "defined m \<Longrightarrow> (\<And>x. m = Some x \<Longrightarrow> defined (f x)) \<Longrightarrow> defined (m \<bind> f)"
  by (cases m) auto

lemma bind_SomeE:
  "m \<bind> f = Some y \<Longrightarrow> (\<And>x. m = Some x \<Longrightarrow> f x = Some y \<Longrightarrow> P) \<Longrightarrow> P"
  by (cases m) auto

lemma definedE: "defined m \<Longrightarrow> (\<And>x. m = Some x \<Longrightarrow> P) \<Longrightarrow> P"
  by (cases m) auto

lemma unat_u32_less: "unat (x :: u32) < 4294967296"
  using unsigned_less [of x, where 'a = nat] by simp

lemma unat_of_nat_u32 [simp]: "n < 2 ^ 32 \<Longrightarrow> unat (of_nat n :: u32) = n"
  by (simp add: unsigned_of_nat take_bit_nat_eq_self)

section \<open>Byte order\<close>

definition bswap16 :: "u16 \<Rightarrow> u16" where
  "bswap16 w = push_bit 8 w OR drop_bit 8 w"

abbreviation (input) bpf_htons :: "u16 \<Rightarrow> u16" where
  "bpf_htons \<equiv> bswap16"

abbreviation (input) bpf_ntohs :: "u16 \<Rightarrow> u16" where
  "bpf_ntohs \<equiv> bswap16"

lemma bit_bswap16:
  "bit (bswap16 w) n \<longleftrightarrow> n < 16 \<and> (if n < 8 then bit w (n + 8) else bit w (n - 8))"
  by (auto simp: bswap16_def bit_simps not_less add.commute dest: bit_imp_le_length)

lemma bswap16_bswap16 [simp]: "bswap16 (bswap16 w) = w"
  by (rule bit_word_eqI) (auto simp: bit_bswap16)

lemma bswap16_inject [simp]: "bswap16 v = bswap16 w \<longleftrightarrow> v = w"
  by (metis bswap16_bswap16)

lemma bswap16_0 [simp]: "bswap16 0 = 0"
  by (simp add: bswap16_def)

lemma bit_le16: "bit (le16 b0 b1) n \<longleftrightarrow> n < 16 \<and> (if n < 8 then bit b0 n else bit b1 (n - 8))"
  by (auto simp: le16_def bit_simps not_less dest: bit_imp_le_length)

lemma bswap16_le16 [simp]: "bswap16 (le16 b0 b1) = le16 b1 b0"
  by (rule bit_word_eqI) (auto simp: bit_bswap16 bit_le16)

lemma le16_inject [simp]: "le16 a b = le16 c d \<longleftrightarrow> a = c \<and> b = d"
proof
  assume eq: "le16 a b = le16 c d"
  have "bit a n = bit c n" if "n < 8" for n
    using arg_cong [OF eq, of "\<lambda>w. bit w n"] that by (simp add: bit_le16)
  moreover have "bit b n = bit d n" if "n < 8" for n
    using arg_cong [OF eq, of "\<lambda>w. bit w (n + 8)"] that by (simp add: bit_le16)
  ultimately show "a = c \<and> b = d"
    by (auto intro!: bit_word_eqI)
qed simp

lemma unat_le16: "unat (le16 lo hi) = be16_nat hi lo"
proof -
  have disj: "(ucast lo :: u16) AND push_bit 8 (ucast hi) = 0"
    by (rule bit_word_eqI) (auto simp: bit_simps dest: bit_imp_le_length)
  have lo: "unat lo < 256" and hi: "unat hi < 256"
    using unsigned_less [of lo] unsigned_less [of hi] by simp_all
  have "unat (push_bit 8 (ucast hi) :: u16) = 256 * unat hi"
    using hi by (simp add: push_bit_eq_mult unat_word_ariths unsigned_ucast_eq take_bit_eq_mod)
  moreover have "le16 lo hi = ucast lo + push_bit 8 (ucast hi)"
    using disj by (simp add: le16_def disjunctive_add_eq_or)
  ultimately show ?thesis
    using lo hi by (simp add: unat_word_ariths unsigned_ucast_eq take_bit_eq_mod be16_nat_def)
qed

section \<open>Reads of a buffer with a known prefix\<close>

lemma rd8_append [layout_simps]: "rd8 (pre @ d) (length pre + i) = rd8 d i"
  by (simp add: rd8_def nth_append)

lemma ld16_append [layout_simps]: "ld16 (pre @ d) (length pre + i) = ld16 d i"
  by (simp add: ld16_def nth_append)

lemma rd_bytes_append [layout_simps]: "rd_bytes (pre @ d) (length pre + i) n = rd_bytes d i n"
  by (simp add: rd_bytes_def)

section \<open>Options and maps\<close>

lemma option_caseI: "(x = None \<Longrightarrow> P a) \<Longrightarrow> (\<And>v. x = Some v \<Longrightarrow> P (f v)) \<Longrightarrow> P (case x of None \<Rightarrow> a | Some v \<Rightarrow> f v)"
  by (cases x) auto

lemma map_upd_ran_subset: "m k = Some v \<Longrightarrow> ran (m(k \<mapsto> w)) \<subseteq> insert w (ran m)"
  by (auto simp: ran_def split: if_splits)

end
