(* ===== verification/Libc.thy ===== *)
theory Libc
  imports Prelude
begin

text \<open>
  What the controllers use of the C library: \<^verbatim>\<open>getline\<close>, \<^verbatim>\<open>sscanf\<close> with the
  conversions the sources use, and \<^verbatim>\<open>strtoul\<close>.

  A C string is a list of characters without NUL.  Integers follow LP64: a decimal conversion
  is computed in 64 bits, saturates there, and \<^verbatim>\<open>%u\<close> stores its low 32 bits, which is
  what musl and glibc do.  Where those two differ (the error of \<^verbatim>\<open>strtoul\<close> on a text
  without digits, a bare \<^verbatim>\<open>0x\<close>) the first is a parameter and the second follows musl, the C
  library of OpenWrt.
\<close>

section \<open>Characters\<close>

abbreviation (input) NL :: char where "NL \<equiv> CHR 0x0A"
abbreviation (input) NUL :: char where "NUL \<equiv> CHR 0x00"

definition ord :: "char \<Rightarrow> nat" where "ord c = of_char c"

definition c_isspace :: "char \<Rightarrow> bool" where
  "c_isspace c \<longleftrightarrow> ord c = 32 \<or> 9 \<le> ord c \<and> ord c \<le> 13"

definition c_isdigit :: "char \<Rightarrow> bool" where
  "c_isdigit c \<longleftrightarrow> 48 \<le> ord c \<and> ord c \<le> 57"

definition skip_ws :: "string \<Rightarrow> string" where "skip_ws = dropWhile c_isspace"

section \<open>Lines\<close>

text \<open>
  \<^verbatim>\<open>getline\<close>: a line keeps its newline, the last one may lack it; the caller sees it as a C
  string, up to its first NUL.
\<close>

function get_lines :: "string \<Rightarrow> string list" where
  "get_lines s =
     (if s = [] then []
      else case dropWhile (\<lambda>c. c \<noteq> NL) s of
        [] \<Rightarrow> [s]
      | _ # rest \<Rightarrow> (takeWhile (\<lambda>c. c \<noteq> NL) s @ [NL]) # get_lines rest)"
  by auto
termination
proof (relation "measure length")
  fix s :: string and c rest
  assume "s \<noteq> []" and "dropWhile (\<lambda>c. c \<noteq> NL) s = c # rest"
  then have "length (c # rest) \<le> length s" by (metis length_dropWhile_le)
  then show "(rest, s) \<in> measure length" by simp
qed simp

declare get_lines.simps [simp del]

definition c_str :: "string \<Rightarrow> string" where "c_str = takeWhile (\<lambda>c. c \<noteq> NUL)"

section \<open>Decimal conversion\<close>

definition dec_value :: "string \<Rightarrow> nat" where
  "dec_value ds = foldl (\<lambda>v c. 10 * v + (ord c - 48)) 0 ds"

definition clamp64 :: "bool \<Rightarrow> nat \<Rightarrow> u64" where
  "clamp64 neg n = (if 2 ^ 64 \<le> n then -1 else if neg then - of_nat n else of_nat n)"

text \<open>
  An optional sign and at least one digit: the value in 64 bits, whether it was out of range, and
  the rest of the text.
\<close>

definition scan_sign :: "string \<Rightarrow> bool \<times> string" where
  "scan_sign s = (case s of
     [] \<Rightarrow> (False, s)
   | c # t \<Rightarrow> if c = CHR ''-'' then (True, t) else if c = CHR ''+'' then (False, t) else (False, s))"

definition scan_decimal :: "string \<Rightarrow> (u64 \<times> bool \<times> string) option" where
  "scan_decimal s =
     (let (neg, t) = scan_sign s;
          ds = takeWhile c_isdigit t
      in if ds = [] then None
         else Some (clamp64 neg (dec_value ds), 2 ^ 64 \<le> dec_value ds, dropWhile c_isdigit t))"

text \<open>
  \<^verbatim>\<open>strtoul\<close> with base 10: the value, the text \<^verbatim>\<open>end\<close> points to, and whether
  \<^verbatim>\<open>errno\<close> was set.
\<close>

definition strtoul :: "bool \<Rightarrow> string \<Rightarrow> u64 \<times> string \<times> bool" where
  "strtoul einval_on_empty s =
     (case scan_decimal (skip_ws s) of
        None \<Rightarrow> (0, s, einval_on_empty)
      | Some (v, erange, rest) \<Rightarrow> (v, rest, erange))"

section \<open>Formatted input\<close>

text \<open>
  A format: literal characters, white space, and the conversions \<^verbatim>\<open>%u\<close>,
  \<^verbatim>\<open>%\<close>\<open>n\<close>\<^verbatim>\<open>s\<close> and \<^verbatim>\<open>%2x\<close>.  The result lists the values stored, so its length
  is the return value of \<^verbatim>\<open>sscanf\<close> (an input failure before the first conversion is
  the empty list, too: the callers compare with a positive count only).
\<close>

datatype conv = Lit char | Space | Num | Str nat | Hex2

datatype scan_val = SNum (snum: u32) | SStr (sstr: string)

definition hex_digit :: "char \<Rightarrow> nat option" where
  "hex_digit c =
     (if c_isdigit c then Some (ord c - 48)
      else if 97 \<le> ord c \<and> ord c \<le> 102 then Some (ord c - 87)
      else if 65 \<le> ord c \<and> ord c \<le> 70 then Some (ord c - 55)
      else None)"

text \<open>At most two characters: a sign and a digit, or one or two digits.\<close>

definition scan_hex2 :: "string \<Rightarrow> (u32 \<times> string) option" where
  "scan_hex2 s =
     (case s of
        [] \<Rightarrow> None
      | c # t \<Rightarrow>
          if c = CHR ''-'' \<or> c = CHR ''+'' then
            (case t of
               [] \<Rightarrow> None
             | d # u \<Rightarrow> (case hex_digit d of
                 None \<Rightarrow> None
               | Some n \<Rightarrow> Some (if c = CHR ''-'' then - of_nat n else of_nat n, u)))
          else case hex_digit c of
            None \<Rightarrow> None
          | Some n \<Rightarrow>
              (case t of
                 [] \<Rightarrow> Some (of_nat n, t)
               | d # u \<Rightarrow>
                   if n = 0 \<and> (d = CHR ''x'' \<or> d = CHR ''X'') then None
                   else case hex_digit d of
                     None \<Rightarrow> Some (of_nat n, t)
                   | Some k \<Rightarrow> Some (of_nat (16 * n + k), u)))"

primrec sscanf :: "conv list \<Rightarrow> string \<Rightarrow> scan_val list" where
  "sscanf [] s = []"
| "sscanf (c # fmt) s =
     (case c of
        Lit x \<Rightarrow> (case s of [] \<Rightarrow> [] | y # t \<Rightarrow> if x = y then sscanf fmt t else [])
      | Space \<Rightarrow> sscanf fmt (skip_ws s)
      | Num \<Rightarrow> (case scan_decimal (skip_ws s) of
                   None \<Rightarrow> []
                 | Some (v, _, rest) \<Rightarrow> SNum (ucast v) # sscanf fmt rest)
      | Str n \<Rightarrow> (let w = takeWhile (\<lambda>x. \<not> c_isspace x) (take n (skip_ws s))
                 in if w = [] then [] else SStr w # sscanf fmt (drop (length w) (skip_ws s)))
      | Hex2 \<Rightarrow> (case scan_hex2 (skip_ws s) of
                   None \<Rightarrow> []
                 | Some (v, rest) \<Rightarrow> SNum v # sscanf fmt rest))"

definition lits :: "string \<Rightarrow> conv list" where "lits = map Lit"

definition nums :: "nat \<Rightarrow> conv list" where "nums n = concat (replicate n [Space, Num])"

lemma sscanf_lits: "sscanf (lits w @ fmt) (w @ s) = sscanf fmt s"
  by (induction w) (simp_all add: lits_def)

lemma sscanf_Lit: "sscanf (Lit c # fmt) (c # s) = sscanf fmt s"
  by simp

lemma sscanf_Space: "sscanf (Space # fmt) s = sscanf fmt (skip_ws s)"
  by simp

declare sscanf.simps(2) [simp del]

section \<open>Printing decimals\<close>

text \<open>The decimal text of a number, as \<^verbatim>\<open>%u\<close> prints it; the inverse of \<open>dec_value\<close>.\<close>

fun dec :: "nat \<Rightarrow> string" where
  "dec n = (if n < 10 then [char_of (48 + n)] else dec (n div 10) @ [char_of (48 + n mod 10)])"

declare dec.simps [simp del]

lemma ord_char_of [simp]: "n < 256 \<Longrightarrow> ord (char_of (n :: nat)) = n"
  by (simp add: ord_def)

lemma digit_char [simp]: "n < 10 \<Longrightarrow> c_isdigit (char_of (48 + n :: nat))"
  by (simp add: c_isdigit_def)

lemma dec_digits: "list_all c_isdigit (dec n)"
proof (induction n rule: dec.induct)
  case (1 n)
  then show ?case
    by (subst dec.simps) (simp add: digit_char)
qed

lemma dec_nonempty [simp]: "dec n \<noteq> []"
  by (subst dec.simps) simp

lemma dec_value_dec [simp]: "dec_value (dec n) = n"
proof (induction n rule: dec.induct)
  case (1 n)
  show ?case
  proof (cases "n < 10")
    case True
    then show ?thesis by (subst dec.simps) (simp add: dec_value_def)
  next
    case False
    with 1 have "dec_value (dec (n div 10)) = n div 10" by simp
    with False show ?thesis by (subst dec.simps) (simp add: dec_value_def)
  qed
qed

lemma takeWhile_append_stop:
  "list_all P xs \<Longrightarrow> (ys = [] \<or> \<not> P (hd ys)) \<Longrightarrow> takeWhile P (xs @ ys) = xs \<and> dropWhile P (xs @ ys) = ys"
  by (induction xs) (cases ys; simp)+

lemma digit_not_sign: "c_isdigit c \<Longrightarrow> c \<noteq> CHR ''-'' \<and> c \<noteq> CHR ''+''"
  by (auto simp: c_isdigit_def ord_def)

lemma digit_not_space: "c_isdigit c \<Longrightarrow> \<not> c_isspace c"
  by (auto simp: c_isdigit_def c_isspace_def)

text \<open>Scanning a printed number gives it back, as long as no digit follows it.\<close>

definition stops :: "string \<Rightarrow> bool" where
  "stops s \<longleftrightarrow> s = [] \<or> \<not> c_isdigit (hd s)"

lemma scan_decimal_dec:
  assumes "n < 2 ^ 64" and "stops s"
  shows "scan_decimal (dec n @ s) = Some (of_nat n, False, s)"
proof -
  obtain c t where ct: "dec n = c # t" by (cases "dec n") simp_all
  then have "c_isdigit c" using dec_digits [of n] by simp
  then have "scan_sign (dec n @ s) = (False, dec n @ s)"
    using digit_not_sign by (simp add: scan_sign_def ct)
  then show ?thesis
    using assms takeWhile_append_stop [of c_isdigit "dec n" s, OF dec_digits]
    by (simp add: scan_decimal_def stops_def clamp64_def)
qed

lemma skip_ws_dec [simp]: "skip_ws (dec n @ s) = dec n @ s"
proof -
  obtain c t where ct: "dec n = c # t" by (cases "dec n") simp_all
  then have "\<not> c_isspace c" using dec_digits [of n] digit_not_space by simp
  then show ?thesis by (simp add: skip_ws_def ct)
qed

section \<open>JSON output\<close>

text \<open>The formats of the status lines: a field is a quoted name and a text, an object joins fields.\<close>

definition json_bool :: "bool \<Rightarrow> string" where "json_bool b = (if b then ''true'' else ''false'')"

definition json_field :: "string \<Rightarrow> string \<Rightarrow> string" where
  "json_field name text = [CHR 0x22] @ name @ [CHR 0x22] @ '':'' @ text"

definition json_object :: "string list \<Rightarrow> string" where
  "json_object items = ''{'' @ concat (map (\<lambda>f. f @ '','') (butlast items)) @ last items @ ''}''"

definition json_num :: "string \<Rightarrow> u32 \<Rightarrow> string" where "json_num name n = json_field name (dec (unat n))"

definition json_str :: "string \<Rightarrow> string \<Rightarrow> string" where
  "json_str name s = json_field name ([CHR 0x22] @ s @ [CHR 0x22])"

end
