(* ===== verification/Bpf_Types.thy ===== *)
theory Bpf_Types
  imports Prelude
begin

text \<open>
  The ABI header \<^verbatim>\<open>src/client-access-bpf.h\<close> and the map declarations of
  \<^verbatim>\<open>src/client-access-bpf.c\<close>: constants, structs as records, the pinned maps as one
  state record, and the kernel as a parameter.

  A map is its observable content, a partial function from keys to values; a lookup is the
  application of that function.  A store through a pointer that a lookup returned is an
  update of the content.  Everything else a map does is code of the Linux kernel, which is
  not part of the repository: the update, delete and iteration calls, the longest-prefix
  lookup of an LPM trie, the clock and the moves of other CPUs on a shared word are fields of
  the record \<open>kernel\<close>, an argument of every definition that uses them.  The
  documented behaviour of those calls is stated by predicates, \<open>map_update_ok\<close> and
  \<open>map_delete_ok\<close> here and further ones where they are used first, which appear as hypotheses
  where a property needs them.
\<close>

section \<open>Constants\<close>

abbreviation (input) CA_BPF_SCHEMA_VERSION :: u32 where "CA_BPF_SCHEMA_VERSION \<equiv> 5"
abbreviation (input) CA_TC_HANDLE :: u32 where "CA_TC_HANDLE \<equiv> 0xca"
abbreviation (input) CA_TC_PRIORITY :: u32 where "CA_TC_PRIORITY \<equiv> 0xca"

abbreviation (input) CA_CLASS_DEFAULT :: u16 where "CA_CLASS_DEFAULT \<equiv> 0"
abbreviation (input) CA_CLASS_UNCLASSIFIED :: u16 where "CA_CLASS_UNCLASSIFIED \<equiv> 1"

abbreviation (input) CA_APP_MARK_DENY :: u32 where "CA_APP_MARK_DENY \<equiv> 0x20000000"
abbreviation (input) CA_APP_MARK_VALID :: u32 where "CA_APP_MARK_VALID \<equiv> 0x40000000"

definition CA_APP_MARK_MASK :: u32 where
  "CA_APP_MARK_MASK = CA_APP_MARK_DENY OR CA_APP_MARK_VALID"

abbreviation (input) CA_MAX_SUBJECTS :: nat where "CA_MAX_SUBJECTS \<equiv> 1024"
abbreviation (input) CA_MAX_POLICY_ENTRIES :: nat where "CA_MAX_POLICY_ENTRIES \<equiv> 8192"
abbreviation (input) CA_MAX_FLOWS :: nat where "CA_MAX_FLOWS \<equiv> 16384"
abbreviation (input) CA_MAX_PORT_HINTS :: nat where "CA_MAX_PORT_HINTS \<equiv> 1024"
abbreviation (input) CA_MAX_IPV4_HINTS :: nat where "CA_MAX_IPV4_HINTS \<equiv> 4096"
abbreviation (input) CA_MAX_IPV6_HINTS :: nat where "CA_MAX_IPV6_HINTS \<equiv> 4096"
abbreviation (input) CA_STATS_COUNT :: nat where "CA_STATS_COUNT \<equiv> 22"

abbreviation (input) CA_VERDICT_ALLOW :: u8 where "CA_VERDICT_ALLOW \<equiv> 0"
abbreviation (input) CA_VERDICT_DENY :: u8 where "CA_VERDICT_DENY \<equiv> 1"

abbreviation (input) CA_FLOW_PENDING :: u8 where "CA_FLOW_PENDING \<equiv> 0"
abbreviation (input) CA_FLOW_CLASSIFIED :: u8 where "CA_FLOW_CLASSIFIED \<equiv> 1"
abbreviation (input) CA_FLOW_UNCLASSIFIED_FINAL :: u8 where "CA_FLOW_UNCLASSIFIED_FINAL \<equiv> 2"

abbreviation (input) CA_CLASS_KIND_NONE :: u8 where "CA_CLASS_KIND_NONE \<equiv> 0"
abbreviation (input) CA_CLASS_KIND_EXACT :: u8 where "CA_CLASS_KIND_EXACT \<equiv> 1"
abbreviation (input) CA_CLASS_KIND_CATEGORY :: u8 where "CA_CLASS_KIND_CATEGORY \<equiv> 2"
abbreviation (input) CA_CLASS_KIND_UNCLASSIFIED :: u8 where "CA_CLASS_KIND_UNCLASSIFIED \<equiv> 3"

abbreviation (input) CA_STAT_PACKETS :: u32 where "CA_STAT_PACKETS \<equiv> 0"
abbreviation (input) CA_STAT_FLOWS_TOTAL :: u32 where "CA_STAT_FLOWS_TOTAL \<equiv> 1"
abbreviation (input) CA_STAT_FLOWS_UNCLASSIFIED :: u32 where "CA_STAT_FLOWS_UNCLASSIFIED \<equiv> 2"
abbreviation (input) CA_STAT_FLOW_APP_ALLOW_VERDICTS :: u32 where "CA_STAT_FLOW_APP_ALLOW_VERDICTS \<equiv> 3"
abbreviation (input) CA_STAT_FLOW_APP_DENY_VERDICTS :: u32 where "CA_STAT_FLOW_APP_DENY_VERDICTS \<equiv> 4"
abbreviation (input) CA_STAT_FLOW_MAP_FULL :: u32 where "CA_STAT_FLOW_MAP_FULL \<equiv> 5"
abbreviation (input) CA_STAT_POLICY_REEVALUATIONS :: u32 where "CA_STAT_POLICY_REEVALUATIONS \<equiv> 6"
abbreviation (input) CA_STAT_UNKNOWN_SUBJECT_PACKETS :: u32 where "CA_STAT_UNKNOWN_SUBJECT_PACKETS \<equiv> 7"
abbreviation (input) CA_STAT_FLOWS_PENDING :: u32 where "CA_STAT_FLOWS_PENDING \<equiv> 8"
abbreviation (input) CA_STAT_FLOWS_CLASSIFIED_EXACT :: u32 where "CA_STAT_FLOWS_CLASSIFIED_EXACT \<equiv> 9"
abbreviation (input) CA_STAT_FLOWS_CLASSIFIED_CATEGORY :: u32 where "CA_STAT_FLOWS_CLASSIFIED_CATEGORY \<equiv> 10"
abbreviation (input) CA_STAT_FLOWS_UNCLASSIFIED_BUDGET :: u32 where "CA_STAT_FLOWS_UNCLASSIFIED_BUDGET \<equiv> 11"
abbreviation (input) CA_STAT_FLOWS_UNCLASSIFIED_LOAD_SHED :: u32 where "CA_STAT_FLOWS_UNCLASSIFIED_LOAD_SHED \<equiv> 12"
abbreviation (input) CA_STAT_CLASSIFICATION_PACKETS :: u32 where "CA_STAT_CLASSIFICATION_PACKETS \<equiv> 13"
abbreviation (input) CA_STAT_CLASSIFICATION_BYTES :: u32 where "CA_STAT_CLASSIFICATION_BYTES \<equiv> 14"
abbreviation (input) CA_STAT_CLASSIFICATION_ADMISSION_DENIED :: u32 where "CA_STAT_CLASSIFICATION_ADMISSION_DENIED \<equiv> 15"
abbreviation (input) CA_STAT_PACKET_APP_ALLOW_VERDICTS :: u32 where "CA_STAT_PACKET_APP_ALLOW_VERDICTS \<equiv> 16"
abbreviation (input) CA_STAT_PACKET_APP_DENY_VERDICTS :: u32 where "CA_STAT_PACKET_APP_DENY_VERDICTS \<equiv> 17"
abbreviation (input) CA_STAT_FLOW_READMISSIONS :: u32 where "CA_STAT_FLOW_READMISSIONS \<equiv> 18"
abbreviation (input) CA_STAT_FLOW_MAP_EVICTIONS :: u32 where "CA_STAT_FLOW_MAP_EVICTIONS \<equiv> 19"
abbreviation (input) CA_STAT_PARSE_UNSUPPORTED :: u32 where "CA_STAT_PARSE_UNSUPPORTED \<equiv> 20"
abbreviation (input) CA_STAT_CLASSIFIER_CONFLICTS :: u32 where "CA_STAT_CLASSIFIER_CONFLICTS \<equiv> 21"

section \<open>Structs\<close>

text \<open>
  The spin lock of \<^verbatim>\<open>struct ca_config\<close> is left out: every reader and writer of the
  record takes it (or passes \<^verbatim>\<open>BPF_F_LOCK\<close>), so an access moves the whole record.
\<close>

record ca_config =
  cfg_enabled :: u32
  cfg_app_enforcement_enabled :: u32
  cfg_active_slot :: u32
  cfg_app_policy_generation :: u32
  cfg_classifier_generation :: u32
  cfg_unknown_subject_app_verdict :: u8
  cfg_provisional_app_verdict :: u8
  cfg_max_packets_inspected :: u16
  cfg_max_bytes_examined :: u32
  cfg_max_classification_age_ms :: u32
  cfg_max_pending_entries :: u32
  cfg_max_new_classifications_per_second :: u32
  cfg_per_subject_new_classification_rate :: u32

record ca_mac_key =
  mac_addr :: "u8 list"

record ca_policy_key =
  pk_subject_id :: u32
  pk_class_id :: u16
  pk_reserved :: u16

record ca_class_hint =
  ch_class_id :: u16
  ch_category_id :: u16
  ch_kind :: u8

record ca_port_key =
  ptk_ip_proto :: u8
  ptk_reserved :: u8
  ptk_dst_port :: u16

record ca_ipv4_lpm_key =
  p4_prefixlen :: u32
  p4_addr :: "u8 list"

record ca_ipv6_lpm_key =
  p6_prefixlen :: u32
  p6_addr :: "u8 list"

text \<open>
  The address union of \<^verbatim>\<open>struct ca_flow_key\<close> is its 32 bytes of memory; the IPv4
  view is the first eight of them.
\<close>

record ca_flow_key =
  fk_subject_id :: u32
  fk_eth_proto :: u16
  fk_ip_proto :: u8
  fk_reserved :: u8
  fk_src_port :: u16
  fk_dst_port :: u16
  fk_addr :: "u8 list"

definition fk_v4_src :: "ca_flow_key \<Rightarrow> u8 list" where "fk_v4_src k = take 4 (fk_addr k)"
definition fk_v4_dst :: "ca_flow_key \<Rightarrow> u8 list" where "fk_v4_dst k = take 4 (drop 4 (fk_addr k))"
definition fk_v6_src :: "ca_flow_key \<Rightarrow> u8 list" where "fk_v6_src k = take 16 (fk_addr k)"
definition fk_v6_dst :: "ca_flow_key \<Rightarrow> u8 list" where "fk_v6_dst k = take 16 (drop 16 (fk_addr k))"

record ca_flow_state =
  fs_first_seen_ns :: u64
  fs_last_seen_ns :: u64
  fs_app_policy_generation :: u32
  fs_classifier_generation :: u32
  fs_packets_examined :: u32
  fs_bytes_examined :: u32
  fs_class_id :: u16
  fs_classification_state :: u8
  fs_app_verdict :: u8
  fs_class_kind :: u8

text \<open>The value of a struct declared with \<^verbatim>\<open>= {}\<close>.\<close>

definition zero_config :: ca_config where
  "zero_config = \<lparr>cfg_enabled = 0, cfg_app_enforcement_enabled = 0, cfg_active_slot = 0,
     cfg_app_policy_generation = 0, cfg_classifier_generation = 0,
     cfg_unknown_subject_app_verdict = 0, cfg_provisional_app_verdict = 0,
     cfg_max_packets_inspected = 0, cfg_max_bytes_examined = 0,
     cfg_max_classification_age_ms = 0, cfg_max_pending_entries = 0,
     cfg_max_new_classifications_per_second = 0, cfg_per_subject_new_classification_rate = 0\<rparr>"

definition zero_mac :: ca_mac_key where
  "zero_mac = \<lparr>mac_addr = replicate 6 0\<rparr>"

definition zero_hint :: ca_class_hint where
  "zero_hint = \<lparr>ch_class_id = 0, ch_category_id = 0, ch_kind = 0\<rparr>"

definition zero_flow_key :: ca_flow_key where
  "zero_flow_key = \<lparr>fk_subject_id = 0, fk_eth_proto = 0, fk_ip_proto = 0, fk_reserved = 0,
     fk_src_port = 0, fk_dst_port = 0, fk_addr = replicate 32 0\<rparr>"

definition zero_flow_state :: ca_flow_state where
  "zero_flow_state = \<lparr>fs_first_seen_ns = 0, fs_last_seen_ns = 0, fs_app_policy_generation = 0,
     fs_classifier_generation = 0, fs_packets_examined = 0, fs_bytes_examined = 0,
     fs_class_id = 0, fs_classification_state = 0, fs_app_verdict = 0, fs_class_kind = 0\<rparr>"

section \<open>The pinned maps\<close>

text \<open>
  One field per map declaration.  \<open>m_stats\<close> is the slice of the per-CPU statistics array
  that belongs to the CPU that runs the program.
\<close>

record ca_maps =
  m_config :: "u32 \<rightharpoonup> ca_config"
  m_mark_schema :: "u32 \<rightharpoonup> u32"
  m_subject_a :: "ca_mac_key \<rightharpoonup> u32"
  m_subject_b :: "ca_mac_key \<rightharpoonup> u32"
  m_policy_a :: "ca_policy_key \<rightharpoonup> u8"
  m_policy_b :: "ca_policy_key \<rightharpoonup> u8"
  m_port_a :: "ca_port_key \<rightharpoonup> ca_class_hint"
  m_port_b :: "ca_port_key \<rightharpoonup> ca_class_hint"
  m_ipv4_a :: "ca_ipv4_lpm_key \<rightharpoonup> ca_class_hint"
  m_ipv4_b :: "ca_ipv4_lpm_key \<rightharpoonup> ca_class_hint"
  m_ipv6_a :: "ca_ipv6_lpm_key \<rightharpoonup> ca_class_hint"
  m_ipv6_b :: "ca_ipv6_lpm_key \<rightharpoonup> ca_class_hint"
  m_flows :: "ca_flow_key \<rightharpoonup> ca_flow_state"
  m_global_rate :: "u32 \<rightharpoonup> u64"
  m_subject_rates :: "u32 \<rightharpoonup> u64"
  m_runtime :: "u32 \<rightharpoonup> u64"
  m_stats :: "u32 \<rightharpoonup> u64"

section \<open>The kernel as a parameter\<close>

datatype map_flag = BPF_ANY | BPF_NOEXIST | BPF_EXIST

text \<open>
  The calls on a map.  An update or delete returns its status (0 on success, else the error
  number) and the content afterwards; \<open>mo_next_key\<close> returns the next key after the one
  given, or the error number.
\<close>

record ('k, 'v) map_ops =
  mo_update :: "('k \<rightharpoonup> 'v) \<Rightarrow> 'k \<Rightarrow> 'v \<Rightarrow> map_flag \<Rightarrow> int \<times> ('k \<rightharpoonup> 'v)"
  mo_delete :: "('k \<rightharpoonup> 'v) \<Rightarrow> 'k \<Rightarrow> int \<times> ('k \<rightharpoonup> 'v)"
  mo_next_key :: "('k \<rightharpoonup> 'v) \<Rightarrow> 'k option \<Rightarrow> int + 'k"

abbreviation (input) ENOENT :: int where "ENOENT \<equiv> 2"
abbreviation (input) ENOMEM :: int where "ENOMEM \<equiv> 12"
abbreviation (input) E2BIG :: int where "E2BIG \<equiv> 7"
abbreviation (input) EEXIST :: int where "EEXIST \<equiv> 17"
abbreviation (input) EINVAL :: int where "EINVAL \<equiv> 22"

definition map_update_ok :: "('k, 'v) map_ops \<Rightarrow> bool" where
  "map_update_ok ops \<longleftrightarrow> (\<forall>m k v f.
     (fst (mo_update ops m k v f) = 0 \<longrightarrow> snd (mo_update ops m k v f) = m(k \<mapsto> v)) \<and>
     (fst (mo_update ops m k v f) \<noteq> 0 \<longrightarrow> snd (mo_update ops m k v f) = m) \<and>
     (f = BPF_NOEXIST \<and> m k \<noteq> None \<longrightarrow> fst (mo_update ops m k v f) \<noteq> 0) \<and>
     (f = BPF_EXIST \<and> m k = None \<longrightarrow> fst (mo_update ops m k v f) \<noteq> 0))"

definition map_delete_ok :: "('k, 'v) map_ops \<Rightarrow> bool" where
  "map_delete_ok ops \<longleftrightarrow> (\<forall>m k.
     (fst (mo_delete ops m k) = 0 \<longrightarrow> snd (mo_delete ops m k) = m(k := None)) \<and>
     (fst (mo_delete ops m k) \<noteq> 0 \<longrightarrow> snd (mo_delete ops m k) = m) \<and>
     (m k = None \<longrightarrow> fst (mo_delete ops m k) = ENOENT))"

text \<open>The words that several CPUs change with atomic operations.\<close>

datatype race_site = Global_Rate | Subject_Rate | Runtime_Word

text \<open>
  \<open>kn_race s n\<close> is what the other CPUs do to the word at site \<open>s\<close> between two of this
  CPU's atomic operations on it, the \<open>n\<close>-th such gap.
\<close>

record kernel =
  kn_flows :: "(ca_flow_key, ca_flow_state) map_ops"
  kn_rates :: "(u32, u64) map_ops"
  kn_ipv4_lookup :: "(ca_ipv4_lpm_key \<rightharpoonup> ca_class_hint) \<Rightarrow> ca_ipv4_lpm_key \<Rightarrow> ca_class_hint option"
  kn_ipv6_lookup :: "(ca_ipv6_lpm_key \<rightharpoonup> ca_class_hint) \<Rightarrow> ca_ipv6_lpm_key \<Rightarrow> ca_class_hint option"
  kn_ktime_get_ns :: u64
  kn_race :: "race_site \<Rightarrow> nat \<Rightarrow> u64 \<Rightarrow> u64"

lemma map_update_success:
  "map_update_ok ops \<Longrightarrow> mo_update ops m k v f = (0, m') \<Longrightarrow> m' = m(k \<mapsto> v)"
  unfolding map_update_ok_def by (metis fst_conv snd_conv)

lemma map_update_failure:
  "map_update_ok ops \<Longrightarrow> mo_update ops m k v f = (e, m') \<Longrightarrow> e \<noteq> 0 \<Longrightarrow> m' = m"
  unfolding map_update_ok_def by (metis fst_conv snd_conv)

lemma map_update_noexist:
  "map_update_ok ops \<Longrightarrow> mo_update ops m k v BPF_NOEXIST = (0, m') \<Longrightarrow> m k = None"
  unfolding map_update_ok_def by (metis fst_conv)

lemma map_update_exist:
  "map_update_ok ops \<Longrightarrow> mo_update ops m k v BPF_EXIST = (0, m') \<Longrightarrow> m k \<noteq> None"
  unfolding map_update_ok_def by (metis fst_conv)

lemma map_update_cases:
  assumes "map_update_ok ops" and "mo_update ops m k v f = (e, m')"
  shows "e = 0 \<and> m' = m(k \<mapsto> v) \<or> e \<noteq> 0 \<and> m' = m"
  using assms map_update_success map_update_failure by metis

lemma map_delete_cases:
  assumes "map_delete_ok ops" and "mo_delete ops m k = (e, m')"
  shows "e = 0 \<and> m' = m(k := None) \<or> e \<noteq> 0 \<and> m' = m"
  using assms unfolding map_delete_ok_def by (metis fst_conv snd_conv)

end
