(* ===== verification/Snapshot_Parser.thy ===== *)
theory Snapshot_Parser
  imports Libc Bpf_Types
begin

text \<open>
  The snapshot parser of \<^verbatim>\<open>src/bpf-snapshot.c\<close>: one line of text per record, read into
  bounded arrays.  Address conversion (\<^verbatim>\<open>inet_pton\<close>) and the success of
  \<^verbatim>\<open>realloc\<close> are fields of the parameter \<open>libc\<close>.

  The five \<^verbatim>\<open>append_*\<close> functions share the contract \<open>bounded_append\<close>.
\<close>

datatype family = AF_INET | AF_INET6

record libc =
  lc_einval_on_empty :: bool
  lc_inet_pton :: "family \<Rightarrow> string \<Rightarrow> u8 list option"
  lc_realloc :: "nat \<Rightarrow> bool"

section \<open>Entries and the snapshot\<close>

record subject_entry =
  se_key :: ca_mac_key
  se_subject_id :: u32

record policy_entry =
  pe_key :: ca_policy_key
  pe_verdict :: u8

record port_entry =
  te_key :: ca_port_key
  te_hint :: ca_class_hint

record ipv4_entry =
  v4_key :: ca_ipv4_lpm_key
  v4_hint :: ca_class_hint

record ipv6_entry =
  v6_key :: ca_ipv6_lpm_key
  v6_hint :: ca_class_hint

text \<open>An array and its count are one list.\<close>

record snapshot =
  sn_config :: ca_config
  sn_have_config :: bool
  sn_subjects :: "subject_entry list"
  sn_policies :: "policy_entry list"
  sn_ports :: "port_entry list"
  sn_ipv4 :: "ipv4_entry list"
  sn_ipv6 :: "ipv6_entry list"

definition zero_snapshot :: snapshot where
  "zero_snapshot = \<lparr>sn_config = zero_config, sn_have_config = False, sn_subjects = [],
     sn_policies = [], sn_ports = [], sn_ipv4 = [], sn_ipv6 = []\<rparr>"

section \<open>Appending\<close>

definition append_subject :: "libc \<Rightarrow> snapshot \<Rightarrow> subject_entry \<Rightarrow> int \<times> snapshot" where
  "append_subject L sn e =
     (if length (sn_subjects sn) \<ge> CA_MAX_SUBJECTS then (- E2BIG, sn)
      else if \<not> lc_realloc L (12 * (length (sn_subjects sn) + 1)) then (- ENOMEM, sn)
      else (0, sn\<lparr>sn_subjects := sn_subjects sn @ [e]\<rparr>))"

definition append_policy :: "libc \<Rightarrow> snapshot \<Rightarrow> policy_entry \<Rightarrow> int \<times> snapshot" where
  "append_policy L sn e =
     (if length (sn_policies sn) \<ge> CA_MAX_POLICY_ENTRIES then (- E2BIG, sn)
      else if \<not> lc_realloc L (12 * (length (sn_policies sn) + 1)) then (- ENOMEM, sn)
      else (0, sn\<lparr>sn_policies := sn_policies sn @ [e]\<rparr>))"

definition append_port :: "libc \<Rightarrow> snapshot \<Rightarrow> port_entry \<Rightarrow> int \<times> snapshot" where
  "append_port L sn e =
     (if length (sn_ports sn) \<ge> CA_MAX_PORT_HINTS then (- E2BIG, sn)
      else if \<not> lc_realloc L (12 * (length (sn_ports sn) + 1)) then (- ENOMEM, sn)
      else (0, sn\<lparr>sn_ports := sn_ports sn @ [e]\<rparr>))"

definition append_ipv4 :: "libc \<Rightarrow> snapshot \<Rightarrow> ipv4_entry \<Rightarrow> int \<times> snapshot" where
  "append_ipv4 L sn e =
     (if length (sn_ipv4 sn) \<ge> CA_MAX_IPV4_HINTS then (- E2BIG, sn)
      else if \<not> lc_realloc L (16 * (length (sn_ipv4 sn) + 1)) then (- ENOMEM, sn)
      else (0, sn\<lparr>sn_ipv4 := sn_ipv4 sn @ [e]\<rparr>))"

definition append_ipv6 :: "libc \<Rightarrow> snapshot \<Rightarrow> ipv6_entry \<Rightarrow> int \<times> snapshot" where
  "append_ipv6 L sn e =
     (if length (sn_ipv6 sn) \<ge> CA_MAX_IPV6_HINTS then (- E2BIG, sn)
      else if \<not> lc_realloc L (28 * (length (sn_ipv6 sn) + 1)) then (- ENOMEM, sn)
      else (0, sn\<lparr>sn_ipv6 := sn_ipv6 sn @ [e]\<rparr>))"

text \<open>
  The contract: an append succeeds by adding the entry at the end of an array that had room, or
  fails and changes nothing.
\<close>

locale bounded_append =
  fixes append :: "libc \<Rightarrow> snapshot \<Rightarrow> 'e \<Rightarrow> int \<times> snapshot"
    and items :: "snapshot \<Rightarrow> 'e list"
    and set_items :: "'e list \<Rightarrow> snapshot \<Rightarrow> snapshot"
    and cap size :: nat
  assumes append_full: "cap \<le> length (items sn) \<Longrightarrow> append L sn e = (- E2BIG, sn)"
    and append_nomem: "length (items sn) < cap \<Longrightarrow> \<not> lc_realloc L (size * (length (items sn) + 1)) \<Longrightarrow>
      append L sn e = (- ENOMEM, sn)"
    and append_ok: "length (items sn) < cap \<Longrightarrow> lc_realloc L (size * (length (items sn) + 1)) \<Longrightarrow>
      append L sn e = (0, set_items (items sn @ [e]) sn)"
begin

lemma append_cases:
  obtains (stored) "append L sn e = (0, set_items (items sn @ [e]) sn)" "length (items sn) < cap"
  | (failed) r where "append L sn e = (r, sn)" "r \<noteq> 0"
  using append_full [of sn L e] append_nomem [of sn L e] append_ok [of sn L e]
  by (metis neg_0_equal_iff_equal not_le zero_neq_numeral)

lemma append_keeps:
  assumes "P sn" and "length (items sn) < cap \<Longrightarrow> P (set_items (items sn @ [e]) sn)"
  shows "P (snd (append L sn e))"
  using assms by (rule_tac append_cases [of L sn e]) auto

end

interpretation subjects: bounded_append append_subject sn_subjects "\<lambda>x sn. sn\<lparr>sn_subjects := x\<rparr>" CA_MAX_SUBJECTS 12
  by unfold_locales (simp_all add: append_subject_def)

interpretation policies: bounded_append append_policy sn_policies "\<lambda>x sn. sn\<lparr>sn_policies := x\<rparr>" CA_MAX_POLICY_ENTRIES 12
  by unfold_locales (simp_all add: append_policy_def)

interpretation ports: bounded_append append_port sn_ports "\<lambda>x sn. sn\<lparr>sn_ports := x\<rparr>" CA_MAX_PORT_HINTS 12
  by unfold_locales (simp_all add: append_port_def)

interpretation prefixes4: bounded_append append_ipv4 sn_ipv4 "\<lambda>x sn. sn\<lparr>sn_ipv4 := x\<rparr>" CA_MAX_IPV4_HINTS 16
  by unfold_locales (simp_all add: append_ipv4_def)

interpretation prefixes6: bounded_append append_ipv6 sn_ipv6 "\<lambda>x sn. sn\<lparr>sn_ipv6 := x\<rparr>" CA_MAX_IPV6_HINTS 28
  by unfold_locales (simp_all add: append_ipv6_def)

section \<open>Fields of a line\<close>

definition parse_mac :: "string \<Rightarrow> ca_mac_key option" where
  "parse_mac text =
     (let b = sscanf [Hex2, Lit CHR '':'', Hex2, Lit CHR '':'', Hex2, Lit CHR '':'',
                      Hex2, Lit CHR '':'', Hex2, Lit CHR '':'', Hex2] text
      in if length b \<noteq> 6 then None
         else Some \<lparr>mac_addr = map (\<lambda>v. ucast (snum v)) b\<rparr>)"

definition parse_hint :: "u32 \<Rightarrow> u32 \<Rightarrow> u32 \<Rightarrow> ca_class_hint option" where
  "parse_hint class_id category_id kind =
     (if kind = ucast CA_CLASS_KIND_UNCLASSIFIED \<and> class_id = ucast CA_CLASS_UNCLASSIFIED \<and> category_id = 0
      then Some \<lparr>ch_class_id = ucast class_id, ch_category_id = 0, ch_kind = ucast kind\<rparr>
      else if class_id \<le> ucast CA_CLASS_UNCLASSIFIED \<or> class_id > 65535 \<or> category_id > 65535 \<or>
              (kind \<noteq> ucast CA_CLASS_KIND_EXACT \<and> kind \<noteq> ucast CA_CLASS_KIND_CATEGORY)
      then None
      else if kind = ucast CA_CLASS_KIND_CATEGORY \<and> category_id \<noteq> class_id
      then None
      else Some \<lparr>ch_class_id = ucast class_id, ch_category_id = ucast category_id, ch_kind = ucast kind\<rparr>)"

text \<open>The buffer holds \<^verbatim>\<open>INET6_ADDRSTRLEN + 4\<close> bytes; the text is cut at its first slash.\<close>

definition parse_prefix :: "libc \<Rightarrow> string \<Rightarrow> family \<Rightarrow> (u32 \<times> u8 list) option" where
  "parse_prefix L text fam =
     (let maximum = (if fam = AF_INET then 32 else 128 :: u64) in
      if length text \<ge> 50 then None
      else case dropWhile (\<lambda>c. c \<noteq> CHR ''/'') text of
        [] \<Rightarrow> None
      | _ # slash \<Rightarrow>
          let copy = takeWhile (\<lambda>c. c \<noteq> CHR ''/'') text;
              (value, end_text, err) = strtoul (lc_einval_on_empty L) slash
          in if err \<or> end_text \<noteq> [] \<or> value > maximum then None
             else case lc_inet_pton L fam copy of
               None \<Rightarrow> None
             | Some address \<Rightarrow> Some (ucast value, address))"

definition be32 :: "u8 list \<Rightarrow> u32" where
  "be32 a = push_bit 24 (ucast (a ! 0)) OR push_bit 16 (ucast (a ! 1)) OR
            push_bit 8 (ucast (a ! 2)) OR ucast (a ! 3)"

definition be32_list :: "u32 \<Rightarrow> u8 list" where
  "be32_list v = [ucast (drop_bit 24 v), ucast (drop_bit 16 v), ucast (drop_bit 8 v), ucast v]"

definition canonicalize_prefix :: "family \<Rightarrow> u8 list \<Rightarrow> u32 \<Rightarrow> u8 list" where
  "canonicalize_prefix fam address prefixlen =
     (if fam = AF_INET
      then let mask = (if prefixlen \<noteq> 0 then push_bit (unat (32 - prefixlen)) 0xffffffff else 0)
           in be32_list (be32 address AND mask)
      else let whole = unat (prefixlen div 8);
               remainder = unat (prefixlen mod 8);
               (bytes, whole') =
                 (if whole < 16 \<and> remainder \<noteq> 0
                  then (address[whole := address ! whole AND push_bit (8 - remainder) 0xff], whole + 1)
                  else (address, whole))
           in fold (\<lambda>i b. b[i := 0]) [whole'..<16] bytes)"

section \<open>Lines\<close>

text \<open>\<open>vnum v i\<close> and \<open>vstr v i\<close> read the variable the \<open>i\<close>-th conversion stored to.\<close>

abbreviation (input) vnum :: "scan_val list \<Rightarrow> nat \<Rightarrow> u32" where "vnum v i \<equiv> snum (v ! i)"
abbreviation (input) vstr :: "scan_val list \<Rightarrow> nat \<Rightarrow> string" where "vstr v i \<equiv> sstr (v ! i)"

definition parse_config :: "snapshot \<Rightarrow> string \<Rightarrow> int \<times> snapshot" where
  "parse_config sn line =
     (let v = sscanf (lits ''CONFIG'' @ nums 12) line in
      if sn_have_config sn \<or> length v \<noteq> 12 \<or> vnum v 0 > 1 \<or> vnum v 1 > 1 \<or>
         vnum v 1 > vnum v 0 \<or> vnum v 4 > 1 \<or> vnum v 5 > 1 \<or> vnum v 6 \<noteq> 1 \<or>
         vnum v 7 < 64 \<or> vnum v 7 > 8192 \<or> vnum v 8 < 1 \<or> vnum v 8 > 10000 \<or>
         vnum v 9 < 1 \<or> vnum v 9 > of_nat CA_MAX_FLOWS \<or> vnum v 10 < 1 \<or> vnum v 10 > 100000 \<or>
         vnum v 11 < 1 \<or> vnum v 11 > 100000
      then (- EINVAL, sn)
      else (0, sn\<lparr>sn_config := (sn_config sn)\<lparr>
              cfg_enabled := vnum v 0, cfg_app_enforcement_enabled := vnum v 1,
              cfg_app_policy_generation := vnum v 2, cfg_classifier_generation := vnum v 3,
              cfg_unknown_subject_app_verdict := ucast (vnum v 4),
              cfg_provisional_app_verdict := ucast (vnum v 5),
              cfg_max_packets_inspected := ucast (vnum v 6), cfg_max_bytes_examined := vnum v 7,
              cfg_max_classification_age_ms := vnum v 8, cfg_max_pending_entries := vnum v 9,
              cfg_max_new_classifications_per_second := vnum v 10,
              cfg_per_subject_new_classification_rate := vnum v 11\<rparr>,
            sn_have_config := True\<rparr>))"

definition parse_subject :: "libc \<Rightarrow> snapshot \<Rightarrow> string \<Rightarrow> int \<times> snapshot" where
  "parse_subject L sn line =
     (let v = sscanf (lits ''SUBJECT'' @ [Space, Str 31, Space, Num]) line in
      if length v \<noteq> 2 \<or> vnum v 1 = 0 then (- EINVAL, sn)
      else case parse_mac (vstr v 0) of
        None \<Rightarrow> (- EINVAL, sn)
      | Some key \<Rightarrow> append_subject L sn \<lparr>se_key = key, se_subject_id = vnum v 1\<rparr>)"

definition parse_port :: "libc \<Rightarrow> snapshot \<Rightarrow> string \<Rightarrow> int \<times> snapshot" where
  "parse_port L sn line =
     (let v = sscanf (lits ''PORT'' @ nums 5) line in
      if length v \<noteq> 5 \<or> (vnum v 0 \<noteq> 6 \<and> vnum v 0 \<noteq> 17) \<or> vnum v 1 = 0 \<or> vnum v 1 > 65535 then (- EINVAL, sn)
      else case parse_hint (vnum v 2) (vnum v 3) (vnum v 4) of
        None \<Rightarrow> (- EINVAL, sn)
      | Some hint \<Rightarrow> append_port L sn
          \<lparr>te_key = \<lparr>ptk_ip_proto = ucast (vnum v 0), ptk_reserved = 0, ptk_dst_port = bswap16 (ucast (vnum v 1))\<rparr>,
           te_hint = hint\<rparr>)"

definition parse_prefix4 :: "libc \<Rightarrow> snapshot \<Rightarrow> string \<Rightarrow> int \<times> snapshot" where
  "parse_prefix4 L sn line =
     (let v = sscanf (lits ''PREFIX4'' @ [Space, Str 18] @ nums 3) line in
      if length v \<noteq> 4 then (- EINVAL, sn)
      else case parse_prefix L (vstr v 0) AF_INET of
        None \<Rightarrow> (- EINVAL, sn)
      | Some (prefixlen, address) \<Rightarrow>
          (case parse_hint (vnum v 1) (vnum v 2) (vnum v 3) of
             None \<Rightarrow> (- EINVAL, sn)
           | Some hint \<Rightarrow> append_ipv4 L sn
               \<lparr>v4_key = \<lparr>p4_prefixlen = prefixlen, p4_addr = canonicalize_prefix AF_INET address prefixlen\<rparr>,
                v4_hint = hint\<rparr>))"

definition parse_prefix6 :: "libc \<Rightarrow> snapshot \<Rightarrow> string \<Rightarrow> int \<times> snapshot" where
  "parse_prefix6 L sn line =
     (let v = sscanf (lits ''PREFIX6'' @ [Space, Str 49] @ nums 3) line in
      if length v \<noteq> 4 then (- EINVAL, sn)
      else case parse_prefix L (vstr v 0) AF_INET6 of
        None \<Rightarrow> (- EINVAL, sn)
      | Some (prefixlen, address) \<Rightarrow>
          (case parse_hint (vnum v 1) (vnum v 2) (vnum v 3) of
             None \<Rightarrow> (- EINVAL, sn)
           | Some hint \<Rightarrow> append_ipv6 L sn
               \<lparr>v6_key = \<lparr>p6_prefixlen = prefixlen, p6_addr = canonicalize_prefix AF_INET6 address prefixlen\<rparr>,
                v6_hint = hint\<rparr>))"

definition parse_policy :: "libc \<Rightarrow> snapshot \<Rightarrow> string \<Rightarrow> int \<times> snapshot" where
  "parse_policy L sn line =
     (let v = sscanf (lits ''POLICY'' @ nums 3) line in
      if length v \<noteq> 3 \<or> vnum v 0 = 0 \<or> vnum v 1 > 65535 \<or> vnum v 2 > ucast CA_VERDICT_DENY then (- EINVAL, sn)
      else append_policy L sn
        \<lparr>pe_key = \<lparr>pk_subject_id = vnum v 0, pk_class_id = ucast (vnum v 1), pk_reserved = 0\<rparr>,
         pe_verdict = ucast (vnum v 2)\<rparr>)"

text \<open>One turn of the loop: 0 goes on, anything else leaves it.\<close>

definition parse_line :: "libc \<Rightarrow> snapshot \<Rightarrow> string \<Rightarrow> int \<times> snapshot" where
  "parse_line L sn line =
     (if line \<noteq> [] \<and> (hd line = CHR ''#'' \<or> hd line = NL) then (0, sn)
      else case sscanf [Str 15] line of
        [] \<Rightarrow> (0, sn)
      | v # _ \<Rightarrow>
          let command = sstr v in
          if command = ''CONFIG'' then parse_config sn line
          else if command = ''SUBJECT'' then parse_subject L sn line
          else if command = ''PORT'' then parse_port L sn line
          else if command = ''PREFIX4'' then parse_prefix4 L sn line
          else if command = ''PREFIX6'' then parse_prefix6 L sn line
          else if command = ''POLICY'' then parse_policy L sn line
          else (- EINVAL, sn))"

primrec parse_lines :: "libc \<Rightarrow> snapshot \<Rightarrow> string list \<Rightarrow> int \<times> snapshot" where
  "parse_lines L sn [] = (0, sn)"
| "parse_lines L sn (line # rest) =
     (let (ret, sn') = parse_line L sn line
      in if ret \<noteq> 0 then (ret, sn') else parse_lines L sn' rest)"

definition parse_snapshot :: "libc \<Rightarrow> snapshot \<Rightarrow> string \<Rightarrow> int \<times> snapshot" where
  "parse_snapshot L sn stdin =
     (let (ret, sn') = parse_lines L sn (map c_str (get_lines stdin))
      in if ret = 0 \<and> \<not> sn_have_config sn' then (- EINVAL, sn') else (ret, sn'))"

end
