(* ===== verification/Prefixes.thy ===== *)
theory Prefixes
  imports Snapshot_Parser
begin

text \<open>
  Address prefixes as bit strings: what \<^verbatim>\<open>canonicalize_prefix\<close> keeps and clears, for
  the word arithmetic of IPv4 and the byte loop of IPv6 alike.
\<close>

text \<open>Bit \<open>i\<close> of an address in network order, counted from the first bit on the wire.\<close>

definition addr_bit :: "u8 list \<Rightarrow> nat \<Rightarrow> bool" where
  "addr_bit a i = bit (a ! (i div 8)) (7 - i mod 8)"

definition addr_len :: "family \<Rightarrow> nat" where
  "addr_len fam = (if fam = AF_INET then 4 else 16)"

text \<open>No bit behind the prefix is set.\<close>

definition canonical :: "u8 list \<Rightarrow> nat \<Rightarrow> bool" where
  "canonical a p \<longleftrightarrow> (\<forall>i. p \<le> i \<and> i < 8 * length a \<longrightarrow> \<not> addr_bit a i)"

section \<open>Four bytes as a word\<close>

lemma bit_be32:
  assumes "n < 32"
  shows "bit (be32 a) n = addr_bit a (31 - n)"
proof -
  consider (0) "24 \<le> n" | (1) "16 \<le> n" "n < 24" | (2) "8 \<le> n" "n < 16" | (3) "n < 8" by linarith
  then show ?thesis
  proof cases
    case 0
    with assms have "(31 - n) div 8 = 0" "7 - (31 - n) mod 8 = n - 24" by (simp_all add: div_eq_0_iff)
    with 0 assms show ?thesis
      by (auto simp: be32_def addr_bit_def bit_simps dest: bit_imp_le_length)
  next
    case 1
    then have "(31 - n) div 8 = 1" by (auto simp: div_nat_eqI)
    moreover from this have "(31 - n) mod 8 = 23 - n" using 1 by (simp add: modulo_nat_def)
    ultimately show ?thesis
      using 1 by (auto simp: be32_def addr_bit_def bit_simps dest: bit_imp_le_length)
  next
    case 2
    then have "(31 - n) div 8 = 2" by (auto simp: div_nat_eqI)
    moreover from this have "(31 - n) mod 8 = 15 - n" using 2 by (simp add: modulo_nat_def)
    ultimately show ?thesis
      using 2 by (auto simp: be32_def addr_bit_def bit_simps dest: bit_imp_le_length)
  next
    case 3
    then have "(31 - n) div 8 = 3" by (auto simp: div_nat_eqI)
    moreover from this have "(31 - n) mod 8 = 7 - n" using 3 by (simp add: modulo_nat_def)
    ultimately show ?thesis
      using 3 by (auto simp: be32_def addr_bit_def bit_simps dest: bit_imp_le_length)
  qed
qed

lemma addr_bit_be32_list:
  assumes "i < 32"
  shows "addr_bit (be32_list v) i = bit v (31 - i)"
proof -
  have mod: "i mod 8 = i - 8 * (i div 8)" by (simp add: modulo_nat_def)
  have "i div 8 < 4" using assms by (simp add: less_mult_imp_div_less)
  then consider "i div 8 = 0" | "i div 8 = 1" | "i div 8 = 2" | "i div 8 = 3" by linarith
  then show ?thesis
  proof cases
    case 1
    then have "i < 8" by simp
    with 1 mod show ?thesis by (auto simp: addr_bit_def be32_list_def bit_simps)
  next
    case 2
    then have "8 \<le> i" "i < 16" by (simp_all add: div_nat_eqI)
    with 2 mod show ?thesis by (auto simp: addr_bit_def be32_list_def bit_simps)
  next
    case 3
    then have "16 \<le> i" "i < 24" by (simp_all add: div_nat_eqI)
    with 3 mod show ?thesis by (auto simp: addr_bit_def be32_list_def bit_simps)
  next
    case 4
    then have "24 \<le> i" by (simp add: div_nat_eqI)
    with 4 mod assms show ?thesis by (auto simp: addr_bit_def be32_list_def bit_simps)
  qed
qed

lemma all_ones: "(0xffffffff :: u32) = - 1" "(0xff :: u8) = - 1"
  by simp_all

lemma canonicalize_bits4:
  assumes "i < 32" and "unat p \<le> 32"
  shows "addr_bit (canonicalize_prefix AF_INET a p) i \<longleftrightarrow> i < unat p \<and> addr_bit a i"
proof (cases "p = 0")
  case True
  then show ?thesis
    using assms by (simp add: canonicalize_prefix_def addr_bit_be32_list bit_simps)
next
  case False
  have "unat (32 - p) = 32 - unat p"
    using assms(2) by (simp add: unat_sub word_le_nat_alt)
  then have "bit (be32 a AND push_bit (unat (32 - p)) (- 1)) (31 - i) \<longleftrightarrow>
      bit (be32 a) (31 - i) \<and> 32 - unat p \<le> 31 - i"
    using assms by (auto simp: bit_simps)
  moreover have "32 - unat p \<le> 31 - i \<longleftrightarrow> i < unat p"
    using assms by auto
  moreover have "bit (be32 a) (31 - i) = addr_bit a i"
    using assms(1) bit_be32 [of "31 - i" a] by simp
  ultimately show ?thesis
    using False assms(1) by (auto simp: canonicalize_prefix_def all_ones addr_bit_be32_list Let_def)
qed

section \<open>Sixteen bytes\<close>

lemma length_fold_clear [simp]: "length (fold (\<lambda>i b. b[i := 0]) is b) = length b"
  by (induction "is" arbitrary: b) simp_all

lemma fold_clear:
  "j < length b \<Longrightarrow> fold (\<lambda>i b. b[i := 0]) [w..<n] b ! j = (if w \<le> j \<and> j < n then 0 else (b ! j :: u8))"
  by (induction n) (auto simp: nth_list_update less_Suc_eq)

lemma less_div_mod: "(i :: nat) < p \<longleftrightarrow> i div 8 < p div 8 \<or> i div 8 = p div 8 \<and> i mod 8 < p mod 8"
proof -
  have "i = 8 * (i div 8) + i mod 8" "p = 8 * (p div 8) + p mod 8" by simp_all
  moreover have "i mod 8 < 8" "p mod 8 < 8" by simp_all
  ultimately show ?thesis by (cases "i div 8" "p div 8" rule: linorder_cases) linarith+
qed

lemma canonicalize_bits6:
  assumes a: "length a = 16" and i: "i < 128" and p: "unat p \<le> 128"
  shows "addr_bit (canonicalize_prefix AF_INET6 a p) i \<longleftrightarrow> i < unat p \<and> addr_bit a i"
proof -
  define w r where "w = unat p div 8" and "r = unat p mod 8"
  define j k where "j = i div 8" and "k = i mod 8"
  have wr: "unat (p div 8) = w" "unat (p mod 8) = r"
    by (simp_all add: w_def r_def unat_div unat_mod)
  have lt: "i < unat p \<longleftrightarrow> j < w \<or> j = w \<and> k < r"
    unfolding w_def r_def j_def k_def by (rule less_div_mod)
  have j: "j < 16" and k: "k < 8" and r: "r < 8" and w: "w \<le> 16"
    using i p by (simp_all add: j_def k_def r_def w_def less_mult_imp_div_less)
  have byte: "canonicalize_prefix AF_INET6 a p ! j =
      (if j < w then a ! j else if j = w \<and> r \<noteq> 0 then a ! j AND push_bit (8 - r) (- 1) else 0)"
    using a j by (auto simp: canonicalize_prefix_def wr all_ones fold_clear nth_list_update Let_def
        split: prod.split)
  have "bit (push_bit (8 - r) (- 1) :: u8) (7 - k) \<longleftrightarrow> k < r"
    using k r by (auto simp: bit_simps)
  then have "bit (a ! j AND push_bit (8 - r) (- 1)) (7 - k) \<longleftrightarrow> bit (a ! j) (7 - k) \<and> k < r"
    by (simp add: bit_and_iff)
  then show ?thesis
    unfolding lt unfolding addr_bit_def j_def [symmetric] k_def [symmetric] byte
    by (auto simp: r)
qed

section \<open>Both families\<close>

lemma length_canonicalize: "length a = addr_len fam \<Longrightarrow> length (canonicalize_prefix fam a p) = addr_len fam"
  by (cases fam) (simp_all add: addr_len_def canonicalize_prefix_def be32_list_def Let_def split: prod.split)

lemma canonicalize_bits:
  assumes "length a = addr_len fam" and "unat p \<le> 8 * addr_len fam" and "i < 8 * addr_len fam"
  shows "addr_bit (canonicalize_prefix fam a p) i \<longleftrightarrow> i < unat p \<and> addr_bit a i"
  using assms canonicalize_bits4 canonicalize_bits6 by (cases fam) (simp_all add: addr_len_def)

text \<open>Addresses of one length are equal when their bits are.\<close>

lemma addr_eqI:
  assumes "length a = length b" and "\<And>i. i < 8 * length a \<Longrightarrow> addr_bit a i = addr_bit b i"
  shows "a = b"
proof (rule nth_equalityI)
  fix j assume j: "j < length a"
  show "a ! j = b ! j"
  proof (rule bit_word_eqI)
    fix n assume "n < LENGTH(8)"
    then have n: "n < 8" by simp
    define k where "k = 7 - n"
    have "k < 8" "7 - k = n" using n by (simp_all add: k_def)
    then have "(8 * j + k) div 8 = j" "(8 * j + k) mod 8 = k" by simp_all
    moreover have "8 * j + k < 8 * length a" using j \<open>k < 8\<close> by linarith
    ultimately show "bit (a ! j) n = bit (b ! j) n"
      using assms(2) [of "8 * j + k"] \<open>7 - k = n\<close> by (simp add: addr_bit_def)
  qed
qed (rule assms(1))

text \<open>
  Canonicalising an address keeps exactly the bits of its prefix and clears
  every bit behind it, for every prefix length from 0 to the full address; so two addresses are
  canonicalised to the same key exactly when they agree on the prefix.
\<close>

theorem prefix_canonical:
  assumes "length a = addr_len fam" and "length b = addr_len fam" and "unat p \<le> 8 * addr_len fam"
  shows "length (canonicalize_prefix fam a p) = addr_len fam \<and>
    (\<forall>i < 8 * addr_len fam. addr_bit (canonicalize_prefix fam a p) i = (i < unat p \<and> addr_bit a i)) \<and>
    (canonicalize_prefix fam a p = canonicalize_prefix fam b p \<longleftrightarrow>
      (\<forall>i < unat p. addr_bit a i = addr_bit b i))"
proof -
  have bits: "\<forall>i < 8 * addr_len fam. addr_bit (canonicalize_prefix fam x p) i = (i < unat p \<and> addr_bit x i)"
    if "length x = addr_len fam" for x
    using canonicalize_bits [OF that assms(3)] by blast
  have "canonicalize_prefix fam a p = canonicalize_prefix fam b p"
    if agree: "\<forall>i < unat p. addr_bit a i = addr_bit b i"
  proof (rule addr_eqI)
    show "length (canonicalize_prefix fam a p) = length (canonicalize_prefix fam b p)"
      using assms by (simp add: length_canonicalize)
    fix i assume "i < 8 * length (canonicalize_prefix fam a p)"
    then show "addr_bit (canonicalize_prefix fam a p) i = addr_bit (canonicalize_prefix fam b p) i"
      using bits [OF assms(1)] bits [OF assms(2)] agree assms(1) by (auto simp: length_canonicalize)
  qed
  moreover have "\<forall>i < unat p. addr_bit a i = addr_bit b i"
    if "canonicalize_prefix fam a p = canonicalize_prefix fam b p"
  proof (intro allI impI)
    fix i assume i: "i < unat p"
    with assms(3) have "i < 8 * addr_len fam" by linarith
    with i that bits [OF assms(1)] bits [OF assms(2)] show "addr_bit a i = addr_bit b i" by metis
  qed
  ultimately show ?thesis
    using bits [OF assms(1)] length_canonicalize [OF assms(1)] by blast
qed

theorem prefix_canonical_witness:
  "canonicalize_prefix AF_INET [10, 1, 0x7f, 9] 17 = [10, 1, 0, 0] \<and>
   canonicalize_prefix AF_INET [10, 1, 0x7f, 9] 17 = canonicalize_prefix AF_INET [10, 1, 0x33, 1] 17"
proof -
  have "canonicalize_prefix AF_INET [10, 1, 0x7f, 9] 17 = [10, 1, 0, 0]"
    "canonicalize_prefix AF_INET [10, 1, 0x33, 1] 17 = [10, 1, 0, 0]" by code_simp+
  moreover have "(\<forall>i < unat (17 :: u32). addr_bit [10, 1, 0x7f, 9] i = addr_bit [10, 1, 0x33, 1] i)"
    using prefix_canonical [of "[10, 1, 0x7f, 9]" AF_INET "[10, 1, 0x33, 1]" 17] calculation
    by (simp add: addr_len_def)
  ultimately show ?thesis by simp
qed

lemma canonical_canonicalize:
  assumes "length a = addr_len fam" and "unat p \<le> 8 * addr_len fam"
  shows "canonical (canonicalize_prefix fam a p) (unat p)"
  using canonicalize_bits [OF assms] assms(1) by (auto simp: canonical_def length_canonicalize)

lemma canonicalize_id:
  assumes "length a = addr_len fam" and "unat p \<le> 8 * addr_len fam" and "canonical a (unat p)"
  shows "canonicalize_prefix fam a p = a"
proof (rule addr_eqI)
  show "length (canonicalize_prefix fam a p) = length a" using assms(1) by (simp add: length_canonicalize)
  fix i assume "i < 8 * length (canonicalize_prefix fam a p)"
  with canonicalize_bits [OF assms(1,2), of i] assms(1,3)
  show "addr_bit (canonicalize_prefix fam a p) i = addr_bit a i"
    by (auto simp: length_canonicalize canonical_def not_less)
qed

end
