(* ===== verification/Packet_Parser.thy ===== *)
theory Packet_Parser
  imports Bpf_Types
begin

text \<open>
  The frame parser \<^verbatim>\<open>ca_parse_flow\<close> of \<^verbatim>\<open>src/client-access-bpf.c\<close>.

  The linear area from \<^verbatim>\<open>data\<close> to \<^verbatim>\<open>data_end\<close> is a byte list, a pointer into it an
  offset, and the test \<^verbatim>\<open>p + n > data_end\<close> compares an offset with the length of the
  list.  Offsets and protocol lengths are natural numbers: they are sums of a few fields of at
  most 16 bits in 64-bit arithmetic, and each subtraction is behind the guard that keeps it
  from wrapping.  The result is \<open>None\<close> exactly when a read leaves the linear area.  Each
  early return carries the flow key as far as it has been filled.
\<close>

section \<open>The parser\<close>

abbreviation (input) ETH_P_IP :: u16 where "ETH_P_IP \<equiv> 0x0800"
abbreviation (input) ETH_P_IPV6 :: u16 where "ETH_P_IPV6 \<equiv> 0x86DD"
abbreviation (input) ETH_P_8021Q :: u16 where "ETH_P_8021Q \<equiv> 0x8100"
abbreviation (input) ETH_P_8021AD :: u16 where "ETH_P_8021AD \<equiv> 0x88A8"
abbreviation (input) IPPROTO_TCP :: u8 where "IPPROTO_TCP \<equiv> 6"
abbreviation (input) IPPROTO_UDP :: u8 where "IPPROTO_UDP \<equiv> 17"
abbreviation (input) CA_IPV4_FRAGMENT_MASK :: u16 where "CA_IPV4_FRAGMENT_MASK \<equiv> 0x3fff"

datatype ca_parse_result = CA_PARSE_OK | CA_PARSE_NO_ETHERNET | CA_PARSE_UNSUPPORTED

definition ca_is_ipv6_extension :: "u8 \<Rightarrow> bool" where
  "ca_is_ipv6_extension nexthdr \<longleftrightarrow>
     nexthdr = 0 \<or> nexthdr = 43 \<or> nexthdr = 44 \<or> nexthdr = 50 \<or> nexthdr = 51 \<or> nexthdr = 60"

text \<open>The unrolled VLAN loop: \<open>Inl ()\<close> is the early return with \<^verbatim>\<open>CA_PARSE_UNSUPPORTED\<close>.\<close>

primrec ca_parse_vlans :: "nat \<Rightarrow> u8 list \<Rightarrow> u16 \<Rightarrow> nat \<Rightarrow> (unit + u16 \<times> nat) option" where
  "ca_parse_vlans 0 d proto off = Some (Inr (proto, off))"
| "ca_parse_vlans (Suc n) d proto off =
     (if proto \<noteq> bpf_htons ETH_P_8021Q \<and> proto \<noteq> bpf_htons ETH_P_8021AD
      then Some (Inr (proto, off))
      else if off + 4 > length d then Some (Inl ())
      else do {
        encapsulated_proto \<leftarrow> ld16 d (off + 2);
        ca_parse_vlans n d encapsulated_proto (off + 4)
      })"

text \<open>
  The network header.  \<open>Inl key\<close> is the early return, \<open>Inr (key, l4_len, offset)\<close>
  continues with the transport header.
\<close>

definition ca_parse_ipv4 ::
    "u8 list \<Rightarrow> u32 \<Rightarrow> ca_flow_key \<Rightarrow> nat \<Rightarrow> (ca_flow_key + ca_flow_key \<times> nat \<times> nat) option" where
  "ca_parse_ipv4 d packet_len key off =
     (if off + 20 > length d then Some (Inl key) else do {
        version_ihl \<leftarrow> rd8 d off;
        let ihl = unat (version_ihl AND 15) * 4;
        if drop_bit 4 version_ihl \<noteq> 4 then Some (Inl key)
        else if ihl < 20 \<or> off + ihl > length d then Some (Inl key) else do {
          len_hi \<leftarrow> rd8 d (off + 2);
          len_lo \<leftarrow> rd8 d (off + 3);
          let total_len = be16_nat len_hi len_lo;
          if total_len < ihl \<or> off + total_len > unat packet_len then Some (Inl key) else do {
            protocol \<leftarrow> rd8 d (off + 9);
            saddr \<leftarrow> rd_bytes d (off + 12) 4;
            daddr \<leftarrow> rd_bytes d (off + 16) 4;
            frag_off \<leftarrow> ld16 d (off + 6);
            let key' = key\<lparr>fk_ip_proto := protocol,
                           fk_addr := mem_write (mem_write (fk_addr key) 0 saddr) 4 daddr\<rparr>;
            if frag_off AND bpf_htons CA_IPV4_FRAGMENT_MASK \<noteq> 0 then Some (Inl key')
            else Some (Inr (key', total_len - ihl, off + ihl))
          }
        }
      })"

definition ca_parse_ipv6 ::
    "u8 list \<Rightarrow> u32 \<Rightarrow> ca_flow_key \<Rightarrow> nat \<Rightarrow> (ca_flow_key + ca_flow_key \<times> nat \<times> nat) option" where
  "ca_parse_ipv6 d packet_len key off =
     (if off + 40 > length d then Some (Inl key) else do {
        version_class \<leftarrow> rd8 d off;
        if drop_bit 4 version_class \<noteq> 6 then Some (Inl key) else do {
          len_hi \<leftarrow> rd8 d (off + 4);
          len_lo \<leftarrow> rd8 d (off + 5);
          let payload_len = be16_nat len_hi len_lo;
          if payload_len = 0 \<or> off + 40 + payload_len > unat packet_len then Some (Inl key) else do {
            nexthdr \<leftarrow> rd8 d (off + 6);
            saddr \<leftarrow> rd_bytes d (off + 8) 16;
            daddr \<leftarrow> rd_bytes d (off + 24) 16;
            let key' = key\<lparr>fk_ip_proto := nexthdr,
                           fk_addr := mem_write (mem_write (fk_addr key) 0 saddr) 16 daddr\<rparr>;
            if ca_is_ipv6_extension nexthdr then Some (Inl key')
            else Some (Inr (key', payload_len, off + 40))
          }
        }
      })"

definition ca_parse_l4 ::
    "u8 list \<Rightarrow> ca_flow_key \<Rightarrow> nat \<Rightarrow> nat \<Rightarrow> (ca_flow_key + ca_flow_key \<times> nat) option" where
  "ca_parse_l4 d key l4_len off =
     (if fk_ip_proto key = IPPROTO_TCP then
        if l4_len < 20 \<or> off + 20 > length d then Some (Inl key) else do {
          doff_byte \<leftarrow> rd8 d (off + 12);
          let doff = unat (drop_bit 4 doff_byte);
          let tcp_len = doff * 4;
          if doff < 5 then Some (Inl key)
          else if tcp_len > l4_len \<or> off + tcp_len > length d then Some (Inl key) else do {
            source \<leftarrow> ld16 d off;
            dest \<leftarrow> ld16 d (off + 2);
            Some (Inr (key\<lparr>fk_src_port := source, fk_dst_port := dest\<rparr>, off + tcp_len))
          }
        }
      else if fk_ip_proto key = IPPROTO_UDP then
        if l4_len < 8 \<or> off + 8 > length d then Some (Inl key) else do {
          len_field \<leftarrow> ld16 d (off + 4);
          let udp_len = unat (bpf_ntohs len_field);
          if udp_len < 8 \<or> udp_len > l4_len then Some (Inl key) else do {
            source \<leftarrow> ld16 d off;
            dest \<leftarrow> ld16 d (off + 2);
            Some (Inr (key\<lparr>fk_src_port := source, fk_dst_port := dest\<rparr>, off + 8))
          }
        }
      else Some (Inr (key, off)))"

definition ca_parse_flow ::
    "u8 list \<Rightarrow> u32 \<Rightarrow> ca_flow_key \<Rightarrow> ca_mac_key \<Rightarrow> u32
     \<Rightarrow> (ca_parse_result \<times> ca_flow_key \<times> ca_mac_key \<times> u32) option" where
  "ca_parse_flow d packet_len key mac examined =
     (if 14 > length d then Some (CA_PARSE_NO_ETHERNET, key, mac, examined) else do {
        h_source \<leftarrow> rd_bytes d 6 6;
        h_proto \<leftarrow> ld16 d 12;
        let mac' = mac\<lparr>mac_addr := h_source\<rparr>;
        tags \<leftarrow> ca_parse_vlans 2 d h_proto 14;
        case tags of
          Inl _ \<Rightarrow> Some (CA_PARSE_UNSUPPORTED, key, mac', examined)
        | Inr (proto, off) \<Rightarrow> do {
            let key1 = key\<lparr>fk_eth_proto := proto\<rparr>;
            net \<leftarrow> (if proto = bpf_htons ETH_P_IP then ca_parse_ipv4 d packet_len key1 off
                    else if proto = bpf_htons ETH_P_IPV6 then ca_parse_ipv6 d packet_len key1 off
                    else Some (Inl key1));
            case net of
              Inl key2 \<Rightarrow> Some (CA_PARSE_UNSUPPORTED, key2, mac', examined)
            | Inr (key2, l4_len, off2) \<Rightarrow> do {
                l4 \<leftarrow> ca_parse_l4 d key2 l4_len off2;
                case l4 of
                  Inl key3 \<Rightarrow> Some (CA_PARSE_UNSUPPORTED, key3, mac', examined)
                | Inr (key3, off3) \<Rightarrow>
                    Some (CA_PARSE_OK, key3, mac',
                          if off3 > 0xffffffff then 0xffffffff else of_nat off3)
              }
          }
      })"

section \<open>No read leaves the linear area\<close>

lemma ca_parse_vlans_defined: "defined (ca_parse_vlans n d proto off)"
  by (induction n arbitrary: proto off) auto

lemma ca_parse_ipv4_defined: "defined (ca_parse_ipv4 d packet_len key off)"
  by (simp add: ca_parse_ipv4_def Let_def)

lemma ca_parse_ipv6_defined: "defined (ca_parse_ipv6 d packet_len key off)"
  by (simp add: ca_parse_ipv6_def Let_def)

lemma ca_parse_l4_defined: "defined (ca_parse_l4 d key l4_len off)"
  by (simp add: ca_parse_l4_def Let_def)

lemmas parse_defined =
  ca_parse_vlans_defined ca_parse_ipv4_defined ca_parse_ipv6_defined ca_parse_l4_defined

lemma ca_parse_flow_defined: "defined (ca_parse_flow d packet_len key mac examined)"
  unfolding ca_parse_flow_def Let_def
  by (auto intro!: bind_defined parse_defined split: sum.split)

section \<open>What an accepted frame guarantees\<close>

lemma nibble_bound: "unat (b AND 15 :: u8) \<le> 15"
proof -
  have "b AND 15 \<le> (15 :: u8)" by (rule word_and_le1)
  then show ?thesis by (simp add: word_le_nat_alt)
qed

lemma high_nibble_bound: "unat (drop_bit 4 b :: u8) \<le> 15"
proof -
  have "unat b < 256" using unsigned_less [of b] by simp
  moreover have "unat (drop_bit 4 b) = unat b div 16"
    by (simp add: drop_bit_eq_div unat_div)
  ultimately show ?thesis by linarith
qed

lemma ca_parse_vlans_InrD:
  "ca_parse_vlans n d proto off = Some (Inr (proto', off')) \<Longrightarrow>
     off \<le> off' \<and> off' \<le> off + 4 * n \<and> (off \<le> length d \<longrightarrow> off' \<le> length d)"
  by (induction n arbitrary: proto off) (fastforce split: if_splits)+

lemma ca_parse_ipv4_InrD:
  assumes "ca_parse_ipv4 d packet_len key off = Some (Inr (key', l4_len, off'))"
  shows "off + 20 \<le> off'" and "off' \<le> off + 60" and "off' \<le> length d"
    and "off' + l4_len \<le> unat packet_len"
    and "fk_eth_proto key' = fk_eth_proto key"
    and "length (fk_addr key) = 32 \<Longrightarrow> length (fk_addr key') = 32"
  using assms nibble_bound [of "d ! off"]
  by (auto simp: ca_parse_ipv4_def Let_def split: if_splits)

lemma ca_parse_ipv6_InrD:
  assumes "ca_parse_ipv6 d packet_len key off = Some (Inr (key', l4_len, off'))"
  shows "off' = off + 40" and "off' \<le> length d" and "off' + l4_len \<le> unat packet_len"
    and "\<not> ca_is_ipv6_extension (fk_ip_proto key')"
    and "fk_eth_proto key' = fk_eth_proto key"
    and "length (fk_addr key) = 32 \<Longrightarrow> length (fk_addr key') = 32"
  using assms by (auto simp: ca_parse_ipv6_def Let_def split: if_splits)

lemma ca_parse_l4_InrD:
  assumes "ca_parse_l4 d key l4_len off = Some (Inr (key', off'))" and "off \<le> length d"
  shows "off \<le> off'" and "off' \<le> off + 60" and "off' \<le> off + l4_len" and "off' \<le> length d"
    and "fk_eth_proto key' = fk_eth_proto key" and "fk_ip_proto key' = fk_ip_proto key"
    and "fk_addr key' = fk_addr key"
  using assms high_nibble_bound [of "d ! (off + 12)"]
  by (auto simp: ca_parse_l4_def Let_def split: if_splits)

lemma ca_parse_flow_OkE:
  assumes "ca_parse_flow d packet_len key mac examined = Some (CA_PARSE_OK, key', mac', examined')"
  obtains proto off key2 l4_len off2 off3 where
    "14 \<le> length d" and "mac' = mac\<lparr>mac_addr := take 6 (drop 6 d)\<rparr>"
    and "ca_parse_vlans 2 d (le16 (d ! 12) (d ! 13)) 14 = Some (Inr (proto, off))"
    and "proto = bpf_htons ETH_P_IP \<and>
           ca_parse_ipv4 d packet_len (key\<lparr>fk_eth_proto := proto\<rparr>) off = Some (Inr (key2, l4_len, off2)) \<or>
         proto = bpf_htons ETH_P_IPV6 \<and>
           ca_parse_ipv6 d packet_len (key\<lparr>fk_eth_proto := proto\<rparr>) off = Some (Inr (key2, l4_len, off2))"
    and "ca_parse_l4 d key2 l4_len off2 = Some (Inr (key', off3))"
    and "examined' = (if off3 > 0xffffffff then 0xffffffff else of_nat off3)"
  using assms unfolding ca_parse_flow_def Let_def
  by (auto split: if_split_asm sum.split_asm elim!: bind_SomeE)

text \<open>
  C4 parse_memory_safe: whatever the bytes of the frame, no read of the parser leaves the
  linear area between \<^verbatim>\<open>data\<close> and \<^verbatim>\<open>data_end\<close>.
\<close>

theorem parse_memory_safe: "defined (ca_parse_flow d packet_len key mac examined)"
  by (rule ca_parse_flow_defined)

text \<open>
  An accepted frame has the source address of its Ethernet header as the
  subject key, an IPv4 or IPv6 protocol, a full 32-byte address union, and a number of examined
  bytes that covers headers only: it lies in the linear area, in the packet, and between 34
  and 142.
\<close>

theorem parse_ok_bounds:
  assumes "ca_parse_flow d packet_len zero_flow_key mac examined = Some (CA_PARSE_OK, key, mac', examined')"
  shows "mac_addr mac' = take 6 (drop 6 d) \<and>
         (fk_eth_proto key = bpf_htons ETH_P_IP \<or> fk_eth_proto key = bpf_htons ETH_P_IPV6) \<and>
         length (fk_addr key) = 32 \<and>
         34 \<le> unat examined' \<and> unat examined' \<le> 142 \<and>
         unat examined' \<le> length d \<and> unat examined' \<le> unat packet_len"
  using assms
proof (rule ca_parse_flow_OkE)
  fix proto off key2 l4_len off2 off3
  assume len: "14 \<le> length d" and mac: "mac' = mac\<lparr>mac_addr := take 6 (drop 6 d)\<rparr>"
    and vlans: "ca_parse_vlans 2 d (le16 (d ! 12) (d ! 13)) 14 = Some (Inr (proto, off))"
    and net: "proto = bpf_htons ETH_P_IP \<and>
           ca_parse_ipv4 d packet_len (zero_flow_key\<lparr>fk_eth_proto := proto\<rparr>) off = Some (Inr (key2, l4_len, off2)) \<or>
         proto = bpf_htons ETH_P_IPV6 \<and>
           ca_parse_ipv6 d packet_len (zero_flow_key\<lparr>fk_eth_proto := proto\<rparr>) off = Some (Inr (key2, l4_len, off2))"
    and l4: "ca_parse_l4 d key2 l4_len off2 = Some (Inr (key, off3))"
    and ex: "examined' = (if off3 > 0xffffffff then 0xffffffff else of_nat off3)"
  have v: "14 \<le> off" "off \<le> 22"
    using ca_parse_vlans_InrD [OF vlans] by simp_all
  have n: "off + 20 \<le> off2" "off2 \<le> off + 60" "off2 \<le> length d" "off2 + l4_len \<le> unat packet_len"
      "fk_eth_proto key2 = proto" "length (fk_addr key2) = 32"
    using net by (auto dest: ca_parse_ipv4_InrD ca_parse_ipv6_InrD simp: zero_flow_key_def)
  note t = ca_parse_l4_InrD [OF l4 n(3)]
  have "unat examined' = off3"
    using v n t ex by simp
  then show ?thesis
    using v n t mac net by auto
qed

end
