(* ===== verification/Datapath_State.thy ===== *)
theory Datapath_State
  imports Packet_Parser
begin

text \<open>
  The building blocks of the datapath in \<^verbatim>\<open>src/client-access-bpf.c\<close>: statistics, the
  lookups that go to the active slot of the double-buffered maps, the policy verdict and the
  packet mark.

  The five slot lookups share one interface, the locale \<open>slot_lookup\<close>: a lookup reads the
  maps of the active slot and nothing else.  It is interpreted for each of them, and gives the
  non-interference of the inactive slot, on which atomic publication of a snapshot rests.
\<close>

section \<open>Statistics\<close>

definition ca_stat_add :: "u32 \<Rightarrow> u64 \<Rightarrow> ca_maps \<Rightarrow> ca_maps" where
  "ca_stat_add sid amount m =
     (case m_stats m sid of
        None \<Rightarrow> m
      | Some v \<Rightarrow> m\<lparr>m_stats := (m_stats m)(sid \<mapsto> v + amount)\<rparr>)"

definition ca_stat_inc :: "u32 \<Rightarrow> ca_maps \<Rightarrow> ca_maps" where
  "ca_stat_inc sid m = ca_stat_add sid 1 m"

lemma ca_stat_add_frame [simp, frame_simps]:
  "m_config (ca_stat_add i n m) = m_config m"
  "m_mark_schema (ca_stat_add i n m) = m_mark_schema m"
  "m_subject_a (ca_stat_add i n m) = m_subject_a m" "m_subject_b (ca_stat_add i n m) = m_subject_b m"
  "m_policy_a (ca_stat_add i n m) = m_policy_a m" "m_policy_b (ca_stat_add i n m) = m_policy_b m"
  "m_port_a (ca_stat_add i n m) = m_port_a m" "m_port_b (ca_stat_add i n m) = m_port_b m"
  "m_ipv4_a (ca_stat_add i n m) = m_ipv4_a m" "m_ipv4_b (ca_stat_add i n m) = m_ipv4_b m"
  "m_ipv6_a (ca_stat_add i n m) = m_ipv6_a m" "m_ipv6_b (ca_stat_add i n m) = m_ipv6_b m"
  "m_flows (ca_stat_add i n m) = m_flows m" "m_global_rate (ca_stat_add i n m) = m_global_rate m"
  "m_subject_rates (ca_stat_add i n m) = m_subject_rates m" "m_runtime (ca_stat_add i n m) = m_runtime m"
  by (simp_all add: ca_stat_add_def split: option.split)

lemma ca_stat_inc_frame [simp, frame_simps]:
  "m_config (ca_stat_inc i m) = m_config m"
  "m_mark_schema (ca_stat_inc i m) = m_mark_schema m"
  "m_subject_a (ca_stat_inc i m) = m_subject_a m" "m_subject_b (ca_stat_inc i m) = m_subject_b m"
  "m_policy_a (ca_stat_inc i m) = m_policy_a m" "m_policy_b (ca_stat_inc i m) = m_policy_b m"
  "m_port_a (ca_stat_inc i m) = m_port_a m" "m_port_b (ca_stat_inc i m) = m_port_b m"
  "m_ipv4_a (ca_stat_inc i m) = m_ipv4_a m" "m_ipv4_b (ca_stat_inc i m) = m_ipv4_b m"
  "m_ipv6_a (ca_stat_inc i m) = m_ipv6_a m" "m_ipv6_b (ca_stat_inc i m) = m_ipv6_b m"
  "m_flows (ca_stat_inc i m) = m_flows m" "m_global_rate (ca_stat_inc i m) = m_global_rate m"
  "m_subject_rates (ca_stat_inc i m) = m_subject_rates m" "m_runtime (ca_stat_inc i m) = m_runtime m"
  by (simp_all add: ca_stat_inc_def)

text \<open>Reading a counter: a missing slot of the array counts nothing.\<close>

definition stat :: "ca_maps \<Rightarrow> u32 \<Rightarrow> u64" where
  "stat m i = (case m_stats m i of None \<Rightarrow> 0 | Some v \<Rightarrow> v)"

definition stats_ready :: "ca_maps \<Rightarrow> bool" where
  "stats_ready m \<longleftrightarrow> (\<forall>i < 22. m_stats m i \<noteq> None)"

lemma stat_cong: "m_stats m = m_stats m' \<Longrightarrow> stat m i = stat m' i"
  by (simp add: stat_def)

lemma stats_ready_cong: "m_stats m = m_stats m' \<Longrightarrow> stats_ready m = stats_ready m'"
  by (simp add: stats_ready_def)

lemma stats_ready_add [simp]: "stats_ready (ca_stat_add i n m) = stats_ready m"
  by (auto simp: stats_ready_def ca_stat_add_def split: option.split)

lemma stats_ready_inc [simp]: "stats_ready (ca_stat_inc i m) = stats_ready m"
  by (simp add: ca_stat_inc_def)

lemma stat_add: "stats_ready m \<Longrightarrow> i < 22 \<Longrightarrow> stat (ca_stat_add i n m) j = stat m j + (if i = j then n else 0)"
  by (auto simp: stat_def stats_ready_def ca_stat_add_def split: option.splits)

lemma stat_inc: "stats_ready m \<Longrightarrow> i < 22 \<Longrightarrow> stat (ca_stat_inc i m) j = stat m j + (if i = j then 1 else 0)"
  by (simp add: ca_stat_inc_def stat_add)

section \<open>Lookups in the active slot\<close>

definition ca_subject_lookup :: "ca_config \<Rightarrow> ca_maps \<Rightarrow> ca_mac_key \<Rightarrow> u32 option" where
  "ca_subject_lookup config m key =
     (if cfg_active_slot config \<noteq> 0 then m_subject_b m key else m_subject_a m key)"

definition ca_policy_lookup_map :: "ca_config \<Rightarrow> ca_maps \<Rightarrow> ca_policy_key \<Rightarrow> u8 option" where
  "ca_policy_lookup_map config m key =
     (if cfg_active_slot config \<noteq> 0 then m_policy_b m key else m_policy_a m key)"

definition ca_port_lookup :: "ca_config \<Rightarrow> ca_maps \<Rightarrow> ca_port_key \<Rightarrow> ca_class_hint option" where
  "ca_port_lookup config m key =
     (if cfg_active_slot config \<noteq> 0 then m_port_b m key else m_port_a m key)"

definition ca_ipv4_lookup :: "kernel \<Rightarrow> ca_config \<Rightarrow> ca_maps \<Rightarrow> ca_ipv4_lpm_key \<Rightarrow> ca_class_hint option" where
  "ca_ipv4_lookup K config m key =
     (if cfg_active_slot config \<noteq> 0 then kn_ipv4_lookup K (m_ipv4_b m) key
      else kn_ipv4_lookup K (m_ipv4_a m) key)"

definition ca_ipv6_lookup :: "kernel \<Rightarrow> ca_config \<Rightarrow> ca_maps \<Rightarrow> ca_ipv6_lpm_key \<Rightarrow> ca_class_hint option" where
  "ca_ipv6_lookup K config m key =
     (if cfg_active_slot config \<noteq> 0 then kn_ipv6_lookup K (m_ipv6_b m) key
      else kn_ipv6_lookup K (m_ipv6_a m) key)"

text \<open>
  The contract of a slot lookup: slot 0 is the \<open>a\<close> map, any other slot the \<open>b\<close> map.
\<close>

locale slot_lookup =
  fixes look :: "ca_config \<Rightarrow> ca_maps \<Rightarrow> 'k \<Rightarrow> 'v option"
    and slot_a :: "ca_maps \<Rightarrow> 'm"
    and slot_b :: "ca_maps \<Rightarrow> 'm"
    and get :: "'m \<Rightarrow> 'k \<Rightarrow> 'v option"
  assumes look_a: "cfg_active_slot c = 0 \<Longrightarrow> look c m k = get (slot_a m) k"
    and look_b: "cfg_active_slot c \<noteq> 0 \<Longrightarrow> look c m k = get (slot_b m) k"
begin

lemma look_active: "look c m k = get (if cfg_active_slot c = 0 then slot_a m else slot_b m) k"
  using look_a look_b by simp

lemma look_cong:
  assumes "if cfg_active_slot c = 0 then slot_a m = slot_a m' else slot_b m = slot_b m'"
  shows "look c m = look c m'"
  using assms by (auto simp: look_active split: if_splits)

end

interpretation subject: slot_lookup ca_subject_lookup m_subject_a m_subject_b "\<lambda>m. m"
  by unfold_locales (auto simp: ca_subject_lookup_def)

interpretation policy: slot_lookup ca_policy_lookup_map m_policy_a m_policy_b "\<lambda>m. m"
  by unfold_locales (auto simp: ca_policy_lookup_map_def)

interpretation port: slot_lookup ca_port_lookup m_port_a m_port_b "\<lambda>m. m"
  by unfold_locales (auto simp: ca_port_lookup_def)

interpretation ipv4: slot_lookup "ca_ipv4_lookup K" m_ipv4_a m_ipv4_b "kn_ipv4_lookup K" for K
  by unfold_locales (auto simp: ca_ipv4_lookup_def)

interpretation ipv6: slot_lookup "ca_ipv6_lookup K" m_ipv6_a m_ipv6_b "kn_ipv6_lookup K" for K
  by unfold_locales (auto simp: ca_ipv6_lookup_def)

text \<open>Two states that agree on the snapshot in the active slot of a configuration.\<close>

definition same_active :: "ca_config \<Rightarrow> ca_maps \<Rightarrow> ca_maps \<Rightarrow> bool" where
  "same_active c m m' \<longleftrightarrow>
     (if cfg_active_slot c = 0
      then m_subject_a m = m_subject_a m' \<and> m_policy_a m = m_policy_a m' \<and> m_port_a m = m_port_a m' \<and>
           m_ipv4_a m = m_ipv4_a m' \<and> m_ipv6_a m = m_ipv6_a m'
      else m_subject_b m = m_subject_b m' \<and> m_policy_b m = m_policy_b m' \<and> m_port_b m = m_port_b m' \<and>
           m_ipv4_b m = m_ipv4_b m' \<and> m_ipv6_b m = m_ipv6_b m')"

lemma same_active_refl [simp]: "same_active c m m"
  by (simp add: same_active_def)

lemma same_active_sym: "same_active c m m' \<Longrightarrow> same_active c m' m"
  by (auto simp: same_active_def split: if_splits)

lemma same_active_trans: "same_active c m m' \<Longrightarrow> same_active c m' m'' \<Longrightarrow> same_active c m m''"
  by (auto simp: same_active_def split: if_splits)

lemma same_active_lookups:
  assumes "same_active c m m'"
  shows "ca_subject_lookup c m = ca_subject_lookup c m'"
    and "ca_policy_lookup_map c m = ca_policy_lookup_map c m'"
    and "ca_port_lookup c m = ca_port_lookup c m'"
    and "ca_ipv4_lookup K c m = ca_ipv4_lookup K c m'"
    and "ca_ipv6_lookup K c m = ca_ipv6_lookup K c m'"
  using assms
  by (auto simp: same_active_def split: if_splits
      intro!: subject.look_cong policy.look_cong port.look_cong ipv4.look_cong ipv6.look_cong)

section \<open>The policy verdict\<close>

definition ca_policy_verdict :: "ca_config \<Rightarrow> ca_maps \<Rightarrow> u32 \<Rightarrow> u16 \<Rightarrow> u8" where
  "ca_policy_verdict config m subject_id class_id =
     (let key = \<lparr>pk_subject_id = subject_id, pk_class_id = class_id, pk_reserved = 0\<rparr> in
      case ca_policy_lookup_map config m key of
        Some verdict \<Rightarrow> verdict
      | None \<Rightarrow>
          (case ca_policy_lookup_map config m (key\<lparr>pk_class_id := CA_CLASS_DEFAULT\<rparr>) of
             Some verdict \<Rightarrow> verdict
           | None \<Rightarrow> CA_VERDICT_ALLOW))"

lemma same_active_verdict:
  assumes "same_active c m m'"
  shows "ca_policy_verdict c m s k = ca_policy_verdict c m' s k"
  unfolding ca_policy_verdict_def same_active_lookups(2) [OF assms] ..

section \<open>Packets and marks\<close>

record sk_buff =
  skb_data :: "u8 list"
  skb_len :: u32
  skb_mark :: u32

abbreviation (input) TC_ACT_UNSPEC :: int where "TC_ACT_UNSPEC \<equiv> -1"

definition ca_emit_app_verdict :: "sk_buff \<Rightarrow> u8 \<Rightarrow> ca_maps \<Rightarrow> int \<times> sk_buff \<times> ca_maps" where
  "ca_emit_app_verdict skb verdict m =
     (let mark = (skb_mark skb AND NOT CA_APP_MARK_MASK) OR CA_APP_MARK_VALID in
      if verdict = CA_VERDICT_DENY
      then (TC_ACT_UNSPEC, skb\<lparr>skb_mark := mark OR CA_APP_MARK_DENY\<rparr>,
            ca_stat_inc CA_STAT_PACKET_APP_DENY_VERDICTS m)
      else (TC_ACT_UNSPEC, skb\<lparr>skb_mark := mark\<rparr>,
            ca_stat_inc CA_STAT_PACKET_APP_ALLOW_VERDICTS m))"

text \<open>The mark a consumer of the two reserved bits reads.\<close>

definition mark_verdict :: "u32 \<Rightarrow> u8 option" where
  "mark_verdict mark =
     (if mark AND CA_APP_MARK_VALID = 0 then None
      else Some (if mark AND CA_APP_MARK_DENY = 0 then CA_VERDICT_ALLOW else CA_VERDICT_DENY))"

definition foreign_bits :: "u32 \<Rightarrow> u32" where
  "foreign_bits mark = mark AND NOT CA_APP_MARK_MASK"

text \<open>A policy value other than \<^verbatim>\<open>CA_VERDICT_DENY\<close> allows.\<close>

definition norm_verdict :: "u8 \<Rightarrow> u8" where
  "norm_verdict v = (if v = CA_VERDICT_DENY then CA_VERDICT_DENY else CA_VERDICT_ALLOW)"

lemma mark_bits_generic:
  fixes mk v d :: u32
  assumes "v AND d = 0"
  shows "(mk AND NOT (d OR v) OR v) AND v = v"
    and "(mk AND NOT (d OR v) OR v) AND d = 0"
    and "((mk AND NOT (d OR v) OR v) OR d) AND v = v"
    and "((mk AND NOT (d OR v) OR v) OR d) AND d = d"
    and "((mk AND NOT (d OR v) OR v) OR d) AND NOT (d OR v) = mk AND NOT (d OR v)"
    and "(mk AND NOT (d OR v) OR v) AND NOT (d OR v) = mk AND NOT (d OR v)"
    and "(mk AND NOT (d OR v)) AND v = 0"
    and "(mk AND NOT (d OR v)) AND NOT (d OR v) = mk AND NOT (d OR v)"
proof -
  have "\<not> (bit v n \<and> bit d n)" for n
    using arg_cong [OF assms, of "\<lambda>w. bit w n"] by (simp add: bit_simps)
  then show "(mk AND NOT (d OR v) OR v) AND v = v"
    and "(mk AND NOT (d OR v) OR v) AND d = 0"
    and "((mk AND NOT (d OR v) OR v) OR d) AND v = v"
    and "((mk AND NOT (d OR v) OR v) OR d) AND d = d"
    and "((mk AND NOT (d OR v) OR v) OR d) AND NOT (d OR v) = mk AND NOT (d OR v)"
    and "(mk AND NOT (d OR v) OR v) AND NOT (d OR v) = mk AND NOT (d OR v)"
    and "(mk AND NOT (d OR v)) AND v = 0"
    and "(mk AND NOT (d OR v)) AND NOT (d OR v) = mk AND NOT (d OR v)"
    by (auto intro!: bit_word_eqI simp: bit_simps)
qed

lemma mark_flags_disjoint: "CA_APP_MARK_VALID AND CA_APP_MARK_DENY = 0"
  by simp

lemmas mark_bits = mark_bits_generic [OF mark_flags_disjoint, folded CA_APP_MARK_MASK_def]

lemma emit_mark_verdict [simp]:
  "mark_verdict (skb_mark (fst (snd (ca_emit_app_verdict skb v m)))) = Some (norm_verdict v)"
  by (simp add: ca_emit_app_verdict_def Let_def mark_verdict_def norm_verdict_def mark_bits)

lemma emit_foreign_bits [simp]:
  "foreign_bits (skb_mark (fst (snd (ca_emit_app_verdict skb v m)))) = foreign_bits (skb_mark skb)"
  by (simp add: ca_emit_app_verdict_def Let_def foreign_bits_def mark_bits)

lemma cleared_mark [simp]:
  "mark_verdict (mk AND NOT CA_APP_MARK_MASK) = None"
  "foreign_bits (mk AND NOT CA_APP_MARK_MASK) = foreign_bits mk"
  by (simp_all add: mark_verdict_def foreign_bits_def mark_bits)

lemma emit_action [simp]: "fst (ca_emit_app_verdict skb v m) = TC_ACT_UNSPEC"
  by (simp add: ca_emit_app_verdict_def Let_def)

lemma emit_maps:
  "snd (snd (ca_emit_app_verdict skb v m)) =
     ca_stat_inc (if v = CA_VERDICT_DENY then CA_STAT_PACKET_APP_DENY_VERDICTS
                  else CA_STAT_PACKET_APP_ALLOW_VERDICTS) m"
  by (simp add: ca_emit_app_verdict_def Let_def)

lemma emit_skb:
  "skb_data (fst (snd (ca_emit_app_verdict skb v m))) = skb_data skb"
  "skb_len (fst (snd (ca_emit_app_verdict skb v m))) = skb_len skb"
  by (simp_all add: ca_emit_app_verdict_def Let_def)

end
