(* ===== verification/Classifier.thy ===== *)
theory Classifier
  imports Datapath_State
begin

text \<open>
  The classifier of \<^verbatim>\<open>src/client-access-bpf.c\<close>: \<^verbatim>\<open>ca_merge_hint\<close> and
  \<^verbatim>\<open>ca_classify\<close>.  Its specification is a semilattice of evidence: nothing, a category,
  an exact class inside a category, and conflict on top.  Merging a hint is the join with the
  evidence of that hint, so a classification is the least upper bound of the prefix evidence and
  the port evidence, in whichever order they are consulted.
\<close>

section \<open>The code\<close>

text \<open>
  \<open>Some\<close> or \<open>None\<close> is the candidate pointer; the integer is the return value, 0 or -1.
\<close>

definition ca_merge_hint :: "ca_class_hint \<Rightarrow> ca_class_hint option \<Rightarrow> int \<times> ca_class_hint" where
  "ca_merge_hint result candidate =
     (case candidate of
        None \<Rightarrow> (0, result)
      | Some c \<Rightarrow>
          if ch_kind c = CA_CLASS_KIND_NONE then (0, result)
          else if ch_kind c = CA_CLASS_KIND_UNCLASSIFIED then (-1, result)
          else if ch_kind result = CA_CLASS_KIND_NONE then (0, c)
          else if ch_kind result = ch_kind c \<and> ch_class_id result = ch_class_id c \<and>
                  ch_category_id result = ch_category_id c then (0, result)
          else if ch_kind result = CA_CLASS_KIND_EXACT \<and> ch_kind c = CA_CLASS_KIND_CATEGORY \<and>
                  ch_category_id result = ch_class_id c then (0, result)
          else if ch_kind result = CA_CLASS_KIND_CATEGORY \<and> ch_kind c = CA_CLASS_KIND_EXACT \<and>
                  ch_category_id c = ch_class_id result then (0, c)
          else (-1, result))"

text \<open>The prefix hint of the destination address: a longest-prefix lookup of the whole address.\<close>

definition ca_prefix_hint :: "kernel \<Rightarrow> ca_config \<Rightarrow> ca_maps \<Rightarrow> ca_flow_key \<Rightarrow> ca_class_hint option" where
  "ca_prefix_hint K config m key =
     (if fk_eth_proto key = bpf_htons ETH_P_IP
      then ca_ipv4_lookup K config m \<lparr>p4_prefixlen = 32, p4_addr = fk_v4_dst key\<rparr>
      else if fk_eth_proto key = bpf_htons ETH_P_IPV6
      then ca_ipv6_lookup K config m \<lparr>p6_prefixlen = 128, p6_addr = fk_v6_dst key\<rparr>
      else None)"

definition ca_port_hint :: "ca_config \<Rightarrow> ca_maps \<Rightarrow> ca_flow_key \<Rightarrow> ca_class_hint option" where
  "ca_port_hint config m key =
     (if fk_ip_proto key = IPPROTO_TCP \<or> fk_ip_proto key = IPPROTO_UDP
      then ca_port_lookup config m
             \<lparr>ptk_ip_proto = fk_ip_proto key, ptk_reserved = 0, ptk_dst_port = fk_dst_port key\<rparr>
      else None)"

text \<open>Returns the class, its kind and the state (the conflict counter may have moved).\<close>

definition ca_classify :: "kernel \<Rightarrow> ca_config \<Rightarrow> ca_flow_key \<Rightarrow> ca_maps \<Rightarrow> u16 \<times> u8 \<times> ca_maps" where
  "ca_classify K config key m =
     (let (conflict1, result1) = ca_merge_hint zero_hint (ca_prefix_hint K config m key);
          (conflict2, result2) = ca_merge_hint result1 (ca_port_hint config m key);
          conflict = (0 OR conflict1) OR conflict2
      in if conflict \<noteq> 0
         then (CA_CLASS_UNCLASSIFIED, CA_CLASS_KIND_NONE, ca_stat_inc CA_STAT_CLASSIFIER_CONFLICTS m)
         else if ch_kind result2 \<noteq> CA_CLASS_KIND_NONE
         then (ch_class_id result2, ch_kind result2, m)
         else (CA_CLASS_UNCLASSIFIED, CA_CLASS_KIND_NONE, m))"

section \<open>The evidence semilattice\<close>

datatype evidence = No_Evidence | Category u16 | Exact (exact_class: u16) (exact_category: u16) | Conflict

instantiation evidence :: "{semilattice_sup, order_bot, order_top}"
begin

fun less_eq_evidence :: "evidence \<Rightarrow> evidence \<Rightarrow> bool" where
  "less_eq_evidence No_Evidence y \<longleftrightarrow> True"
| "less_eq_evidence x Conflict \<longleftrightarrow> True"
| "less_eq_evidence (Category c) (Category d) \<longleftrightarrow> c = d"
| "less_eq_evidence (Category c) (Exact a d) \<longleftrightarrow> c = d"
| "less_eq_evidence (Exact a c) (Exact b d) \<longleftrightarrow> a = b \<and> c = d"
| "less_eq_evidence x y \<longleftrightarrow> False"

definition less_evidence :: "evidence \<Rightarrow> evidence \<Rightarrow> bool" where
  "less_evidence x y \<longleftrightarrow> x \<le> y \<and> \<not> y \<le> x"

definition bot_evidence :: evidence where "bot_evidence = No_Evidence"

definition top_evidence :: evidence where "top_evidence = Conflict"

definition sup_evidence :: "evidence \<Rightarrow> evidence \<Rightarrow> evidence" where
  "sup_evidence x y = (if x \<le> y then y else if y \<le> x then x else Conflict)"

instance
proof
  fix x y z :: evidence
  show "(x < y) = (x \<le> y \<and> \<not> y \<le> x)" by (simp add: less_evidence_def)
  show "x \<le> x" by (cases x) simp_all
  show "x \<le> y \<Longrightarrow> y \<le> z \<Longrightarrow> x \<le> z" by (cases x; cases y; cases z) simp_all
  show "x \<le> y \<Longrightarrow> y \<le> x \<Longrightarrow> x = y" by (cases x; cases y) simp_all
  show "x \<le> sup x y" and "y \<le> sup x y"
    by (cases x; cases y; simp add: sup_evidence_def)+
  show "y \<le> x \<Longrightarrow> z \<le> x \<Longrightarrow> sup y z \<le> x"
    by (cases x; cases y; cases z) (simp_all add: sup_evidence_def split: if_splits)
  show "bot \<le> x" by (simp add: bot_evidence_def)
  show "x \<le> top" by (cases x) (simp_all add: top_evidence_def)
qed

end

section \<open>Hints as evidence\<close>

definition hint_evidence :: "ca_class_hint \<Rightarrow> evidence" where
  "hint_evidence h =
     (if ch_kind h = CA_CLASS_KIND_NONE then No_Evidence
      else if ch_kind h = CA_CLASS_KIND_EXACT then Exact (ch_class_id h) (ch_category_id h)
      else if ch_kind h = CA_CLASS_KIND_CATEGORY then Category (ch_class_id h)
      else Conflict)"

definition opt_evidence :: "ca_class_hint option \<Rightarrow> evidence" where
  "opt_evidence h = (case h of None \<Rightarrow> No_Evidence | Some h \<Rightarrow> hint_evidence h)"

text \<open>
  The hints the controller publishes: one of the four kinds, a category being its own category.
\<close>

definition hint_wf :: "ca_class_hint \<Rightarrow> bool" where
  "hint_wf h \<longleftrightarrow> ch_kind h \<in> {CA_CLASS_KIND_NONE, CA_CLASS_KIND_EXACT, CA_CLASS_KIND_CATEGORY,
       CA_CLASS_KIND_UNCLASSIFIED} \<and>
     (ch_kind h = CA_CLASS_KIND_CATEGORY \<longrightarrow> ch_category_id h = ch_class_id h)"

definition opt_hint_wf :: "ca_class_hint option \<Rightarrow> bool" where
  "opt_hint_wf h = pred_option hint_wf h"

text \<open>What a merged pair of return value and result means.\<close>

definition merge_evidence :: "int \<times> ca_class_hint \<Rightarrow> evidence" where
  "merge_evidence r = (if fst r \<noteq> 0 then Conflict else hint_evidence (snd r))"

definition result_wf :: "ca_class_hint \<Rightarrow> bool" where
  "result_wf h \<longleftrightarrow> hint_wf h \<and> ch_kind h \<noteq> CA_CLASS_KIND_UNCLASSIFIED"

lemma result_wf_zero [simp]: "result_wf zero_hint"
  by (simp add: result_wf_def hint_wf_def zero_hint_def)

lemma hint_evidence_zero [simp]: "hint_evidence zero_hint = No_Evidence"
  by (simp add: hint_evidence_def zero_hint_def)

lemma sup_evidence_simps [simp]:
  "sup No_Evidence x = x" "sup x No_Evidence = x" "sup Conflict x = Conflict" "sup x Conflict = Conflict"
  by (cases x; simp add: sup_evidence_def)+

lemma merge_result_wf:
  "result_wf r \<Longrightarrow> opt_hint_wf c \<Longrightarrow> result_wf (snd (ca_merge_hint r c))"
  by (cases c) (auto simp: ca_merge_hint_def result_wf_def opt_hint_wf_def)

lemma sup_evidence_cases [simp]:
  "sup (Category c) (Category d) = (if c = d then Category c else Conflict)"
  "sup (Category c) (Exact a d) = (if c = d then Exact a d else Conflict)"
  "sup (Exact a d) (Category c) = (if c = d then Exact a d else Conflict)"
  "sup (Exact a c) (Exact b d) = (if a = b \<and> c = d then Exact a c else Conflict)"
  by (simp_all add: sup_evidence_def)

text \<open>The four shapes of a published hint.\<close>

lemma hint_wf_cases:
  assumes "hint_wf h"
  obtains (none) "ch_kind h = CA_CLASS_KIND_NONE" "hint_evidence h = No_Evidence"
  | (exact) "ch_kind h = CA_CLASS_KIND_EXACT" "hint_evidence h = Exact (ch_class_id h) (ch_category_id h)"
  | (category) "ch_kind h = CA_CLASS_KIND_CATEGORY" "ch_category_id h = ch_class_id h"
      "hint_evidence h = Category (ch_class_id h)"
  | (unclassified) "ch_kind h = CA_CLASS_KIND_UNCLASSIFIED" "hint_evidence h = Conflict"
  using assms by (auto simp: hint_wf_def hint_evidence_def)

lemma merge_hint_sup:
  assumes "result_wf r" and "opt_hint_wf c"
  shows "merge_evidence (ca_merge_hint r c) = sup (hint_evidence r) (opt_evidence c)"
proof (cases c)
  case None
  then show ?thesis by (simp add: ca_merge_hint_def merge_evidence_def opt_evidence_def)
next
  case (Some h)
  have "hint_wf r" and k: "ch_kind r \<noteq> CA_CLASS_KIND_UNCLASSIFIED" and "hint_wf h"
    using assms Some by (simp_all add: result_wf_def opt_hint_wf_def)
  show ?thesis
    by (rule hint_wf_cases [OF \<open>hint_wf r\<close>]; rule hint_wf_cases [OF \<open>hint_wf h\<close>])
       (use k Some in \<open>simp_all add: ca_merge_hint_def merge_evidence_def opt_evidence_def\<close>)
qed

text \<open>What the datapath reports for a piece of evidence.\<close>

fun evidence_class :: "evidence \<Rightarrow> u16 \<times> u8" where
  "evidence_class No_Evidence = (CA_CLASS_UNCLASSIFIED, CA_CLASS_KIND_NONE)"
| "evidence_class (Category c) = (c, CA_CLASS_KIND_CATEGORY)"
| "evidence_class (Exact a c) = (a, CA_CLASS_KIND_EXACT)"
| "evidence_class Conflict = (CA_CLASS_UNCLASSIFIED, CA_CLASS_KIND_NONE)"

lemma merge_return: "fst (ca_merge_hint r c) = 0 \<or> fst (ca_merge_hint r c) = -1"
  by (simp add: ca_merge_hint_def split: option.split)

lemma evidence_class_hint:
  "result_wf r \<Longrightarrow> evidence_class (hint_evidence r) =
     (if ch_kind r \<noteq> CA_CLASS_KIND_NONE then (ch_class_id r, ch_kind r)
      else (CA_CLASS_UNCLASSIFIED, CA_CLASS_KIND_NONE))"
  by (auto simp: hint_evidence_def result_wf_def hint_wf_def)

lemma or_zero_int: "((0 OR a) OR b :: int) = 0 \<longleftrightarrow> a = 0 \<and> b = 0"
  by (simp add: or_eq_0_iff)

lemma merge_conflict_evidence:
  assumes "result_wf r" "fst (ca_merge_hint r c) \<noteq> 0"
  shows "merge_evidence (ca_merge_hint r c) = Conflict"
  using assms by (simp add: merge_evidence_def)

theorem ca_classify_evidence:
  assumes p: "opt_hint_wf (ca_prefix_hint K config m key)" and q: "opt_hint_wf (ca_port_hint config m key)"
  defines "e \<equiv> sup (opt_evidence (ca_prefix_hint K config m key)) (opt_evidence (ca_port_hint config m key))"
  shows "ca_classify K config key m =
    (fst (evidence_class e), snd (evidence_class e),
     if e = Conflict then ca_stat_inc CA_STAT_CLASSIFIER_CONFLICTS m else m)"
proof -
  obtain c1 r1 where 1: "ca_merge_hint zero_hint (ca_prefix_hint K config m key) = (c1, r1)" by force
  obtain c2 r2 where 2: "ca_merge_hint r1 (ca_port_hint config m key) = (c2, r2)" by force
  have r1: "result_wf r1" using merge_result_wf [OF result_wf_zero p] 1 by simp
  have r2: "result_wf r2" using merge_result_wf [OF r1 q] 2 by simp
  have e1: "merge_evidence (c1, r1) = opt_evidence (ca_prefix_hint K config m key)"
    using merge_hint_sup [OF result_wf_zero p] 1 by simp
  have e2: "merge_evidence (c2, r2) = sup (hint_evidence r1) (opt_evidence (ca_port_hint config m key))"
    using merge_hint_sup [OF r1 q] 2 by simp
  have e: "e = (if c1 \<noteq> 0 \<or> c2 \<noteq> 0 then Conflict else hint_evidence r2)"
    using e1 e2 unfolding e_def by (auto simp: merge_evidence_def split: if_splits)
  show ?thesis
  proof (cases "c1 \<noteq> 0 \<or> c2 \<noteq> 0")
    case True
    then have "(0 OR c1) OR c2 \<noteq> 0" by (simp only: or_zero_int) blast
    then have "ca_classify K config key m =
        (CA_CLASS_UNCLASSIFIED, CA_CLASS_KIND_NONE, ca_stat_inc CA_STAT_CLASSIFIER_CONFLICTS m)"
      by (simp add: ca_classify_def 1 2)
    with e True show ?thesis by simp
  next
    case False
    then have "ca_classify K config key m = (if ch_kind r2 \<noteq> CA_CLASS_KIND_NONE
        then (ch_class_id r2, ch_kind r2, m) else (CA_CLASS_UNCLASSIFIED, CA_CLASS_KIND_NONE, m))"
      by (simp add: ca_classify_def 1 2)
    moreover have "hint_evidence r2 \<noteq> Conflict"
      using r2 by (auto simp: result_wf_def hint_wf_def hint_evidence_def)
    ultimately show ?thesis
      using e False evidence_class_hint [OF r2] by simp
  qed
qed

end
