(* ===== verification/Snapshot_Wf.thy ===== *)
theory Snapshot_Wf
  imports Prefixes Classifier
begin

text \<open>
  What an accepted snapshot guarantees: the bounds of its configuration, the form of every entry
  and the capacity of every array.  The invariant is kept by each line, so it holds of whatever
  text the parser accepts; it implies the hypotheses of the datapath about published hints.
\<close>

section \<open>Well-formed entries\<close>

text \<open>
  A published hint marks unclassified traffic, or names an exact class of some category, or a
  category, which is its own category.  The first two class numbers are reserved.
\<close>

definition published_hint :: "ca_class_hint \<Rightarrow> bool" where
  "published_hint h \<longleftrightarrow>
     ch_kind h = CA_CLASS_KIND_UNCLASSIFIED \<and> ch_class_id h = CA_CLASS_UNCLASSIFIED \<and> ch_category_id h = 0 \<or>
     CA_CLASS_UNCLASSIFIED < ch_class_id h \<and>
       (ch_kind h = CA_CLASS_KIND_EXACT \<or>
        ch_kind h = CA_CLASS_KIND_CATEGORY \<and> ch_category_id h = ch_class_id h)"

lemma published_hint_wf: "published_hint h \<Longrightarrow> hint_wf h \<and> ch_kind h \<noteq> CA_CLASS_KIND_NONE"
  by (auto simp: published_hint_def hint_wf_def)

definition config_wf :: "ca_config \<Rightarrow> bool" where
  "config_wf c \<longleftrightarrow> cfg_enabled c \<le> 1 \<and> cfg_app_enforcement_enabled c \<le> cfg_enabled c \<and>
     cfg_unknown_subject_app_verdict c \<le> 1 \<and> cfg_provisional_app_verdict c \<le> 1 \<and>
     cfg_max_packets_inspected c = 1 \<and>
     64 \<le> cfg_max_bytes_examined c \<and> cfg_max_bytes_examined c \<le> 8192 \<and>
     1 \<le> cfg_max_classification_age_ms c \<and> cfg_max_classification_age_ms c \<le> 10000 \<and>
     1 \<le> cfg_max_pending_entries c \<and> cfg_max_pending_entries c \<le> of_nat CA_MAX_FLOWS \<and>
     1 \<le> cfg_max_new_classifications_per_second c \<and> cfg_max_new_classifications_per_second c \<le> 100000 \<and>
     1 \<le> cfg_per_subject_new_classification_rate c \<and> cfg_per_subject_new_classification_rate c \<le> 100000"

definition subject_wf :: "subject_entry \<Rightarrow> bool" where
  "subject_wf e \<longleftrightarrow> se_subject_id e \<noteq> 0 \<and> length (mac_addr (se_key e)) = 6"

definition policy_wf :: "policy_entry \<Rightarrow> bool" where
  "policy_wf e \<longleftrightarrow> pk_subject_id (pe_key e) \<noteq> 0 \<and> pk_reserved (pe_key e) = 0 \<and> pe_verdict e \<le> CA_VERDICT_DENY"

definition port_wf :: "port_entry \<Rightarrow> bool" where
  "port_wf e \<longleftrightarrow> (ptk_ip_proto (te_key e) = 6 \<or> ptk_ip_proto (te_key e) = 17) \<and> ptk_reserved (te_key e) = 0 \<and>
     ptk_dst_port (te_key e) \<noteq> 0 \<and> published_hint (te_hint e)"

definition ipv4_wf :: "ipv4_entry \<Rightarrow> bool" where
  "ipv4_wf e \<longleftrightarrow> unat (p4_prefixlen (v4_key e)) \<le> 32 \<and> length (p4_addr (v4_key e)) = 4 \<and>
     canonical (p4_addr (v4_key e)) (unat (p4_prefixlen (v4_key e))) \<and> published_hint (v4_hint e)"

definition ipv6_wf :: "ipv6_entry \<Rightarrow> bool" where
  "ipv6_wf e \<longleftrightarrow> unat (p6_prefixlen (v6_key e)) \<le> 128 \<and> length (p6_addr (v6_key e)) = 16 \<and>
     canonical (p6_addr (v6_key e)) (unat (p6_prefixlen (v6_key e))) \<and> published_hint (v6_hint e)"

definition snapshot_wf :: "snapshot \<Rightarrow> bool" where
  "snapshot_wf sn \<longleftrightarrow> (sn_have_config sn \<longrightarrow> config_wf (sn_config sn)) \<and>
     (length (sn_subjects sn) \<le> CA_MAX_SUBJECTS \<and> list_all subject_wf (sn_subjects sn)) \<and>
     (length (sn_policies sn) \<le> CA_MAX_POLICY_ENTRIES \<and> list_all policy_wf (sn_policies sn)) \<and>
     (length (sn_ports sn) \<le> CA_MAX_PORT_HINTS \<and> list_all port_wf (sn_ports sn)) \<and>
     (length (sn_ipv4 sn) \<le> CA_MAX_IPV4_HINTS \<and> list_all ipv4_wf (sn_ipv4 sn)) \<and>
     (length (sn_ipv6 sn) \<le> CA_MAX_IPV6_HINTS \<and> list_all ipv6_wf (sn_ipv6 sn))"

text \<open>\<^verbatim>\<open>inet_pton\<close> writes an address of its family.\<close>

definition pton_ok :: "libc \<Rightarrow> bool" where
  "pton_ok L \<longleftrightarrow> (\<forall>fam text a. lc_inet_pton L fam text = Some a \<longrightarrow> length a = addr_len fam)"

section \<open>The fields\<close>

lemma ucast_u16_eq:
  fixes x :: u32
  assumes "x \<le> 65535"
  shows "unat (ucast x :: u16) = unat x"
proof -
  have "unat x < 65536" using assms by (simp add: word_le_nat_alt)
  then show ?thesis by (simp add: unsigned_ucast_eq take_bit_nat_eq_self)
qed

lemma ucast_u16_inject:
  fixes x y :: u32
  assumes "x \<le> 65535" and "y \<le> 65535"
  shows "(ucast x :: u16) = ucast y \<longleftrightarrow> x = y"
  using ucast_u16_eq [OF assms(1)] ucast_u16_eq [OF assms(2)] by (metis word_unat_eq_iff)

lemma ucast_u16_0:
  fixes x :: u32
  assumes "x \<le> 65535"
  shows "(ucast x :: u16) = 0 \<longleftrightarrow> x = 0"
  using ucast_u16_inject [OF assms, of 0] by simp

lemma bool_ucast: "(x :: u32) \<le> 1 \<Longrightarrow> (ucast x :: u8) \<le> 1"
proof -
  assume "x \<le> 1"
  then have "unat x = 0 \<or> unat x = 1" by (auto simp: word_le_nat_alt)
  then have "x = 0 \<or> x = 1" by (auto simp: word_unat_eq_iff)
  then show ?thesis by auto
qed

lemma ucast_u16_less:
  fixes x :: u32
  assumes "1 < x" and "x \<le> 65535"
  shows "(1 :: u16) < ucast x"
  using assms(1) ucast_u16_eq [OF assms(2)] by (simp add: word_less_nat_alt)

lemma parse_hint_published:
  assumes "parse_hint cls cat kind = Some h"
  shows "published_hint h"
proof -
  have "kind = 3 \<and> cls = 1 \<and> cat = 0 \<and> h = \<lparr>ch_class_id = 1, ch_category_id = 0, ch_kind = 3\<rparr> \<or>
      1 < cls \<and> cls \<le> 65535 \<and> (kind = 1 \<or> kind = 2 \<and> cat = cls) \<and>
      h = \<lparr>ch_class_id = ucast cls, ch_category_id = ucast cat, ch_kind = ucast kind\<rparr>"
    using assms by (auto simp: parse_hint_def not_less not_le split: if_splits)
  then show ?thesis
    by (auto simp: published_hint_def ucast_u16_less)
qed

text \<open>The numbers of a published hint are accepted, and give it back.\<close>

lemma ucast_u16_up:
  "(ucast (ucast (x :: u16) :: u32) :: u16) = x" "(ucast x :: u32) \<le> 65535"
  "1 < x \<Longrightarrow> 1 < (ucast x :: u32)"
proof -
  have b: "unat x < 65536" using unsigned_less [of x, where 'a = nat] by simp
  then have u: "unat (ucast x :: u32) = unat x" by (simp add: unsigned_ucast_eq take_bit_nat_eq_self)
  show "(ucast x :: u32) \<le> 65535" using u b by (simp add: word_le_nat_alt)
  show "1 < x \<Longrightarrow> 1 < (ucast x :: u32)" using u by (simp add: word_less_nat_alt)
  show "(ucast (ucast x :: u32) :: u16) = x" by (rule bit_word_eqI) (simp add: bit_simps)
qed

lemma parse_hint_roundtrip:
  assumes "published_hint h"
  shows "parse_hint (ucast (ch_class_id h)) (ucast (ch_category_id h)) (ucast (ch_kind h)) = Some h"
  using assms unfolding published_hint_def
proof (elim disjE conjE)
  assume "1 < ch_class_id h" and "ch_kind h = 1"
  then show ?thesis
    using ucast_u16_up [of "ch_class_id h"] ucast_u16_up(1,2) [of "ch_category_id h"]
    by (cases h) (simp add: parse_hint_def not_le not_less)
next
  assume "1 < ch_class_id h" and "ch_kind h = 2" and "ch_category_id h = ch_class_id h"
  then show ?thesis
    using ucast_u16_up [of "ch_class_id h"] by (cases h) (simp add: parse_hint_def not_le not_less)
qed (cases h, simp add: parse_hint_def)

lemma parse_mac_length: "parse_mac text = Some k \<Longrightarrow> length (mac_addr k) = 6"
  by (auto simp: parse_mac_def Let_def split: if_splits)

lemma parse_prefix_ok:
  assumes "parse_prefix L text fam = Some (p, a)" and "pton_ok L"
  shows "length a = addr_len fam \<and> unat p \<le> 8 * addr_len fam"
proof -
  obtain n where v: "n \<le> (if fam = AF_INET then 32 else 128 :: u64)" "p = ucast n"
    and a: "\<exists>copy. lc_inet_pton L fam copy = Some a"
    using assms(1)
    by (auto simp: parse_prefix_def Let_def not_less split: if_splits list.splits prod.splits option.splits)
  have "unat n \<le> 8 * addr_len fam"
    using v(1) by (cases fam) (simp_all add: addr_len_def word_le_nat_alt)
  moreover from this have "unat n < 2 ^ 32" by (cases fam) (simp_all add: addr_len_def)
  then have "unat p = unat n"
    by (simp add: v(2) unsigned_ucast_eq take_bit_nat_eq_self)
  ultimately show ?thesis using a assms(2) by (auto simp: pton_ok_def)
qed

section \<open>Every line keeps the invariant\<close>

lemma one_le_u32: "(1 :: u32) \<le> x \<longleftrightarrow> x \<noteq> 0"
  by (cases "x = 0") (simp_all add: word_le_nat_alt Suc_le_eq unat_gt_0)

lemma parse_config_wf: "snapshot_wf sn \<Longrightarrow> snapshot_wf (snd (parse_config sn line))"
  by (auto simp: parse_config_def Let_def snapshot_wf_def config_wf_def not_less bool_ucast one_le_u32)

lemma append_subject_wf: "snapshot_wf sn \<Longrightarrow> subject_wf e \<Longrightarrow> snapshot_wf (snd (append_subject L sn e))"
  by (rule subjects.append_keeps) (simp_all add: snapshot_wf_def)

lemma append_policy_wf: "snapshot_wf sn \<Longrightarrow> policy_wf e \<Longrightarrow> snapshot_wf (snd (append_policy L sn e))"
  by (rule policies.append_keeps) (simp_all add: snapshot_wf_def)

lemma append_port_wf: "snapshot_wf sn \<Longrightarrow> port_wf e \<Longrightarrow> snapshot_wf (snd (append_port L sn e))"
  by (rule ports.append_keeps) (simp_all add: snapshot_wf_def)

lemma append_ipv4_wf: "snapshot_wf sn \<Longrightarrow> ipv4_wf e \<Longrightarrow> snapshot_wf (snd (append_ipv4 L sn e))"
  by (rule prefixes4.append_keeps) (simp_all add: snapshot_wf_def)

lemma append_ipv6_wf: "snapshot_wf sn \<Longrightarrow> ipv6_wf e \<Longrightarrow> snapshot_wf (snd (append_ipv6 L sn e))"
  by (rule prefixes6.append_keeps) (simp_all add: snapshot_wf_def)

lemma parse_subject_wf: "snapshot_wf sn \<Longrightarrow> snapshot_wf (snd (parse_subject L sn line))"
  by (simp add: parse_subject_def Let_def split: option.split)
     (auto intro!: append_subject_wf simp: subject_wf_def parse_mac_length)

lemma parse_port_wf: "snapshot_wf sn \<Longrightarrow> snapshot_wf (snd (parse_port L sn line))"
  using bswap16_inject [of _ 0]
  by (simp add: parse_port_def Let_def split: option.split)
     (auto intro!: append_port_wf simp: port_wf_def parse_hint_published not_less ucast_u16_0)

lemma prefix_entry_ok:
  assumes "pton_ok L" and "parse_prefix L text fam = Some (p, a)"
  shows "unat p \<le> 8 * addr_len fam \<and> length (canonicalize_prefix fam a p) = addr_len fam \<and>
    canonical (canonicalize_prefix fam a p) (unat p)"
  using parse_prefix_ok [OF assms(2,1)] length_canonicalize canonical_canonicalize by blast

lemma parse_prefix4_wf: "pton_ok L \<Longrightarrow> snapshot_wf sn \<Longrightarrow> snapshot_wf (snd (parse_prefix4 L sn line))"
  using prefix_entry_ok [of L _ AF_INET]
  by (simp add: parse_prefix4_def Let_def addr_len_def split: option.split)
     (auto intro!: append_ipv4_wf simp: ipv4_wf_def parse_hint_published)

lemma parse_prefix6_wf: "pton_ok L \<Longrightarrow> snapshot_wf sn \<Longrightarrow> snapshot_wf (snd (parse_prefix6 L sn line))"
  using prefix_entry_ok [of L _ AF_INET6]
  by (simp add: parse_prefix6_def Let_def addr_len_def split: option.split)
     (auto intro!: append_ipv6_wf simp: ipv6_wf_def parse_hint_published)

lemma parse_policy_wf: "snapshot_wf sn \<Longrightarrow> snapshot_wf (snd (parse_policy L sn line))"
  by (simp add: parse_policy_def Let_def)
     (auto intro!: append_policy_wf simp: policy_wf_def not_less bool_ucast)

lemma parse_line_wf: "pton_ok L \<Longrightarrow> snapshot_wf sn \<Longrightarrow> snapshot_wf (snd (parse_line L sn line))"
  by (auto simp: parse_line_def Let_def parse_config_wf parse_subject_wf parse_port_wf parse_prefix4_wf
      parse_prefix6_wf parse_policy_wf split: list.split)

lemma parse_lines_wf: "pton_ok L \<Longrightarrow> snapshot_wf sn \<Longrightarrow> snapshot_wf (snd (parse_lines L sn lines))"
proof (induction lines arbitrary: sn)
  case (Cons line rest)
  have "snapshot_wf (snd (parse_line L sn line))" using Cons.prems by (rule parse_line_wf)
  with Cons show ?case by (simp add: Let_def split_beta)
qed simp

lemma zero_snapshot_wf [simp]: "snapshot_wf zero_snapshot"
  by (simp add: snapshot_wf_def zero_snapshot_def)

text \<open>
  C24 snapshot_accepted_wf: whatever text the parser accepts, the snapshot has a configuration
  whose every field is within its documented range, every entry is well formed (known protocols,
  nonzero subjects and ports, canonical prefixes, consistent class hints, boolean verdicts) and no
  array exceeds the capacity of its map.
\<close>

theorem snapshot_accepted_wf:
  assumes "pton_ok L" and "parse_snapshot L zero_snapshot stdin = (0, sn)"
  shows "sn_have_config sn \<and> config_wf (sn_config sn) \<and> snapshot_wf sn"
proof -
  have "sn_have_config sn" and "sn = snd (parse_lines L zero_snapshot (map c_str (get_lines stdin)))"
    using assms(2) by (auto simp: parse_snapshot_def Let_def split_beta split: if_splits)
  moreover from this have "snapshot_wf sn" using parse_lines_wf [OF assms(1)] by simp
  ultimately show ?thesis by (simp add: snapshot_wf_def)
qed

end
