(* ===== verification/Control.thy ===== *)
theory Control
  imports Bpf_Types
begin

text \<open>
  The common part of the controller: \<^verbatim>\<open>src/bpfctl-common.c\<close> (pin paths, opening a
  pinned map, reading the configuration, the update lock) and the map loops of
  \<^verbatim>\<open>src/bpf-snapshot.c\<close>.

  The system calls are fields of the parameter \<open>sys\<close>.  A call that can fail returns 0 or its
  error number; a successful open stands for a descriptor, which is closed on every path and is
  not modelled further.
\<close>

section \<open>System calls\<close>

record sys =
  sy_open_lock :: int
  sy_flock :: int
  sy_obj_get :: "string \<Rightarrow> int"
  sy_lookup_config :: "(u32 \<rightharpoonup> ca_config) \<Rightarrow> u32 \<Rightarrow> int + ca_config"
  sy_config :: "(u32, ca_config) map_ops"
  sy_subject :: "(ca_mac_key, u32) map_ops"
  sy_policy :: "(ca_policy_key, u8) map_ops"
  sy_port :: "(ca_port_key, ca_class_hint) map_ops"
  sy_ipv4 :: "(ca_ipv4_lpm_key, ca_class_hint) map_ops"
  sy_ipv6 :: "(ca_ipv6_lpm_key, ca_class_hint) map_ops"
  sy_rates :: "(u32, u64) map_ops"
  sy_flows :: "(ca_flow_key, ca_flow_state) map_ops"

abbreviation (input) CA_PIN_ROOT :: string where "CA_PIN_ROOT \<equiv> ''/sys/fs/bpf/client_access''"
abbreviation (input) PATH_MAX :: nat where "PATH_MAX \<equiv> 4096"
abbreviation (input) ENAMETOOLONG :: int where "ENAMETOOLONG \<equiv> 36"

text \<open>\<open>None\<close> is \<^verbatim>\<open>-ENAMETOOLONG\<close>; otherwise the path written to the buffer.\<close>

definition ca_bpf_pin_path :: "nat \<Rightarrow> string \<Rightarrow> string option" where
  "ca_bpf_pin_path len name =
     (let path = CA_PIN_ROOT @ ''/'' @ name
      in if length path \<ge> len then None else Some path)"

definition ca_bpf_open_map :: "sys \<Rightarrow> string \<Rightarrow> int" where
  "ca_bpf_open_map S name =
     (case ca_bpf_pin_path PATH_MAX name of None \<Rightarrow> -1 | Some path \<Rightarrow> sy_obj_get S path)"

definition ca_bpf_lookup_config :: "sys \<Rightarrow> ca_maps \<Rightarrow> int + ca_config" where
  "ca_bpf_lookup_config S m = sy_lookup_config S (m_config m) 0"

text \<open>Whether the lock was taken.\<close>

definition ca_bpf_update_lock :: "sys \<Rightarrow> bool" where
  "ca_bpf_update_lock S \<longleftrightarrow> \<not> (sy_open_lock S \<noteq> 0 \<or> sy_flock S \<noteq> 0)"

text \<open>
  The documented behaviour of the calls: a lookup finds what the map holds; a successful
  iteration step from the start returns a key that is present, and \<^verbatim>\<open>ENOENT\<close> means the
  map is empty.
\<close>

definition map_iter_ok :: "('k, 'v) map_ops \<Rightarrow> bool" where
  "map_iter_ok ops \<longleftrightarrow> (\<forall>m. (\<forall>k. mo_next_key ops m None = Inr k \<longrightarrow> m k \<noteq> None) \<and>
     mo_next_key ops m None \<noteq> Inl 0 \<and>
     (mo_next_key ops m None = Inl ENOENT \<longrightarrow> m = Map.empty))"

definition map_ok :: "('k, 'v) map_ops \<Rightarrow> bool" where
  "map_ok ops \<longleftrightarrow> map_update_ok ops \<and> map_delete_ok ops \<and> map_iter_ok ops"

definition lookup_ok :: "sys \<Rightarrow> bool" where
  "lookup_ok S \<longleftrightarrow> (\<forall>m k. case sy_lookup_config S m k of
     Inr c \<Rightarrow> m k = Some c | Inl e \<Rightarrow> e \<noteq> 0 \<and> (e = ENOENT \<longrightarrow> m k = None))"

definition sys_ok :: "sys \<Rightarrow> bool" where
  "sys_ok S \<longleftrightarrow> lookup_ok S \<and> map_ok (sy_config S) \<and> map_ok (sy_subject S) \<and> map_ok (sy_policy S) \<and>
     map_ok (sy_port S) \<and> map_ok (sy_ipv4 S) \<and> map_ok (sy_ipv6 S) \<and> map_ok (sy_rates S) \<and> map_ok (sy_flows S)"

section \<open>Emptying a map\<close>

text \<open>Nothing bounds this loop in the source: \<open>None\<close> is a loop that does not return.\<close>

partial_function (option) clear_map ::
    "('k, 'v) map_ops \<Rightarrow> ('k \<rightharpoonup> 'v) \<Rightarrow> (int \<times> ('k \<rightharpoonup> 'v)) option" where
  "clear_map ops m =
     (case mo_next_key ops m None of
        Inl e \<Rightarrow> Some (if e = ENOENT then 0 else - e, m)
      | Inr key \<Rightarrow>
          if fst (mo_delete ops m key) \<noteq> 0
          then Some (- fst (mo_delete ops m key), snd (mo_delete ops m key))
          else clear_map ops (snd (mo_delete ops m key)))"

lemma clear_map_terminates:
  assumes ok: "map_ok ops"
  shows "finite (dom m) \<Longrightarrow> defined (clear_map ops m)"
proof (induction "card (dom m)" arbitrary: m rule: less_induct)
  case less
  show ?case
  proof (cases "mo_next_key ops m None")
    case (Inl e)
    then show ?thesis by (simp add: clear_map.simps [of ops m])
  next
    case (Inr k)
    with ok have k: "k \<in> dom m" by (auto simp: map_ok_def map_iter_ok_def)
    show ?thesis
    proof (cases "fst (mo_delete ops m k) = 0")
      case True
      then have d: "snd (mo_delete ops m k) = m(k := None)"
        using ok unfolding map_ok_def map_delete_ok_def by blast
      have "card (dom (m(k := None))) < card (dom m)"
        using k less.prems by (simp add: card_Diff1_less del: card_Diff_insert)
      from less.hyps [OF this] less.prems Inr True d show ?thesis
        by (simp add: clear_map.simps [of ops m])
    next
      case False
      with Inr show ?thesis by (simp add: clear_map.simps [of ops m])
    qed
  qed
qed

text \<open>A loop that reports success leaves the map empty.\<close>

lemma clear_map_empty:
  assumes ok: "map_ok ops" and run: "clear_map ops m = Some r" and "fst r = 0"
  shows "snd r = Map.empty"
proof -
  have "map_ok ops \<and> fst r = 0 \<longrightarrow> snd r = Map.empty"
    using run
  proof (rule clear_map.raw_induct [where P = "\<lambda>ops m r. map_ok ops \<and> fst r = 0 \<longrightarrow> snd r = Map.empty", rotated])
    fix f ops m r
    assume IH: "\<And>ops m y. f ops m = Some y \<Longrightarrow> map_ok ops \<and> fst y = 0 \<longrightarrow> snd y = Map.empty"
      and body: "(case mo_next_key ops m None of Inl e \<Rightarrow> Some (if e = ENOENT then 0 else - e, m)
        | Inr key \<Rightarrow> if fst (mo_delete ops m key) \<noteq> 0
            then Some (- fst (mo_delete ops m key), snd (mo_delete ops m key))
            else f ops (snd (mo_delete ops m key))) = Some r"
    show "map_ok ops \<and> fst r = 0 \<longrightarrow> snd r = Map.empty"
      using body IH by (cases "mo_next_key ops m None") (auto simp: map_ok_def map_iter_ok_def split: if_splits)
  qed
  with ok assms(3) show ?thesis by simp
qed

text \<open>Whatever it reports, the loop only removes keys.\<close>

lemma clear_map_le:
  assumes "map_delete_ok ops" and "clear_map ops m = Some r"
  shows "snd r \<subseteq>\<^sub>m m"
proof -
  have "map_delete_ok ops \<longrightarrow> snd r \<subseteq>\<^sub>m m"
    using assms(2)
  proof (rule clear_map.raw_induct [where P = "\<lambda>ops m r. map_delete_ok ops \<longrightarrow> snd r \<subseteq>\<^sub>m m", rotated])
    fix f and ops :: "('k, 'v) map_ops" and m r
    assume IH: "\<And>ops m y. f ops m = Some y \<Longrightarrow> map_delete_ok ops \<longrightarrow> snd y \<subseteq>\<^sub>m m"
      and body: "(case mo_next_key ops m None of Inl e \<Rightarrow> Some (if e = ENOENT then 0 else - e, m)
        | Inr key \<Rightarrow> if fst (mo_delete ops m key) \<noteq> 0
            then Some (- fst (mo_delete ops m key), snd (mo_delete ops m key))
            else f ops (snd (mo_delete ops m key))) = Some r"
    show "map_delete_ok ops \<longrightarrow> snd r \<subseteq>\<^sub>m m"
    proof
      assume ok: "map_delete_ok ops"
      have del: "snd (mo_delete ops m k) \<subseteq>\<^sub>m m" for k
        using map_delete_cases [OF ok, of m k] by (cases "mo_delete ops m k") (auto simp: map_le_def split: if_splits)
      show "snd r \<subseteq>\<^sub>m m"
      proof (cases "mo_next_key ops m None")
        case (Inl e)
        with body show ?thesis by auto
      next
        case (Inr k)
        show ?thesis
        proof (cases "fst (mo_delete ops m k) = 0")
          case True
          then have "f ops (snd (mo_delete ops m k)) = Some r" using body Inr by simp
          from IH [OF this] ok have "snd r \<subseteq>\<^sub>m snd (mo_delete ops m k)" by simp
          then show ?thesis using del [of k] by (rule map_le_trans)
        next
          case False
          with body Inr del show ?thesis by auto
        qed
      qed
    qed
  qed
  with assms(1) show ?thesis by simp
qed

end
