(* ===== verification/Admission.thy ===== *)
theory Admission
  imports Datapath_State
begin

text \<open>
  Admission control of \<^verbatim>\<open>src/client-access-bpf.c\<close>: the per-second rate limiters
  (\<^verbatim>\<open>ca_rate_take\<close>, \<^verbatim>\<open>ca_admit_classification\<close>) and the bound on pending
  classifications (\<^verbatim>\<open>ca_pending_reserve\<close>, \<^verbatim>\<open>ca_pending_release\<close>).

  Both limiters are retry loops around a compare-and-swap on a 64-bit word that other CPUs
  change at the same time.  Each defines a pure step from the word that was read to the word to
  be installed, or a refusal; the loop around it is \<open>cas_loop\<close>.  What other CPUs do to the word
  between two atomic operations is the argument \<open>race\<close>.  The locale \<open>cas_step\<close> states the
  contract a step has with the loop, an invariant of the word that the step keeps, and is
  interpreted for both limiters.
\<close>

section \<open>The retry loop\<close>

abbreviation (input) CA_CAS_ATTEMPTS :: nat where "CA_CAS_ATTEMPTS \<equiv> 8"

text \<open>
  \<open>cas_loop n race i step w\<close> makes \<open>n\<close> more attempts, the first of them number \<open>i\<close>, on the
  word \<open>w\<close>; it returns whether a step was installed, and the word.  In attempt \<open>i\<close> the
  other CPUs move at gap \<open>2 * i\<close>, before the read, and at gap \<open>2 * i + 1\<close>, between the read
  and the compare-and-swap.
\<close>

primrec cas_loop ::
    "nat \<Rightarrow> (nat \<Rightarrow> u64 \<Rightarrow> u64) \<Rightarrow> nat \<Rightarrow> (u64 \<Rightarrow> u64 option) \<Rightarrow> u64 \<Rightarrow> bool \<times> u64" where
  "cas_loop 0 race i step w = (False, w)"
| "cas_loop (Suc n) race i step w =
     (let old = race (2 * i) w in
      case step old of
        None \<Rightarrow> (False, old)
      | Some next \<Rightarrow>
          let cur = race (2 * i + 1) old in
          if cur = old then (True, next) else cas_loop n race (Suc i) step cur)"

text \<open>
  The contract: \<open>inv\<close> is a property of the shared word that a step keeps.
\<close>

locale cas_step =
  fixes step :: "u64 \<Rightarrow> u64 option"
    and inv :: "u64 \<Rightarrow> bool"
  assumes step_inv: "inv w \<Longrightarrow> step w = Some w' \<Longrightarrow> inv w'"
begin

lemma cas_loop_inv:
  assumes "inv w" and "\<And>n w. inv w \<Longrightarrow> inv (race n w)"
  shows "inv (snd (cas_loop n race i step w))"
  using assms(1)
proof (induction n arbitrary: i w)
  case 0
  then show ?case by simp
next
  case (Suc n)
  then have "inv (race (2 * i) w)" by (simp add: assms(2))
  with Suc.IH show ?case
    by (auto simp: Let_def assms(2) dest: step_inv split: option.split)
qed

text \<open>A successful loop has installed exactly one step, from a word that was current.\<close>

lemma cas_loop_success:
  assumes "cas_loop n race i step w = (True, w')" and "inv w" and "\<And>n w. inv w \<Longrightarrow> inv (race n w)"
  shows "\<exists>old. inv old \<and> step old = Some w'"
  using assms(1,2)
proof (induction n arbitrary: i w)
  case 0
  then show ?case by simp
next
  case (Suc n)
  from Suc.prems(2) have old: "inv (race (2 * i) w)" by (simp add: assms(3))
  show ?case
  proof (cases "step (race (2 * i) w)")
    case None
    with Suc.prems(1) show ?thesis by simp
  next
    case (Some nxt)
    let ?cur = "race (2 * i + 1) (race (2 * i) w)"
    show ?thesis
    proof (cases "?cur = race (2 * i) w")
      case True
      with Suc.prems(1) Some old show ?thesis by auto
    next
      case False
      with Suc.prems(1) Some have "cas_loop n race (Suc i) step ?cur = (True, w')" by simp
      moreover have "inv ?cur" using old by (rule assms(3))
      ultimately show ?thesis by (rule Suc.IH)
    qed
  qed
qed

end

text \<open>With no other CPU on the word, the first attempt decides.\<close>

lemma cas_loop_quiet:
  "cas_loop (Suc n) (\<lambda>_ w. w) i step w = (case step w of None \<Rightarrow> (False, w) | Some next \<Rightarrow> (True, next))"
  by (simp split: option.split)

section \<open>Words with two halves\<close>

definition low32 :: "u64 \<Rightarrow> u32" where "low32 w = ucast w"
definition high32 :: "u64 \<Rightarrow> u32" where "high32 w = ucast (drop_bit 32 w)"
definition pack64 :: "u32 \<Rightarrow> u32 \<Rightarrow> u64" where "pack64 hi lo = push_bit 32 (ucast hi) OR ucast lo"

lemma bit_pack64: "bit (pack64 hi lo) n \<longleftrightarrow> (if n < 32 then bit lo n else bit hi (n - 32))"
  by (auto simp: pack64_def bit_simps not_less dest: bit_imp_le_length)

lemma low32_pack64 [simp]: "low32 (pack64 hi lo) = lo"
  by (rule bit_word_eqI) (simp add: low32_def bit_simps bit_pack64)

lemma high32_pack64 [simp]: "high32 (pack64 hi lo) = hi"
  by (rule bit_word_eqI) (simp add: high32_def bit_simps bit_pack64)

lemma pack64_halves [simp]: "pack64 (high32 w) (low32 w) = w"
  by (rule bit_word_eqI) (auto simp: low32_def high32_def bit_simps bit_pack64)

lemma unat_pack64: "unat (pack64 hi lo) = unat hi * 2 ^ 32 + unat lo"
proof -
  have disj: "push_bit 32 (ucast hi :: u64) AND ucast lo = 0"
    by (rule bit_word_eqI) (auto simp: bit_simps dest: bit_imp_le_length)
  have h: "unat hi < 2 ^ 32" and l: "unat lo < 2 ^ 32"
    using unsigned_less [of hi] unsigned_less [of lo] by simp_all
  have "unat (push_bit 32 (ucast hi) :: u64) = unat hi * 2 ^ 32"
    using h by (simp add: push_bit_eq_mult unat_word_ariths unsigned_ucast_eq take_bit_eq_mod)
  moreover have "pack64 hi lo = push_bit 32 (ucast hi) + ucast lo"
    using disj by (simp add: pack64_def disjunctive_add_eq_or)
  ultimately show ?thesis
    using h l by (simp add: unat_word_ariths unsigned_ucast_eq take_bit_eq_mod)
qed

lemma pack64_cases: obtains hi lo where "w = pack64 hi lo" "high32 w = hi" "low32 w = lo"
  using pack64_halves by metis

text \<open>Adding or subtracting one stays in the low half when it neither wraps nor borrows.\<close>

lemma halves_0 [simp]: "low32 0 = 0" "high32 0 = 0"
  by (simp_all add: low32_def high32_def)

lemma unat_inc: "unat lo < 2 ^ 32 - 1 \<Longrightarrow> unat (lo + 1 :: u32) = unat lo + 1"
  by (simp add: unat_word_ariths)

lemma unat_dec: "lo \<noteq> 0 \<Longrightarrow> unat (lo - 1 :: u32) = unat lo - 1"
  by (simp add: unat_minus_one)

lemma pack64_inc:
  assumes "unat lo < 2 ^ 32 - 1"
  shows "pack64 hi lo + 1 = pack64 hi (lo + 1)"
proof -
  have "unat hi < 2 ^ 32" using unsigned_less [of hi] by simp
  then have "unat (pack64 hi lo + 1) = unat hi * 2 ^ 32 + unat lo + 1"
    using assms by (simp add: unat_word_ariths unat_pack64)
  then have "unat (pack64 hi lo + 1) = unat (pack64 hi (lo + 1))"
    by (simp add: unat_pack64 unat_inc [OF assms])
  then show ?thesis by (simp add: word_unat_eq_iff)
qed

lemma pack64_dec:
  assumes "lo \<noteq> 0"
  shows "pack64 hi lo - 1 = pack64 hi (lo - 1)"
proof -
  have "unat lo \<noteq> 0" using assms by (simp add: unat_eq_0)
  then have "pack64 hi lo \<noteq> 0" by (simp add: word_unat_eq_iff unat_pack64)
  then have "unat (pack64 hi lo - 1) = unat hi * 2 ^ 32 + unat lo - 1"
    by (simp add: unat_minus_one unat_pack64)
  then have "unat (pack64 hi lo - 1) = unat (pack64 hi (lo - 1))"
    using \<open>unat lo \<noteq> 0\<close> by (simp add: unat_pack64 unat_dec [OF assms])
  then show ?thesis by (simp add: word_unat_eq_iff)
qed

section \<open>The rate limiter\<close>

abbreviation (input) CA_RATE_WINDOW_NS :: u64 where "CA_RATE_WINDOW_NS \<equiv> 1000000000"

text \<open>
  The word holds the second of the current window in its high half (truncated to 32 bits) and
  the admissions of that window in its low half.
\<close>

definition rate_step :: "u64 \<Rightarrow> u32 \<Rightarrow> u64 \<Rightarrow> u64 option" where
  "rate_step now limit old =
     (let second = now div CA_RATE_WINDOW_NS;
          old_second = high32 old;
          count = low32 old
      in if (ucast second :: u32) \<noteq> old_second
         then Some (push_bit 32 (ucast (ucast second :: u32)) OR 1)
         else if count \<ge> limit then None
         else Some (old + 1))"

definition ca_rate_take :: "(nat \<Rightarrow> u64 \<Rightarrow> u64) \<Rightarrow> u64 \<Rightarrow> u64 \<Rightarrow> u32 \<Rightarrow> bool \<times> u64" where
  "ca_rate_take race state now limit = cas_loop CA_CAS_ATTEMPTS race 0 (rate_step now limit) state"

definition window :: "u64 \<Rightarrow> u32" where "window now = ucast (now div CA_RATE_WINDOW_NS)"

lemma rate_step_pack:
  "rate_step now limit (pack64 s c) =
     (if window now \<noteq> s then Some (pack64 (window now) 1)
      else if c \<ge> limit then None else Some (pack64 s (c + 1)))"
proof -
  have "unat c < 2 ^ 32 - 1" if "\<not> c \<ge> limit"
  proof -
    have "unat limit < 2 ^ 32" using unsigned_less [of limit] by simp
    with that show ?thesis by (simp add: word_le_nat_alt)
  qed
  then show ?thesis
    by (simp add: rate_step_def Let_def window_def pack64_inc) (simp add: pack64_def)
qed

text \<open>The invariant of a rate word: its window has not admitted more than the limit.\<close>

definition rate_inv :: "u32 \<Rightarrow> u64 \<Rightarrow> bool" where
  "rate_inv limit w \<longleftrightarrow> low32 w \<le> limit"

lemma one_le_word: "0 < (limit :: u32) \<Longrightarrow> 1 \<le> limit"
  by (simp add: word_less_nat_alt word_le_nat_alt)

lemma rate_step_inv:
  assumes "0 < limit" and "rate_inv limit w" and "rate_step now limit w = Some w'"
  shows "rate_inv limit w'"
proof -
  obtain s c where w: "w = pack64 s c" by (rule pack64_cases)
  show ?thesis
    using assms inc_le [of c limit] one_le_word
    by (auto simp: w rate_inv_def rate_step_pack not_le split: if_splits)
qed

interpretation rate: cas_step "rate_step now limit" "\<lambda>w. 0 < limit \<and> rate_inv limit w" for now limit
  by unfold_locales (blast intro: rate_step_inv)

section \<open>The pending bound\<close>

text \<open>The low half counts pending classifications, the high half is their peak.\<close>

definition pending_step :: "u32 \<Rightarrow> u64 \<Rightarrow> u64 option" where
  "pending_step limit old =
     (let pending_count = low32 old;
          peak = high32 old
      in if pending_count \<ge> limit then None
         else let next_current = pending_count + 1;
                  next_peak = (if next_current > peak then next_current else peak)
              in Some (push_bit 32 (ucast next_peak) OR ucast next_current))"

lemma pending_step_pack:
  "pending_step limit (pack64 peak cur) =
     (if cur \<ge> limit then None else Some (pack64 (max (cur + 1) peak) (cur + 1)))"
  by (simp add: pending_step_def Let_def pack64_def [symmetric] max_def not_less [symmetric])

definition pending_inv :: "u32 \<Rightarrow> u64 \<Rightarrow> bool" where
  "pending_inv limit w \<longleftrightarrow> low32 w \<le> limit \<and> low32 w \<le> high32 w"

lemma pending_step_inv:
  assumes "pending_inv limit w" and "pending_step limit w = Some w'"
  shows "pending_inv limit w'"
proof -
  obtain p c where w: "w = pack64 p c" by (rule pack64_cases)
  show ?thesis
    using assms inc_le [of c limit]
    by (auto simp: w pending_inv_def pending_step_pack not_le split: if_splits)
qed

interpretation pending: cas_step "pending_step limit" "pending_inv limit" for limit
  by unfold_locales (rule pending_step_inv)

definition ca_pending_reserve :: "kernel \<Rightarrow> ca_maps \<Rightarrow> u32 \<Rightarrow> bool \<times> ca_maps" where
  "ca_pending_reserve K m limit =
     (case m_runtime m 0 of
        None \<Rightarrow> (False, m)
      | Some state \<Rightarrow>
          let (ok, state') = cas_loop CA_CAS_ATTEMPTS (kn_race K Runtime_Word) 0 (pending_step limit) state
          in (ok, m\<lparr>m_runtime := (m_runtime m)(0 \<mapsto> state')\<rparr>))"

text \<open>The release is one atomic subtraction; other CPUs may have moved before it (gap 16).\<close>

definition ca_pending_release :: "kernel \<Rightarrow> ca_maps \<Rightarrow> ca_maps" where
  "ca_pending_release K m =
     (case m_runtime m 0 of
        None \<Rightarrow> m
      | Some state \<Rightarrow> m\<lparr>m_runtime := (m_runtime m)(0 \<mapsto> kn_race K Runtime_Word 16 state - 1)\<rparr>)"

section \<open>Admission of a new classification\<close>

definition ca_admit_classification :: "kernel \<Rightarrow> ca_config \<Rightarrow> ca_maps \<Rightarrow> u32 \<Rightarrow> u64 \<Rightarrow> bool \<times> ca_maps" where
  "ca_admit_classification K config m subject_id now =
     (case m_global_rate m 0 of
        None \<Rightarrow> (False, m)
      | Some global \<Rightarrow>
          let (ok, global') = ca_rate_take (kn_race K Global_Rate) global now
                                (cfg_max_new_classifications_per_second config);
              m1 = m\<lparr>m_global_rate := (m_global_rate m)(0 \<mapsto> global')\<rparr>
          in if \<not> ok then (False, m1)
             else let m2 = (if m_subject_rates m1 subject_id = None
                            then m1\<lparr>m_subject_rates :=
                                   snd (mo_update (kn_rates K) (m_subject_rates m1) subject_id 0 BPF_NOEXIST)\<rparr>
                            else m1)
                  in case m_subject_rates m2 subject_id of
                       None \<Rightarrow> (False, m2)
                     | Some subject \<Rightarrow>
                         let (ok2, subject') = ca_rate_take (kn_race K Subject_Rate) subject now
                                                 (cfg_per_subject_new_classification_rate config)
                         in (ok2, m2\<lparr>m_subject_rates := (m_subject_rates m2)(subject_id \<mapsto> subject')\<rparr>))"

lemma admit_frame [simp, frame_simps]:
  "m_config (snd (ca_admit_classification K c m s now)) = m_config m"
  "m_subject_a (snd (ca_admit_classification K c m s now)) = m_subject_a m"
  "m_subject_b (snd (ca_admit_classification K c m s now)) = m_subject_b m"
  "m_policy_a (snd (ca_admit_classification K c m s now)) = m_policy_a m"
  "m_policy_b (snd (ca_admit_classification K c m s now)) = m_policy_b m"
  "m_port_a (snd (ca_admit_classification K c m s now)) = m_port_a m"
  "m_port_b (snd (ca_admit_classification K c m s now)) = m_port_b m"
  "m_ipv4_a (snd (ca_admit_classification K c m s now)) = m_ipv4_a m"
  "m_ipv4_b (snd (ca_admit_classification K c m s now)) = m_ipv4_b m"
  "m_ipv6_a (snd (ca_admit_classification K c m s now)) = m_ipv6_a m"
  "m_ipv6_b (snd (ca_admit_classification K c m s now)) = m_ipv6_b m"
  "m_flows (snd (ca_admit_classification K c m s now)) = m_flows m"
  "m_runtime (snd (ca_admit_classification K c m s now)) = m_runtime m"
  "m_stats (snd (ca_admit_classification K c m s now)) = m_stats m"
  by (auto simp: ca_admit_classification_def Let_def split: option.split prod.split)

lemma reserve_frame [simp, frame_simps]:
  "m_config (snd (ca_pending_reserve K m l)) = m_config m"
  "m_subject_a (snd (ca_pending_reserve K m l)) = m_subject_a m"
  "m_subject_b (snd (ca_pending_reserve K m l)) = m_subject_b m"
  "m_policy_a (snd (ca_pending_reserve K m l)) = m_policy_a m"
  "m_policy_b (snd (ca_pending_reserve K m l)) = m_policy_b m"
  "m_port_a (snd (ca_pending_reserve K m l)) = m_port_a m"
  "m_port_b (snd (ca_pending_reserve K m l)) = m_port_b m"
  "m_ipv4_a (snd (ca_pending_reserve K m l)) = m_ipv4_a m"
  "m_ipv4_b (snd (ca_pending_reserve K m l)) = m_ipv4_b m"
  "m_ipv6_a (snd (ca_pending_reserve K m l)) = m_ipv6_a m"
  "m_ipv6_b (snd (ca_pending_reserve K m l)) = m_ipv6_b m"
  "m_flows (snd (ca_pending_reserve K m l)) = m_flows m"
  "m_global_rate (snd (ca_pending_reserve K m l)) = m_global_rate m"
  "m_subject_rates (snd (ca_pending_reserve K m l)) = m_subject_rates m"
  "m_stats (snd (ca_pending_reserve K m l)) = m_stats m"
  by (auto simp: ca_pending_reserve_def Let_def split: option.split prod.split)

lemma release_frame [simp, frame_simps]:
  "m_config (ca_pending_release K m) = m_config m"
  "m_subject_a (ca_pending_release K m) = m_subject_a m"
  "m_subject_b (ca_pending_release K m) = m_subject_b m"
  "m_policy_a (ca_pending_release K m) = m_policy_a m"
  "m_policy_b (ca_pending_release K m) = m_policy_b m"
  "m_port_a (ca_pending_release K m) = m_port_a m"
  "m_port_b (ca_pending_release K m) = m_port_b m"
  "m_ipv4_a (ca_pending_release K m) = m_ipv4_a m"
  "m_ipv4_b (ca_pending_release K m) = m_ipv4_b m"
  "m_ipv6_a (ca_pending_release K m) = m_ipv6_a m"
  "m_ipv6_b (ca_pending_release K m) = m_ipv6_b m"
  "m_flows (ca_pending_release K m) = m_flows m"
  "m_global_rate (ca_pending_release K m) = m_global_rate m"
  "m_subject_rates (ca_pending_release K m) = m_subject_rates m"
  "m_stats (ca_pending_release K m) = m_stats m"
  by (auto simp: ca_pending_release_def split: option.split)

section \<open>Many CPUs on one word\<close>

text \<open>One step of the rate limiter: it opens a window, or counts in the one that is open.\<close>

lemma rate_step_cases:
  assumes "rate_step now limit old = Some w"
  obtains (opened) "high32 old \<noteq> window now" "w = pack64 (window now) 1"
  | (counted) "high32 old = window now" "unat (low32 old) < unat limit"
      "high32 w = window now" "unat (low32 w) = Suc (unat (low32 old))"
proof -
  obtain s c where old: "old = pack64 s c" by (rule pack64_cases)
  show thesis
  proof (cases "window now = s")
    case False
    with assms show thesis by (intro opened) (simp_all add: old rate_step_pack)
  next
    case True
    with assms have "\<not> limit \<le> c" and w: "w = pack64 s (c + 1)" by (auto simp: old rate_step_pack split: if_splits)
    then have lt: "unat c < unat limit" by (simp add: word_le_nat_alt)
    then have "unat (c + 1) = Suc (unat c)" using unat_u32_less [of limit] by (simp add: unat_inc)
    with lt True w show thesis by (intro counted) (simp_all add: old)
  qed
qed

text \<open>
  A system of any number of CPUs that run the limiter on the same word: the state is the word, what
  each CPU has read and not yet swapped with the time of its own packet (\<open>None\<close> between attempts),
  and the log of the steps installed so far, the latest first: the second of the CPU that was admitted and
  whether its step opened a window.  The times of the CPUs are not related: one that is slow to swap
  comes with an old second.  A CPU whose swap fails goes back to reading, or gives up; both leave it
  without a read value.
\<close>

inductive rate_system ::
    "u32 \<Rightarrow> u64 \<Rightarrow> u64 \<Rightarrow> (nat \<Rightarrow> (u64 \<times> u64) option) \<Rightarrow> (u32 \<times> bool) list \<Rightarrow> bool"
  for limit :: u32 and w0 :: u64 where
  start: "rate_system limit w0 w0 (\<lambda>_. None) []"
| read: "rate_system limit w0 w c log \<Longrightarrow> c i = None \<Longrightarrow> rate_system limit w0 w (c(i := Some (now, w))) log"
| refuse: "rate_system limit w0 w c log \<Longrightarrow> c i = Some (now, old) \<Longrightarrow> rate_step now limit old = None \<Longrightarrow>
     rate_system limit w0 w (c(i := None)) log"
| swap: "rate_system limit w0 w c log \<Longrightarrow> c i = Some (now, w) \<Longrightarrow> rate_step now limit w = Some nxt \<Longrightarrow>
     rate_system limit w0 nxt (c(i := None)) ((window now, high32 w \<noteq> window now) # log)"
| miss: "rate_system limit w0 w c log \<Longrightarrow> c i = Some (now, old) \<Longrightarrow> old \<noteq> w \<Longrightarrow>
     rate_system limit w0 w (c(i := None)) log"

text \<open>Admissions in second \<open>s\<close>, and how often its window was opened.\<close>

definition admitted :: "u32 \<Rightarrow> (u32 \<times> bool) list \<Rightarrow> nat" where
  "admitted s log = length (filter (\<lambda>x. fst x = s) log)"

definition openings :: "u32 \<Rightarrow> (u32 \<times> bool) list \<Rightarrow> nat" where
  "openings s log = length (filter (\<lambda>x. fst x = s \<and> snd x) log)"

lemma log_simps [simp]:
  "admitted s [] = 0" "openings s [] = 0"
  "admitted s ((t, b) # log) = of_bool (t = s) + admitted s log"
  "openings s ((t, b) # log) = of_bool (t = s \<and> b) + openings s log"
  by (simp_all add: admitted_def openings_def)

text \<open>
  What a window may still admit is taken from the allowance of its opening; a second whose window
  is not open has no claim to any.
\<close>

lemma rate_system_allowance:
  assumes "rate_system limit w0 w c log" and "0 < limit"
  shows "admitted s log + (if high32 w = s then unat limit - unat (low32 w) else 0) \<le>
    unat limit * (openings s log + of_bool (high32 w0 = s))"
  using assms(1)
proof (induction rule: rate_system.induct)
  case (swap w c log i now nxt)
  have l: "1 \<le> unat limit" using assms(2) by (simp add: word_less_nat_alt)
  from swap.hyps(3) show ?case
  proof (cases rule: rate_step_cases)
    case opened
    with swap.IH l show ?thesis by (auto simp: algebra_simps split: if_splits)
  next
    case counted
    with swap.IH show ?thesis by (auto split: if_splits)
  qed
qed simp_all

text \<open>The word carries the second of the latest admission.\<close>

lemma rate_system_last:
  "rate_system limit w0 w c log \<Longrightarrow> last (high32 w0 # map fst (rev log)) = high32 w"
proof (induction rule: rate_system.induct)
  case (swap w c log i now nxt)
  from swap.hyps(3) show ?case by (cases rule: rate_step_cases) simp_all
qed simp_all

lemma sorted_append_last: "sorted (xs @ [x]) \<Longrightarrow> xs \<noteq> [] \<Longrightarrow> sorted xs \<and> last xs \<le> (x :: 'a :: linorder)"
  by (auto simp: sorted_append)

text \<open>As long as no CPU comes with an older second than the word's, no window is opened twice.\<close>

lemma rate_system_openings:
  assumes "rate_system limit w0 w c log" and "sorted (high32 w0 # map fst (rev log))"
  shows "openings s log + of_bool (high32 w0 = s) \<le> of_bool (s \<le> high32 w)"
  using assms
proof (induction rule: rate_system.induct)
  case (swap w c log i now nxt)
  let ?seq = "high32 w0 # map fst (rev log)"
  have "sorted (?seq @ [window now])" using swap.prems by simp
  from sorted_append_last [OF this] have srt: "sorted ?seq" and "last ?seq \<le> window now" by simp_all
  then have le: "high32 w \<le> window now" using rate_system_last [OF swap.hyps(1)] by simp
  note IH = swap.IH [OF srt]
  from swap.hyps(3) show ?case
  proof (cases rule: rate_step_cases)
    case opened
    with le have "high32 w < window now" by simp
    then have "s \<le> high32 w \<Longrightarrow> s \<noteq> window now \<and> s \<le> window now" by auto
    with IH opened show ?thesis by (cases "s \<le> high32 w") auto
  next
    case counted
    with IH show ?thesis by simp
  qed
qed simp_all

text \<open>
  The same system for the pending word, with releases: a CPU that holds a reservation gives it
  back by one atomic subtraction.  The last argument counts the reservations held.
\<close>

inductive pending_system :: "u32 \<Rightarrow> u64 \<Rightarrow> (nat \<Rightarrow> u64 option) \<Rightarrow> nat \<Rightarrow> bool"
  for limit :: u32 where
  start: "pending_system limit 0 (\<lambda>_. None) 0"
| read: "pending_system limit w c n \<Longrightarrow> c i = None \<Longrightarrow> pending_system limit w (c(i := Some w)) n"
| refuse: "pending_system limit w c n \<Longrightarrow> c i = Some old \<Longrightarrow> pending_step limit old = None \<Longrightarrow>
     pending_system limit w (c(i := None)) n"
| reserve: "pending_system limit w c n \<Longrightarrow> c i = Some w \<Longrightarrow> pending_step limit w = Some nxt \<Longrightarrow>
     pending_system limit nxt (c(i := None)) (Suc n)"
| miss: "pending_system limit w c n \<Longrightarrow> c i = Some old \<Longrightarrow> old \<noteq> w \<Longrightarrow>
     pending_system limit w (c(i := None)) n"
| release: "pending_system limit w c (Suc n) \<Longrightarrow> pending_system limit (w - 1) c n"

lemma pending_system_inv:
  "pending_system limit w c n \<Longrightarrow>
     unat (low32 w) = n \<and> n \<le> unat limit \<and> unat (low32 w) \<le> unat (high32 w) \<and> unat (high32 w) \<le> unat limit"
proof (induction rule: pending_system.induct)
  case start
  show ?case by simp
next
  case (reserve w c n i nxt)
  obtain p k where w: "w = pack64 p k" by (rule pack64_cases)
  have k: "unat k = n" and lt: "unat k < unat limit" and nxt: "nxt = pack64 (max (k + 1) p) (k + 1)"
    using reserve by (auto simp: w pending_step_pack word_le_nat_alt split: if_splits)
  have "unat (k + 1) = Suc n"
    using k lt unat_u32_less [of limit] by (simp add: unat_inc)
  then show ?case
    using reserve.IH k lt by (auto simp: w nxt max_def word_le_nat_alt)
next
  case (release w c n)
  obtain p k where w: "w = pack64 p k" by (rule pack64_cases)
  have k: "unat k = Suc n" using release by (simp add: w)
  then have "k \<noteq> 0" by auto
  with k have "unat (k - 1) = n" by (simp add: unat_dec)
  then show ?case
    using release.IH by (simp add: w pack64_dec [OF \<open>k \<noteq> 0\<close>])
qed simp_all

section \<open>Properties\<close>

text \<open>
  C18 rate_limit_concurrent: any number of CPUs run the limiter under one limit on one word, each with the time
  of its own packet, whatever the word held before and however their reads and swaps interleave.  In
  every second at most \<open>limit\<close> are admitted for each time its window was opened (the window found at the
  start counts as one).  So if no CPU comes with an older second than the word already has, at
  most \<open>limit\<close> are admitted in that second.
\<close>

theorem rate_limit_concurrent:
  assumes "rate_system limit w0 w c log" and "0 < limit"
  shows "admitted s log \<le> unat limit * (openings s log + of_bool (high32 w0 = s)) \<and>
    (sorted (high32 w0 # map fst (rev log)) \<longrightarrow> admitted s log \<le> unat limit)"
proof -
  have all: "admitted s log \<le> unat limit * (openings s log + of_bool (high32 w0 = s))"
    using rate_system_allowance [OF assms, of s] by simp
  moreover have "admitted s log \<le> unat limit" if "sorted (high32 w0 # map fst (rev log))"
  proof -
    have "openings s log + of_bool (high32 w0 = s) \<le> 1"
      using rate_system_openings [OF assms(1) that, of s] by (rule order_trans) simp
    then have "unat limit * (openings s log + of_bool (high32 w0 = s)) \<le> unat limit" by simp
    with all show ?thesis by (rule order_trans)
  qed
  ultimately show ?thesis by blast
qed

text \<open>
  The condition on the seconds is needed: the code compares them with \<^verbatim>\<open>!=\<close>, so a CPU whose packet came in
  second 5 and which swaps after one of second 6 sets the window back, and second 6 starts anew.
\<close>

lemma rate_system_admit:
  assumes "rate_system limit w0 w (\<lambda>_. None) log" and "rate_step now limit w = Some nxt"
  shows "rate_system limit w0 nxt (\<lambda>_. None) ((window now, high32 w \<noteq> window now) # log)"
proof -
  have "rate_system limit w0 w ((\<lambda>_. None)(0 := Some (now, w))) log"
    by (rule rate_system.read [OF assms(1)]) simp
  then have "rate_system limit w0 nxt ((\<lambda>_. None)(0 := Some (now, w), 0 := None))
      ((window now, high32 w \<noteq> window now) # log)"
    by (rule rate_system.swap) (simp_all add: assms(2))
  then show ?thesis by simp
qed

lemma rate_system_opens:
  assumes "rate_system limit w0 w (\<lambda>_. None) log" and "high32 w \<noteq> window now"
  shows "rate_system limit w0 (pack64 (window now) 1) (\<lambda>_. None) ((window now, True) # log)"
proof -
  obtain t n where w: "w = pack64 t n" by (rule pack64_cases)
  have "rate_step now limit w = Some (pack64 (window now) 1)"
    using assms(2) by (simp add: w rate_step_pack)
  from rate_system_admit [OF assms(1) this] assms(2) show ?thesis by simp
qed

lemma stale_cpu_rewinds_window:
  "rate_system 1 0 (pack64 6 1) (\<lambda>_. None) [(6, True), (5, True), (6, True)] \<and>
    admitted 6 [(6, True), (5, True), (6, True)] = 2"
proof -
  have w: "window 6000000000 = 6" "window 5000000000 = 5" by (simp_all add: window_def)
  from rate_system_opens [OF rate_system.start, of 0 6000000000 1]
  have "rate_system 1 0 (pack64 6 1) (\<lambda>_. None) [(6, True)]" by (simp add: w)
  from rate_system_opens [OF this, of 5000000000]
  have "rate_system 1 0 (pack64 5 1) (\<lambda>_. None) [(5, True), (6, True)]" by (simp add: w)
  from rate_system_opens [OF this, of 6000000000] show ?thesis by (simp add: w)
qed

theorem rate_limit_concurrent_witness:
  "rate_system 1 0 (pack64 6 1) (\<lambda>_. None) [(6, True), (5, True)] \<and> admitted 6 [(6, True), (5, True)] \<le> unat (1 :: u32)"
proof -
  have w: "window 6000000000 = 6" "window 5000000000 = 5" by (simp_all add: window_def)
  from rate_system_opens [OF rate_system.start, of 0 5000000000 1]
  have "rate_system 1 0 (pack64 5 1) (\<lambda>_. None) [(5, True)]" by (simp add: w)
  from rate_system_opens [OF this, of 6000000000]
  have s: "rate_system 1 0 (pack64 6 1) (\<lambda>_. None) [(6, True), (5, True)]" by (simp add: w)
  with rate_limit_concurrent [OF s, of 6] show ?thesis by simp
qed

text \<open>
  C19 pending_bound_concurrent: under any interleaving of reservations and releases by any number
  of CPUs, the low half of the runtime word is exactly the number of reservations held, never
  more than the limit, and the high half is a peak that is at least the current count, so a
  release never borrows from it.
\<close>

theorem pending_bound_concurrent:
  assumes "pending_system limit w c n"
  shows "unat (low32 w) = n \<and> n \<le> unat limit \<and> n \<le> unat (high32 w) \<and> unat (high32 w) \<le> unat limit"
  using pending_system_inv [OF assms] by simp

theorem pending_bound_concurrent_witness:
  "pending_system 4 (pack64 1 0) (\<lambda>_. None) 0 \<and> unat (high32 (pack64 1 0)) \<le> unat (4 :: u32)"
proof -
  have step: "pending_step 4 0 = Some (pack64 1 1)"
    using pending_step_pack [of 4 0 0] by (simp add: pack64_def)
  have "pending_system 4 0 ((\<lambda>_. None)(0 := Some 0)) 0"
    by (rule pending_system.read [OF pending_system.start]) simp
  then have "pending_system 4 (pack64 1 1) ((\<lambda>_. None)(0 := Some 0, 0 := None)) (Suc 0)"
    by (rule pending_system.reserve) (simp_all add: step)
  then have "pending_system 4 (pack64 1 1) (\<lambda>_. None) (Suc 0)" by simp
  from pending_system.release [OF this] have s: "pending_system 4 (pack64 1 0) (\<lambda>_. None) 0"
    by (simp add: pack64_dec)
  with pending_bound_concurrent [OF s] show ?thesis by simp
qed

text \<open>
  When a CPU is admitted, despite any interference that itself
  respects the limit, the word it installed counts between one and \<open>limit\<close> admissions in the
  current second.
\<close>

theorem rate_take_current_window:
  assumes "ca_rate_take race w now limit = (True, w')"
    and "0 < limit" and "low32 w \<le> limit" and "\<And>n v. low32 v \<le> limit \<Longrightarrow> low32 (race n v) \<le> limit"
  shows "high32 w' = window now \<and> 1 \<le> unat (low32 w') \<and> low32 w' \<le> limit"
proof -
  obtain old where "rate_inv limit old" and step: "rate_step now limit old = Some w'"
    using rate.cas_loop_success [OF assms(1) [unfolded ca_rate_take_def]] assms(2-)
    unfolding rate_inv_def by blast
  from step show ?thesis
  proof (cases rule: rate_step_cases)
    case opened
    with assms(2) show ?thesis by (simp add: one_le_word)
  next
    case counted
    then show ?thesis by (simp add: word_le_nat_alt)
  qed
qed

theorem rate_take_current_window_witness:
  "ca_rate_take (\<lambda>_ v. v) 0 5000000000 3 = (True, pack64 5 1) \<and> low32 (pack64 5 1) \<le> (3 :: u32)"
proof -
  have step: "rate_step 5000000000 3 0 = Some (pack64 5 1)"
    using rate_step_pack [of 5000000000 3 0 0] by (simp add: window_def pack64_def)
  have "ca_rate_take (\<lambda>_ v. v) 0 5000000000 3 = (True, pack64 5 1)"
    using cas_loop_quiet [of 7 0 "rate_step 5000000000 3" 0] step by (simp add: ca_rate_take_def)
  with rate_take_current_window [OF this] show ?thesis by (simp add: low32_def)
qed

end
