(* ===== verification/Datapath.thy ===== *)
theory Datapath
  imports Classifier Admission
begin

text \<open>
  The packet handler \<^verbatim>\<open>ca_ingress\<close> of \<^verbatim>\<open>src/client-access-bpf.c\<close> and its steps.

  The handler is a function of the kernel, the pinned maps and the packet; it returns the TC
  action, the packet with its new mark and the maps, or \<open>None\<close> if a packet read faulted.  Its
  C body is cut at its comments: \<open>ca_ingress_known\<close> for a flow that is already in the table,
  \<open>ca_ingress_correlate\<close> for correlation-only mode, \<open>ca_ingress_admit\<close> for a new
  classification, with \<open>ca_load_shed\<close> as the common refusal.
\<close>

section \<open>Terminal classification\<close>

definition ca_record_terminal :: "ca_flow_state \<Rightarrow> bool \<Rightarrow> ca_maps \<Rightarrow> ca_maps" where
  "ca_record_terminal flow budget m =
     (let m1 = (if fs_classification_state flow = CA_FLOW_CLASSIFIED
                then if fs_class_kind flow = CA_CLASS_KIND_EXACT
                     then ca_stat_inc CA_STAT_FLOWS_CLASSIFIED_EXACT m
                     else ca_stat_inc CA_STAT_FLOWS_CLASSIFIED_CATEGORY m
                else let m' = ca_stat_inc CA_STAT_FLOWS_UNCLASSIFIED m
                     in if budget then ca_stat_inc CA_STAT_FLOWS_UNCLASSIFIED_BUDGET m' else m')
      in if fs_app_verdict flow = CA_VERDICT_DENY
         then ca_stat_inc CA_STAT_FLOW_APP_DENY_VERDICTS m1
         else ca_stat_inc CA_STAT_FLOW_APP_ALLOW_VERDICTS m1)"

definition ca_budget_exhausted :: "ca_config \<Rightarrow> ca_flow_state \<Rightarrow> u64 \<Rightarrow> bool" where
  "ca_budget_exhausted config flow now \<longleftrightarrow>
     cfg_max_packets_inspected config \<noteq> 1 \<or>
     fs_packets_examined flow \<ge> ucast (cfg_max_packets_inspected config) \<or>
     fs_bytes_examined flow \<ge> cfg_max_bytes_examined config \<or>
     now - fs_first_seen_ns flow \<ge> ucast (cfg_max_classification_age_ms config) * 1000000"

definition ca_try_terminal ::
    "kernel \<Rightarrow> ca_config \<Rightarrow> ca_flow_state \<Rightarrow> ca_flow_key \<Rightarrow> u32 \<Rightarrow> u64 \<Rightarrow> ca_maps
     \<Rightarrow> bool \<times> ca_flow_state \<times> ca_maps" where
  "ca_try_terminal K config flow key subject_id now m =
     (let (cls, kind, m1) = ca_classify K config key m;
          flow1 = flow\<lparr>fs_class_id := cls, fs_class_kind := kind\<rparr>;
          budget = ca_budget_exhausted config flow1 now;
          terminal = (\<lambda>f. (True, f\<lparr>fs_app_verdict := ca_policy_verdict config m1 subject_id (fs_class_id f),
                                  fs_app_policy_generation := cfg_app_policy_generation config\<rparr>, m1))
      in if fs_class_kind flow1 \<noteq> CA_CLASS_KIND_NONE
         then terminal (flow1\<lparr>fs_classification_state := CA_FLOW_CLASSIFIED\<rparr>)
         else if budget
         then terminal (flow1\<lparr>fs_class_id := CA_CLASS_UNCLASSIFIED,
                             fs_classification_state := CA_FLOW_UNCLASSIFIED_FINAL\<rparr>)
         else (False, flow1, m1))"

section \<open>Load shedding\<close>

definition shed_state :: "ca_config \<Rightarrow> ca_maps \<Rightarrow> u32 \<Rightarrow> u64 \<Rightarrow> ca_flow_state" where
  "shed_state config m subject_id now = zero_flow_state\<lparr>
     fs_first_seen_ns := now, fs_last_seen_ns := now,
     fs_app_policy_generation := cfg_app_policy_generation config,
     fs_classifier_generation := cfg_classifier_generation config,
     fs_class_id := CA_CLASS_UNCLASSIFIED,
     fs_classification_state := CA_FLOW_UNCLASSIFIED_FINAL,
     fs_app_verdict := ca_policy_verdict config m subject_id CA_CLASS_UNCLASSIFIED\<rparr>"

text \<open>
  Refreshing a terminal entry whose verdict was computed under another policy generation, and
  marking the packet with it.
\<close>

definition ca_cached_verdict ::
    "sk_buff \<Rightarrow> ca_config \<Rightarrow> ca_flow_key \<Rightarrow> u32 \<Rightarrow> ca_flow_state \<Rightarrow> ca_maps \<Rightarrow> int \<times> sk_buff \<times> ca_maps" where
  "ca_cached_verdict skb config key subject_id flow m =
     (if fs_app_policy_generation flow \<noteq> cfg_app_policy_generation config
      then let flow' = flow\<lparr>fs_app_verdict := ca_policy_verdict config m subject_id (fs_class_id flow),
                            fs_app_policy_generation := cfg_app_policy_generation config\<rparr>;
               m' = ca_stat_inc CA_STAT_POLICY_REEVALUATIONS (m\<lparr>m_flows := (m_flows m)(key \<mapsto> flow')\<rparr>)
           in ca_emit_app_verdict skb (fs_app_verdict flow') m'
      else ca_emit_app_verdict skb (fs_app_verdict flow) m)"

definition ca_load_shed ::
    "kernel \<Rightarrow> sk_buff \<Rightarrow> ca_config \<Rightarrow> ca_flow_key \<Rightarrow> u32 \<Rightarrow> u64 \<Rightarrow> ca_maps \<Rightarrow> int \<times> sk_buff \<times> ca_maps" where
  "ca_load_shed K skb config key subject_id now m =
     (let terminal = shed_state config m subject_id now;
          m1 = ca_stat_inc CA_STAT_CLASSIFICATION_ADMISSION_DENIED m;
          (err, flows) = mo_update (kn_flows K) (m_flows m1) key terminal BPF_NOEXIST;
          m2 = m1\<lparr>m_flows := flows\<rparr>
      in if err = 0
         then let m3 = ca_stat_inc CA_STAT_FLOWS_TOTAL m2;
                  m4 = ca_stat_inc CA_STAT_FLOWS_UNCLASSIFIED_LOAD_SHED m3;
                  m5 = ca_record_terminal terminal False m4
              in ca_emit_app_verdict skb (fs_app_verdict terminal) m5
         else case m_flows m2 key of
                Some existing \<Rightarrow>
                  let existing' = existing\<lparr>fs_last_seen_ns := now\<rparr>;
                      m3 = m2\<lparr>m_flows := (m_flows m2)(key \<mapsto> existing')\<rparr>
                  in if fs_classification_state existing' = CA_FLOW_PENDING
                     then ca_emit_app_verdict skb (cfg_provisional_app_verdict config) m3
                     else ca_cached_verdict skb config key subject_id existing' m3
              | None \<Rightarrow>
                  ca_emit_app_verdict skb (fs_app_verdict terminal) (ca_stat_inc CA_STAT_FLOW_MAP_FULL m2))"

section \<open>The handler\<close>

text \<open>
  A flow that is in the table: \<open>Inl\<close> is the early return, \<open>Inr\<close> goes on with the state in which
  a record without a class has been removed.
\<close>

definition ca_ingress_known ::
    "kernel \<Rightarrow> sk_buff \<Rightarrow> ca_config \<Rightarrow> ca_flow_key \<Rightarrow> u32 \<Rightarrow> u64 \<Rightarrow> ca_maps
     \<Rightarrow> (int \<times> sk_buff \<times> ca_maps) + ca_maps" where
  "ca_ingress_known K skb config flow_key subject_id now m =
     (case m_flows m flow_key of
        None \<Rightarrow> Inr m
      | Some flow \<Rightarrow>
          let flow' = flow\<lparr>fs_last_seen_ns := now\<rparr>;
              m1 = m\<lparr>m_flows := (m_flows m)(flow_key \<mapsto> flow')\<rparr>
          in if cfg_app_enforcement_enabled config = 0 then Inl (TC_ACT_UNSPEC, skb, m1)
             else if fs_classification_state flow' = CA_FLOW_PENDING
             then Inl (ca_emit_app_verdict skb (cfg_provisional_app_verdict config) m1)
             else if fs_class_kind flow' \<noteq> CA_CLASS_KIND_NONE
             then Inl (ca_cached_verdict skb config flow_key subject_id flow' m1)
             else Inr (m1\<lparr>m_flows := snd (mo_delete (kn_flows K) (m_flows m1) flow_key)\<rparr>))"

definition ca_ingress_correlate ::
    "kernel \<Rightarrow> sk_buff \<Rightarrow> ca_config \<Rightarrow> ca_flow_key \<Rightarrow> u64 \<Rightarrow> ca_maps \<Rightarrow> int \<times> sk_buff \<times> ca_maps" where
  "ca_ingress_correlate K skb config flow_key now m =
     (let initial = zero_flow_state\<lparr>
            fs_first_seen_ns := now, fs_last_seen_ns := now,
            fs_app_policy_generation := cfg_app_policy_generation config,
            fs_classifier_generation := cfg_classifier_generation config,
            fs_class_id := CA_CLASS_UNCLASSIFIED,
            fs_classification_state := CA_FLOW_UNCLASSIFIED_FINAL,
            fs_app_verdict := CA_VERDICT_ALLOW\<rparr>;
          (err, flows) = mo_update (kn_flows K) (m_flows m) flow_key initial BPF_NOEXIST;
          m1 = m\<lparr>m_flows := flows\<rparr>
      in if err = 0 then (TC_ACT_UNSPEC, skb, ca_stat_inc CA_STAT_FLOWS_TOTAL m1)
         else if m_flows m1 flow_key = None then (TC_ACT_UNSPEC, skb, ca_stat_inc CA_STAT_FLOW_MAP_FULL m1)
         else (TC_ACT_UNSPEC, skb, m1))"

definition initial_state :: "ca_config \<Rightarrow> u32 \<Rightarrow> u64 \<Rightarrow> ca_flow_state" where
  "initial_state config examined now = zero_flow_state\<lparr>
     fs_first_seen_ns := now, fs_last_seen_ns := now,
     fs_app_policy_generation := cfg_app_policy_generation config,
     fs_classifier_generation := cfg_classifier_generation config,
     fs_packets_examined := 1, fs_bytes_examined := examined,
     fs_class_id := CA_CLASS_UNCLASSIFIED, fs_classification_state := CA_FLOW_PENDING,
     fs_app_verdict := cfg_provisional_app_verdict config\<rparr>"

definition ca_ingress_classify ::
    "kernel \<Rightarrow> sk_buff \<Rightarrow> ca_config \<Rightarrow> ca_flow_key \<Rightarrow> u32 \<Rightarrow> u32 \<Rightarrow> u64 \<Rightarrow> ca_maps
     \<Rightarrow> int \<times> sk_buff \<times> ca_maps" where
  "ca_ingress_classify K skb config flow_key subject_id examined now m =
     (let initial = initial_state config examined now;
          (err, flows) = mo_update (kn_flows K) (m_flows m) flow_key initial BPF_NOEXIST;
          m1 = m\<lparr>m_flows := flows\<rparr>
      in if err \<noteq> 0 then ca_load_shed K skb config flow_key subject_id now (ca_pending_release K m1)
         else let m2 = ca_stat_inc CA_STAT_FLOWS_TOTAL m1;
                  m3 = ca_stat_inc CA_STAT_FLOWS_PENDING m2;
                  m4 = ca_stat_inc CA_STAT_CLASSIFICATION_PACKETS m3;
                  m5 = ca_stat_add CA_STAT_CLASSIFICATION_BYTES (ucast examined) m4;
                  (terminal, initial', m6) = ca_try_terminal K config initial flow_key subject_id now m5;
                  (err2, flows2) = mo_update (kn_flows K) (m_flows m6) flow_key initial' BPF_EXIST;
                  m7 = m6\<lparr>m_flows := flows2\<rparr>
              in if err2 \<noteq> 0
                 then let m8 = ca_pending_release K m7;
                          m9 = m8\<lparr>m_flows := snd (mo_delete (kn_flows K) (m_flows m8) flow_key)\<rparr>
                      in ca_load_shed K skb config flow_key subject_id now m9
                 else let m8 = (if terminal
                                then ca_record_terminal initial'
                                       (fs_classification_state initial' = CA_FLOW_UNCLASSIFIED_FINAL)
                                       (ca_pending_release K m7)
                                else m7)
                      in ca_emit_app_verdict skb (cfg_provisional_app_verdict config) m8)"

definition ca_ingress_admit ::
    "kernel \<Rightarrow> sk_buff \<Rightarrow> ca_config \<Rightarrow> ca_flow_key \<Rightarrow> u32 \<Rightarrow> u32 \<Rightarrow> u64 \<Rightarrow> ca_maps
     \<Rightarrow> int \<times> sk_buff \<times> ca_maps" where
  "ca_ingress_admit K skb config flow_key subject_id examined now m =
     (let (admitted, m1) = ca_admit_classification K config m subject_id now
      in if \<not> admitted then ca_load_shed K skb config flow_key subject_id now m1
         else let (reserved, m2) = ca_pending_reserve K m1 (cfg_max_pending_entries config)
              in if \<not> reserved then ca_load_shed K skb config flow_key subject_id now m2
                 else ca_ingress_classify K skb config flow_key subject_id examined now m2)"

definition ca_ingress_subject ::
    "kernel \<Rightarrow> sk_buff \<Rightarrow> ca_config \<Rightarrow> ca_flow_key \<Rightarrow> u32 \<Rightarrow> u32 \<Rightarrow> ca_maps \<Rightarrow> int \<times> sk_buff \<times> ca_maps" where
  "ca_ingress_subject K skb config flow_key0 subject_id examined m =
     (let flow_key = flow_key0\<lparr>fk_subject_id := subject_id\<rparr>;
          now = kn_ktime_get_ns K
      in case ca_ingress_known K skb config flow_key subject_id now m of
           Inl r \<Rightarrow> r
         | Inr m1 \<Rightarrow>
             if cfg_app_enforcement_enabled config = 0
             then ca_ingress_correlate K skb config flow_key now m1
             else ca_ingress_admit K skb config flow_key subject_id examined now m1)"

definition ca_ingress :: "kernel \<Rightarrow> ca_maps \<Rightarrow> sk_buff \<Rightarrow> (int \<times> sk_buff \<times> ca_maps) option" where
  "ca_ingress K m skb0 =
     (let skb = skb0\<lparr>skb_mark := skb_mark skb0 AND NOT CA_APP_MARK_MASK\<rparr> in
      case m_config m 0 of
        None \<Rightarrow> Some (TC_ACT_UNSPEC, skb, m)
      | Some config \<Rightarrow>
          if cfg_enabled config = 0 then Some (TC_ACT_UNSPEC, skb, m) else do {
            let m1 = ca_stat_inc CA_STAT_PACKETS m;
            (parsed, flow_key, mac, examined) \<leftarrow>
              ca_parse_flow (skb_data skb) (skb_len skb) zero_flow_key zero_mac 0;
            if parsed = CA_PARSE_NO_ETHERNET then Some (TC_ACT_UNSPEC, skb, m1)
            else case ca_subject_lookup config m1 mac of
                None \<Rightarrow>
                  let m2 = ca_stat_inc CA_STAT_UNKNOWN_SUBJECT_PACKETS m1
                  in Some (if cfg_app_enforcement_enabled config \<noteq> 0
                           then ca_emit_app_verdict skb (cfg_unknown_subject_app_verdict config) m2
                           else (TC_ACT_UNSPEC, skb, m2))
              | Some subject_id \<Rightarrow>
                  if parsed \<noteq> CA_PARSE_OK
                  then let m2 = ca_stat_inc CA_STAT_PARSE_UNSUPPORTED m1
                       in Some (if cfg_app_enforcement_enabled config \<noteq> 0
                                then ca_emit_app_verdict skb
                                       (ca_policy_verdict config m2 subject_id CA_CLASS_UNCLASSIFIED) m2
                                else (TC_ACT_UNSPEC, skb, m2))
                  else Some (ca_ingress_subject K skb config flow_key subject_id examined m1)
          })"

end
