(* ===== verification/Datapath_Frame.thy ===== *)
theory Datapath_Frame
  imports Datapath
begin

text \<open>
  What the packet handler leaves alone: the configuration, the schema word and both slots of the
  published snapshot (\<open>snapshot_of\<close>), the bytes of the packet and the mark bits other programs
  own; and that what it does depends on the active slot only (\<open>overlay\<close>).
\<close>

section \<open>The published snapshot is read-only\<close>

definition snapshot_of where
  "snapshot_of m = ((m_config m, m_mark_schema m),
     (m_subject_a m, m_policy_a m, m_port_a m, m_ipv4_a m, m_ipv6_a m),
     (m_subject_b m, m_policy_b m, m_port_b m, m_ipv4_b m, m_ipv6_b m))"

lemma snapshot_of_upd [simp]:
  "snapshot_of (m\<lparr>m_flows := x\<rparr>) = snapshot_of m"
  "snapshot_of (m\<lparr>m_runtime := r\<rparr>) = snapshot_of m"
  "snapshot_of (m\<lparr>m_global_rate := g\<rparr>) = snapshot_of m"
  "snapshot_of (m\<lparr>m_subject_rates := s\<rparr>) = snapshot_of m"
  "snapshot_of (m\<lparr>m_stats := t\<rparr>) = snapshot_of m"
  by (simp_all add: snapshot_of_def)

lemma snapshot_of_stat [simp]:
  "snapshot_of (ca_stat_add i n m) = snapshot_of m" "snapshot_of (ca_stat_inc i m) = snapshot_of m"
  by (simp_all add: snapshot_of_def)

lemma snapshot_same_active: "snapshot_of m = snapshot_of m' \<Longrightarrow> same_active c m m'"
  by (simp add: snapshot_of_def same_active_def)

lemma snapshot_verdict:
  "snapshot_of m = snapshot_of m' \<Longrightarrow> ca_policy_verdict c m s k = ca_policy_verdict c m' s k"
  by (rule same_active_verdict [OF snapshot_same_active])

lemma snapshot_of_admission [simp]:
  "snapshot_of (ca_pending_release K m) = snapshot_of m"
  "snapshot_of (snd (ca_pending_reserve K m l)) = snapshot_of m"
  "snapshot_of (snd (ca_admit_classification K c m s now)) = snapshot_of m"
  by (auto simp: ca_pending_release_def ca_pending_reserve_def ca_admit_classification_def Let_def
      split: option.split prod.split)

lemma verdict_upd [simp]:
  "ca_policy_verdict c (m\<lparr>m_flows := x\<rparr>) s k = ca_policy_verdict c m s k"
  "ca_policy_verdict c (ca_stat_add i n m) s k = ca_policy_verdict c m s k"
  "ca_policy_verdict c (ca_stat_inc i m) s k = ca_policy_verdict c m s k"
  "ca_policy_verdict c (ca_pending_release K m) s k = ca_policy_verdict c m s k"
  by (rule snapshot_verdict; simp)+

lemma snapshot_of_emit [simp]: "snapshot_of (snd (snd (ca_emit_app_verdict skb v m))) = snapshot_of m"
  by (simp add: emit_maps)

lemma snapshot_of_classify [simp]: "snapshot_of (snd (snd (ca_classify K c k m))) = snapshot_of m"
  by (simp add: ca_classify_def Let_def split: prod.split)

lemma snapshot_of_record [simp]: "snapshot_of (ca_record_terminal f b m) = snapshot_of m"
  by (simp add: ca_record_terminal_def Let_def)

lemma snapshot_of_try [simp]: "snapshot_of (snd (snd (ca_try_terminal K c f k s now m))) = snapshot_of m"
  using snapshot_of_classify [of K c k m]
  by (auto simp: ca_try_terminal_def Let_def simp del: snapshot_of_classify split: prod.split)

section \<open>Well-behaved results\<close>

text \<open>
  A step leaves the snapshot, the packet bytes and the foreign mark bits alone, answers
  \<^verbatim>\<open>TC_ACT_UNSPEC\<close>, and either passes the packet as it is or stamps it with a verdict.
\<close>

definition well_behaved :: "ca_maps \<Rightarrow> sk_buff \<Rightarrow> int \<times> sk_buff \<times> ca_maps \<Rightarrow> bool" where
  "well_behaved m skb r \<longleftrightarrow>
     fst r = TC_ACT_UNSPEC \<and> skb_data (fst (snd r)) = skb_data skb \<and> skb_len (fst (snd r)) = skb_len skb \<and>
     foreign_bits (skb_mark (fst (snd r))) = foreign_bits (skb_mark skb) \<and>
     (fst (snd r) = skb \<or> mark_verdict (skb_mark (fst (snd r))) \<noteq> None) \<and>
     snapshot_of (snd (snd r)) = snapshot_of m"

lemma well_behaved_emit [simp, intro]:
  "snapshot_of m' = snapshot_of m \<Longrightarrow> well_behaved m skb (ca_emit_app_verdict skb v m')"
  by (simp add: well_behaved_def emit_skb)

lemma well_behaved_pass [simp, intro]:
  "snapshot_of m' = snapshot_of m \<Longrightarrow> well_behaved m skb (TC_ACT_UNSPEC, skb, m')"
  by (simp add: well_behaved_def)

lemma well_behaved_cached [simp, intro]:
  "snapshot_of m' = snapshot_of m \<Longrightarrow> well_behaved m skb (ca_cached_verdict skb c k s f m')"
  by (simp add: ca_cached_verdict_def Let_def)

lemma well_behaved_shed [simp, intro]:
  "snapshot_of m' = snapshot_of m \<Longrightarrow> well_behaved m skb (ca_load_shed K skb c k s now m')"
  by (auto simp: ca_load_shed_def Let_def split: prod.split option.split)

lemma well_behaved_classify:
  "snapshot_of m' = snapshot_of m \<Longrightarrow> well_behaved m skb (ca_ingress_classify K skb c k s ex now m')"
  by (simp add: ca_ingress_classify_def Let_def split_beta)

lemma well_behaved_admit:
  assumes "snapshot_of m' = snapshot_of m"
  shows "well_behaved m skb (ca_ingress_admit K skb c k s ex now m')"
proof -
  obtain a m1 where 1: "ca_admit_classification K c m' s now = (a, m1)" by force
  obtain r m2 where 2: "ca_pending_reserve K m1 (cfg_max_pending_entries c) = (r, m2)" by force
  have "snapshot_of m1 = snapshot_of m"
    using snapshot_of_admission(3) [of K c m' s now] assms 1 by simp
  moreover have "snapshot_of m2 = snapshot_of m1"
    using snapshot_of_admission(2) [of K m1 "cfg_max_pending_entries c"] 2 by simp
  ultimately show ?thesis
    by (simp add: ca_ingress_admit_def 1 2 well_behaved_classify)
qed

lemma well_behaved_subject:
  assumes "snapshot_of m' = snapshot_of m"
  shows "well_behaved m skb (ca_ingress_subject K skb c k s ex m')"
  using assms
  by (auto simp: ca_ingress_subject_def ca_ingress_known_def ca_ingress_correlate_def Let_def
      intro: well_behaved_admit split: option.split prod.split)

lemma ca_ingress_cases:
  assumes "ca_ingress K m skb0 = Some r"
  obtains (off) "r = (TC_ACT_UNSPEC, skb0\<lparr>skb_mark := skb_mark skb0 AND NOT CA_APP_MARK_MASK\<rparr>, m)"
      "\<And>c. m_config m 0 = Some c \<Longrightarrow> cfg_enabled c = 0"
  | (on) c parsed key mac ex where "m_config m 0 = Some c" "cfg_enabled c \<noteq> 0"
      "ca_parse_flow (skb_data skb0) (skb_len skb0) zero_flow_key zero_mac 0 = Some (parsed, key, mac, ex)"
      "r = (let skb = skb0\<lparr>skb_mark := skb_mark skb0 AND NOT CA_APP_MARK_MASK\<rparr>;
                m1 = ca_stat_inc CA_STAT_PACKETS m in
        if parsed = CA_PARSE_NO_ETHERNET then (TC_ACT_UNSPEC, skb, m1)
        else case ca_subject_lookup c m1 mac of
          None \<Rightarrow> let m2 = ca_stat_inc CA_STAT_UNKNOWN_SUBJECT_PACKETS m1 in
            if cfg_app_enforcement_enabled c \<noteq> 0
            then ca_emit_app_verdict skb (cfg_unknown_subject_app_verdict c) m2
            else (TC_ACT_UNSPEC, skb, m2)
        | Some s \<Rightarrow>
            if parsed \<noteq> CA_PARSE_OK
            then let m2 = ca_stat_inc CA_STAT_PARSE_UNSUPPORTED m1 in
              if cfg_app_enforcement_enabled c \<noteq> 0
              then ca_emit_app_verdict skb (ca_policy_verdict c m2 s CA_CLASS_UNCLASSIFIED) m2
              else (TC_ACT_UNSPEC, skb, m2)
            else ca_ingress_subject K skb c key s ex m1)"
proof (cases "m_config m 0")
  case None
  with assms off show ?thesis by (simp add: ca_ingress_def)
next
  case (Some c)
  show ?thesis
  proof (cases "cfg_enabled c = 0")
    case True
    with assms Some off show ?thesis by (simp add: ca_ingress_def)
  next
    case False
    obtain parsed key mac ex where
      p: "ca_parse_flow (skb_data skb0) (skb_len skb0) zero_flow_key zero_mac 0 = Some (parsed, key, mac, ex)"
      using ca_parse_flow_defined by (metis definedE prod_cases4)
    show ?thesis
      by (rule on [OF Some False p], use assms Some False p in \<open>simp add: ca_ingress_def Let_def\<close>)
         (auto simp: Let_def split: option.splits if_splits)
  qed
qed

lemma ca_ingress_defined: "defined (ca_ingress K m skb)"
  unfolding ca_ingress_def Let_def
  by (auto intro!: bind_defined ca_parse_flow_defined split: option.split)

lemma well_behaved_ingress:
  assumes "ca_ingress K m skb0 = Some r"
  shows "well_behaved m (skb0\<lparr>skb_mark := skb_mark skb0 AND NOT CA_APP_MARK_MASK\<rparr>) r"
  using assms
proof (cases rule: ca_ingress_cases)
  case off
  then show ?thesis by simp
next
  case (on c parsed key mac ex)
  show ?thesis
    unfolding on(4) Let_def by (auto simp: well_behaved_subject split: option.split)
qed

section \<open>The inactive slot is not read\<close>

text \<open>\<open>overlay c s m\<close> is \<open>m\<close> with the inactive slot of \<open>c\<close> replaced by that of \<open>s\<close>.\<close>

definition overlay :: "ca_config \<Rightarrow> ca_maps \<Rightarrow> ca_maps \<Rightarrow> ca_maps" where
  "overlay c s m =
     (if cfg_active_slot c = 0
      then m\<lparr>m_subject_b := m_subject_b s, m_policy_b := m_policy_b s, m_port_b := m_port_b s,
             m_ipv4_b := m_ipv4_b s, m_ipv6_b := m_ipv6_b s\<rparr>
      else m\<lparr>m_subject_a := m_subject_a s, m_policy_a := m_policy_a s, m_port_a := m_port_a s,
             m_ipv4_a := m_ipv4_a s, m_ipv6_a := m_ipv6_a s\<rparr>)"

lemma overlay_fields [simp]:
  "m_config (overlay c s m) = m_config m" "m_flows (overlay c s m) = m_flows m"
  "m_global_rate (overlay c s m) = m_global_rate m" "m_subject_rates (overlay c s m) = m_subject_rates m"
  "m_runtime (overlay c s m) = m_runtime m" "m_stats (overlay c s m) = m_stats m"
  by (simp_all add: overlay_def)

lemma overlay_upd [simp]:
  "(overlay c s m)\<lparr>m_flows := x\<rparr> = overlay c s (m\<lparr>m_flows := x\<rparr>)"
  "(overlay c s m)\<lparr>m_runtime := r\<rparr> = overlay c s (m\<lparr>m_runtime := r\<rparr>)"
  "(overlay c s m)\<lparr>m_global_rate := g\<rparr> = overlay c s (m\<lparr>m_global_rate := g\<rparr>)"
  "(overlay c s m)\<lparr>m_subject_rates := t\<rparr> = overlay c s (m\<lparr>m_subject_rates := t\<rparr>)"
  "(overlay c s m)\<lparr>m_stats := u\<rparr> = overlay c s (m\<lparr>m_stats := u\<rparr>)"
  by (simp_all add: overlay_def)

lemma same_active_overlay: "same_active c (overlay c s m) m"
  by (simp add: same_active_def overlay_def)

lemma overlay_lookups [simp]:
  "ca_subject_lookup c (overlay c s m) = ca_subject_lookup c m"
  "ca_port_lookup c (overlay c s m) = ca_port_lookup c m"
  "ca_ipv4_lookup K c (overlay c s m) = ca_ipv4_lookup K c m"
  "ca_ipv6_lookup K c (overlay c s m) = ca_ipv6_lookup K c m"
  "ca_policy_verdict c (overlay c s m) = ca_policy_verdict c m"
  by (rule same_active_lookups [OF same_active_overlay]
        ext [OF ext [OF same_active_verdict [OF same_active_overlay]]])+

lemma overlay_stat [simp]:
  "ca_stat_add i n (overlay c s m) = overlay c s (ca_stat_add i n m)"
  "ca_stat_inc i (overlay c s m) = overlay c s (ca_stat_inc i m)"
  by (simp_all add: ca_stat_inc_def ca_stat_add_def split: option.split)

definition on_maps :: "(ca_maps \<Rightarrow> ca_maps) \<Rightarrow> int \<times> sk_buff \<times> ca_maps \<Rightarrow> int \<times> sk_buff \<times> ca_maps" where
  "on_maps f r = (fst r, fst (snd r), f (snd (snd r)))"

lemma on_maps_simps [simp]: "on_maps f (a, k, m) = (a, k, f m)"
  by (simp add: on_maps_def)

lemma overlay_emit [simp]:
  "ca_emit_app_verdict skb v (overlay c s m) = on_maps (overlay c s) (ca_emit_app_verdict skb v m)"
  by (simp add: ca_emit_app_verdict_def Let_def)

lemma overlay_record [simp]:
  "ca_record_terminal f b (overlay c s m) = overlay c s (ca_record_terminal f b m)"
  by (simp add: ca_record_terminal_def Let_def)

lemma overlay_release [simp]: "ca_pending_release K (overlay c s m) = overlay c s (ca_pending_release K m)"
  by (simp add: ca_pending_release_def split: option.split)

lemma overlay_reserve [simp]:
  "ca_pending_reserve K (overlay c s m) l = map_prod id (overlay c s) (ca_pending_reserve K m l)"
  by (simp add: ca_pending_reserve_def Let_def split: option.split prod.split)

lemma overlay_admit_classification [simp]:
  "ca_admit_classification K c (overlay c s m) sid now =
     map_prod id (overlay c s) (ca_admit_classification K c m sid now)"
  by (simp add: ca_admit_classification_def Let_def split_beta split: option.split)

lemma overlay_hints [simp]:
  "ca_prefix_hint K c (overlay c s m) k = ca_prefix_hint K c m k"
  "ca_port_hint c (overlay c s m) k = ca_port_hint c m k"
  by (simp_all add: ca_prefix_hint_def ca_port_hint_def)

lemma overlay_classify [simp]:
  "ca_classify K c k (overlay c s m) = map_prod id (map_prod id (overlay c s)) (ca_classify K c k m)"
  by (simp add: ca_classify_def Let_def split_beta)

lemma overlay_try [simp]:
  "ca_try_terminal K c f k sid now (overlay c s m) =
     map_prod id (map_prod id (overlay c s)) (ca_try_terminal K c f k sid now m)"
  by (simp add: ca_try_terminal_def Let_def split_beta)

lemma overlay_cached [simp]:
  "ca_cached_verdict skb c k sid f (overlay c s m) = on_maps (overlay c s) (ca_cached_verdict skb c k sid f m)"
  by (simp add: ca_cached_verdict_def Let_def)

lemma overlay_shed [simp]:
  "ca_load_shed K skb c k sid now (overlay c s m) = on_maps (overlay c s) (ca_load_shed K skb c k sid now m)"
  by (simp add: ca_load_shed_def Let_def split_beta shed_state_def split: option.split)

lemma overlay_correlate [simp]:
  "ca_ingress_correlate K skb c k now (overlay c s m) =
     on_maps (overlay c s) (ca_ingress_correlate K skb c k now m)"
  by (simp add: ca_ingress_correlate_def Let_def split_beta)

lemma overlay_known [simp]:
  "ca_ingress_known K skb c k sid now (overlay c s m) =
     map_sum (on_maps (overlay c s)) (overlay c s) (ca_ingress_known K skb c k sid now m)"
  by (simp add: ca_ingress_known_def Let_def split: option.split)

lemma overlay_ingress_classify [simp]:
  "ca_ingress_classify K skb c k sid ex now (overlay c s m) =
     on_maps (overlay c s) (ca_ingress_classify K skb c k sid ex now m)"
  by (simp add: ca_ingress_classify_def Let_def split_beta)

lemma overlay_admit [simp]:
  "ca_ingress_admit K skb c k sid ex now (overlay c s m) =
     on_maps (overlay c s) (ca_ingress_admit K skb c k sid ex now m)"
  by (simp add: ca_ingress_admit_def Let_def split_beta)

lemma overlay_subject [simp]:
  "ca_ingress_subject K skb c k sid ex (overlay c s m) =
     on_maps (overlay c s) (ca_ingress_subject K skb c k sid ex m)"
  by (auto simp: ca_ingress_subject_def Let_def split: sum.split)

lemma ca_ingress_overlay:
  assumes "m_config m 0 = Some c"
  shows "ca_ingress K (overlay c s m) skb = map_option (on_maps (overlay c s)) (ca_ingress K m skb)"
proof (cases "cfg_enabled c = 0")
  case True
  with assms show ?thesis by (simp add: ca_ingress_def)
next
  case False
  obtain parsed key mac ex where
    "ca_parse_flow (skb_data skb) (skb_len skb) zero_flow_key zero_mac 0 = Some (parsed, key, mac, ex)"
    using ca_parse_flow_defined by (metis definedE prod_cases4)
  with assms False show ?thesis
    by (simp add: ca_ingress_def Let_def split: option.split)
qed

end
