(* ===== verification/Snapshot_Sync.thy ===== *)
theory Snapshot_Sync
  imports Snapshot_Wf Control Datapath_Frame
begin

text \<open>
  Publication of a snapshot, \<^verbatim>\<open>ca_bpf_snapshot_sync\<close> of \<^verbatim>\<open>src/bpf-snapshot.c\<close>:
  the inactive slot is emptied and filled, and one locked store of the configuration makes it
  active.  A step is a function of the state that may not return (\<open>None\<close>), and gives a status;
  the sequence stops at the first step that fails, as the code does by its \<^verbatim>\<open>goto out\<close>.
\<close>

section \<open>Sequences of steps\<close>

type_synonym 's step = "'s \<Rightarrow> (int \<times> 's) option"

primrec run_steps :: "'s step list \<Rightarrow> 's step" where
  "run_steps [] s = Some (0, s)"
| "run_steps (f # fs) s =
     (case f s of
        None \<Rightarrow> None
      | Some (e, s') \<Rightarrow> if e \<noteq> 0 then Some (e, s') else run_steps fs s')"

text \<open>A step on one component of the state.\<close>

definition on_part :: "('s \<Rightarrow> 'a) \<Rightarrow> ('a \<Rightarrow> 's \<Rightarrow> 's) \<Rightarrow> 'a step \<Rightarrow> 's step" where
  "on_part get put f s = (case f (get s) of None \<Rightarrow> None | Some (e, x) \<Rightarrow> Some (e, put x s))"

lemma run_steps_append:
  "run_steps (fs @ gs) s =
     (case run_steps fs s of None \<Rightarrow> None | Some (e, s') \<Rightarrow> if e \<noteq> 0 then Some (e, s') else run_steps gs s')"
  by (induction fs arbitrary: s) (simp_all split: option.split prod.split)

section \<open>Filling a map\<close>

primrec populate :: "('k, 'v) map_ops \<Rightarrow> ('k \<times> 'v) list \<Rightarrow> ('k \<rightharpoonup> 'v) step" where
  "populate ops [] m = Some (0, m)"
| "populate ops (e # es) m =
     (if fst (mo_update ops m (fst e) (snd e) BPF_NOEXIST) \<noteq> 0
      then Some (fst (mo_update ops m (fst e) (snd e) BPF_NOEXIST), snd (mo_update ops m (fst e) (snd e) BPF_NOEXIST))
      else populate ops es (snd (mo_update ops m (fst e) (snd e) BPF_NOEXIST)))"

lemma populate_returns: "\<exists>r. populate ops es m = Some r"
  by (induction es arbitrary: m) simp_all

text \<open>A map filled without error held none of the keys before, and they are distinct.\<close>

lemma populate_ok:
  assumes ok: "map_ok ops"
  shows "populate ops es m = Some (0, m') \<Longrightarrow>
    m' = m ++ map_of es \<and> distinct (map fst es) \<and> dom m \<inter> set (map fst es) = {}"
proof (induction es arbitrary: m)
  case Nil
  then show ?case by simp
next
  case (Cons e es)
  obtain k v where e: "e = (k, v)" by (cases e)
  let ?u = "mo_update ops m k v BPF_NOEXIST"
  have u: "fst ?u = 0" and run: "populate ops es (snd ?u) = Some (0, m')"
    using Cons.prems by (auto simp: e split: if_splits)
  have absent: "m k = None" and upd: "snd ?u = m(k \<mapsto> v)"
    using ok u unfolding map_ok_def map_update_ok_def by metis+
  have "populate ops es (m(k \<mapsto> v)) = Some (0, m')" using run unfolding upd .
  note IH = Cons.IH [OF this]
  then have k: "k \<notin> set (map fst es)" by auto
  then have eq: "m(k \<mapsto> v) ++ map_of es = m ++ map_of (e # es)"
    unfolding e by (simp add: map_add_upd_left dom_map_of_conv_image_fst)
  have "m' = m ++ map_of (e # es)" by (rule trans [OF conjunct1 [OF IH] eq])
  moreover have "dom m \<subseteq> dom (m(k \<mapsto> v))" by auto
  then have "dom m \<inter> set (map fst es) = {}" using IH by blast
  with absent have "dom m \<inter> set (map fst (e # es)) = {}" by (auto simp: e)
  moreover have "distinct (map fst (e # es))" using IH k by (simp add: e)
  ultimately show ?case by blast
qed

section \<open>Slots\<close>

record slot =
  sl_subject :: "ca_mac_key \<rightharpoonup> u32"
  sl_policy :: "ca_policy_key \<rightharpoonup> u8"
  sl_port :: "ca_port_key \<rightharpoonup> ca_class_hint"
  sl_ipv4 :: "ca_ipv4_lpm_key \<rightharpoonup> ca_class_hint"
  sl_ipv6 :: "ca_ipv6_lpm_key \<rightharpoonup> ca_class_hint"

text \<open>\<open>True\<close> is the \<open>b\<close> slot.\<close>

definition get_slot :: "bool \<Rightarrow> ca_maps \<Rightarrow> slot" where
  "get_slot b m =
     (if b then \<lparr>sl_subject = m_subject_b m, sl_policy = m_policy_b m, sl_port = m_port_b m,
                 sl_ipv4 = m_ipv4_b m, sl_ipv6 = m_ipv6_b m\<rparr>
      else \<lparr>sl_subject = m_subject_a m, sl_policy = m_policy_a m, sl_port = m_port_a m,
            sl_ipv4 = m_ipv4_a m, sl_ipv6 = m_ipv6_a m\<rparr>)"

definition put_slot :: "bool \<Rightarrow> slot \<Rightarrow> ca_maps \<Rightarrow> ca_maps" where
  "put_slot b sl m =
     (if b then m\<lparr>m_subject_b := sl_subject sl, m_policy_b := sl_policy sl, m_port_b := sl_port sl,
                  m_ipv4_b := sl_ipv4 sl, m_ipv6_b := sl_ipv6 sl\<rparr>
      else m\<lparr>m_subject_a := sl_subject sl, m_policy_a := sl_policy sl, m_port_a := sl_port sl,
             m_ipv4_a := sl_ipv4 sl, m_ipv6_a := sl_ipv6 sl\<rparr>)"

definition slot_names :: "bool \<Rightarrow> string list" where
  "slot_names b =
     (if b then [''ca_subject_b'', ''ca_policy_b'', ''ca_port_b'', ''ca_ipv4_b'', ''ca_ipv6_b'']
      else [''ca_subject_a'', ''ca_policy_a'', ''ca_port_a'', ''ca_ipv4_a'', ''ca_ipv6_a''])"

definition clear_slot :: "sys \<Rightarrow> slot step list" where
  "clear_slot S =
     [on_part sl_subject (\<lambda>x sl. sl\<lparr>sl_subject := x\<rparr>) (clear_map (sy_subject S)),
      on_part sl_policy (\<lambda>x sl. sl\<lparr>sl_policy := x\<rparr>) (clear_map (sy_policy S)),
      on_part sl_port (\<lambda>x sl. sl\<lparr>sl_port := x\<rparr>) (clear_map (sy_port S)),
      on_part sl_ipv4 (\<lambda>x sl. sl\<lparr>sl_ipv4 := x\<rparr>) (clear_map (sy_ipv4 S)),
      on_part sl_ipv6 (\<lambda>x sl. sl\<lparr>sl_ipv6 := x\<rparr>) (clear_map (sy_ipv6 S))]"

definition fill_slot :: "sys \<Rightarrow> snapshot \<Rightarrow> slot step list" where
  "fill_slot S sn =
     [on_part sl_subject (\<lambda>x sl. sl\<lparr>sl_subject := x\<rparr>)
        (populate (sy_subject S) (map (\<lambda>e. (se_key e, se_subject_id e)) (sn_subjects sn))),
      on_part sl_policy (\<lambda>x sl. sl\<lparr>sl_policy := x\<rparr>)
        (populate (sy_policy S) (map (\<lambda>e. (pe_key e, pe_verdict e)) (sn_policies sn))),
      on_part sl_port (\<lambda>x sl. sl\<lparr>sl_port := x\<rparr>)
        (populate (sy_port S) (map (\<lambda>e. (te_key e, te_hint e)) (sn_ports sn))),
      on_part sl_ipv4 (\<lambda>x sl. sl\<lparr>sl_ipv4 := x\<rparr>)
        (populate (sy_ipv4 S) (map (\<lambda>e. (v4_key e, v4_hint e)) (sn_ipv4 sn))),
      on_part sl_ipv6 (\<lambda>x sl. sl\<lparr>sl_ipv6 := x\<rparr>)
        (populate (sy_ipv6 S) (map (\<lambda>e. (v6_key e, v6_hint e)) (sn_ipv6 sn)))]"

section \<open>Publication\<close>

text \<open>The rate words of the subjects are reset when the classifier generation changes.\<close>

definition reset_rates :: "sys \<Rightarrow> ca_config \<Rightarrow> ca_config \<Rightarrow> ca_maps step" where
  "reset_rates S config current m =
     (if cfg_classifier_generation config \<noteq> cfg_classifier_generation current
      then if ca_bpf_open_map S ''ca_subject_rates'' \<noteq> 0 then Some (1, m)
           else on_part m_subject_rates (\<lambda>x m. m\<lparr>m_subject_rates := x\<rparr>) (clear_map (sy_rates S)) m
      else Some (0, m))"

definition publish :: "sys \<Rightarrow> ca_config \<Rightarrow> ca_maps step" where
  "publish S config m =
     (let (e, x) = mo_update (sy_config S) (m_config m) 0 config BPF_ANY
      in Some (e, m\<lparr>m_config := x\<rparr>))"

definition sync_slot :: "sys \<Rightarrow> snapshot \<Rightarrow> ca_config \<Rightarrow> ca_maps step" where
  "sync_slot S sn current m =
     (let config = (sn_config sn)\<lparr>cfg_active_slot := (if cfg_active_slot current \<noteq> 0 then 0 else 1)\<rparr>;
          b = (cfg_active_slot config \<noteq> 0)
      in if \<exists>name \<in> set (slot_names b). ca_bpf_open_map S name \<noteq> 0 then Some (1, m)
         else run_steps
           [on_part (get_slot b) (put_slot b) (run_steps (clear_slot S @ fill_slot S sn)),
            reset_rates S config current,
            publish S config] m)"

definition ca_bpf_snapshot_sync :: "sys \<Rightarrow> libc \<Rightarrow> string \<Rightarrow> ca_maps step" where
  "ca_bpf_snapshot_sync S L stdin m =
     (if \<not> ca_bpf_update_lock S then Some (1, m)
      else let (err, sn) = parse_snapshot L zero_snapshot stdin in
        if err \<noteq> 0 then Some (1, m)
        else if ca_bpf_open_map S ''ca_config'' \<noteq> 0 then Some (1, m)
        else case ca_bpf_lookup_config S m of
          Inl e \<Rightarrow>
            if e \<noteq> ENOENT then Some (1, m)
            else (case sync_slot S sn zero_config m of
                    None \<Rightarrow> None | Some (r, m') \<Rightarrow> Some (if r \<noteq> 0 then 1 else 0, m'))
        | Inr current \<Rightarrow>
            (case sync_slot S sn current m of
               None \<Rightarrow> None | Some (r, m') \<Rightarrow> Some (if r \<noteq> 0 then 1 else 0, m')))"

end
