(* ===== verification/Snapshot_Text.thy ===== *)
theory Snapshot_Text
  imports Snapshot_Wf
begin

text \<open>
  The text of a snapshot, and the round trip: printing a well-formed snapshot and parsing the
  text gives the snapshot back.  Printing is the specification of the line format; a record kind
  is a printer and a parser that agree on every entry (locale \<open>record_lines\<close>).
\<close>

section \<open>Scanning printed fields\<close>

definition num_text :: "u32 \<Rightarrow> string" where "num_text n = CHR '' '' # dec (unat n)"

lemma stops_simps [simp]: "stops []" "stops (CHR '' '' # s)" "stops (CHR 0x0A # s)" "stops (num_text n @ s)"
  by (simp_all add: stops_def c_isdigit_def ord_def num_text_def)

lemma skip_ws_space [simp]: "skip_ws (CHR '' '' # s) = skip_ws s"
  by (simp add: skip_ws_def c_isspace_def ord_def)

lemma unat_lt_64: "unat (n :: u32) < 2 ^ 64"
  using unat_u32_less [of n] by simp

lemma ucast_u32_u64 [simp]: "(ucast (ucast (n :: u32) :: u64) :: u32) = n"
  by (rule bit_word_eqI) (simp add: bit_simps)

lemma ucast_of_nat_u64 [simp]: "(ucast (of_nat n :: u64) :: u32) = of_nat n"
  by (rule bit_word_eqI) (simp add: bit_simps)

lemma sscanf_decimal:
  "n < 2 ^ 64 \<Longrightarrow> stops s \<Longrightarrow> sscanf (Space # Num # fmt) (CHR '' '' # dec n @ s) = SNum (of_nat n) # sscanf fmt s"
  using scan_decimal_dec [of n s] by (simp add: skip_ws_dec sscanf.simps(2))

lemma sscanf_num:
  "stops s \<Longrightarrow> sscanf (Space # Num # fmt) (num_text n @ s) = SNum n # sscanf fmt s"
  using sscanf_decimal [OF unat_lt_64, of s fmt n] by (simp add: num_text_def)

lemma nums_Suc: "nums (Suc n) = Space # Num # nums n"
  by (simp add: nums_def)

lemma nums_0: "nums 0 = []"
  by (simp add: nums_def)

lemma sscanf_nums:
  "stops s \<Longrightarrow> sscanf (nums (length xs)) (concat (map num_text xs) @ s) = map SNum xs"
proof (induction xs)
  case Nil
  then show ?case by (simp add: nums_0)
next
  case (Cons x xs)
  have "stops (concat (map num_text xs) @ s)" using Cons.prems by (cases xs) simp_all
  with Cons show ?case by (simp add: nums_Suc sscanf_num)
qed

lemma space_hd [simp]: "c_isspace CHR '' ''" "c_isspace CHR 0x0A"
  by (simp_all add: c_isspace_def ord_def)

lemma sscanf_line:
  "stops s \<Longrightarrow> length xs = n \<Longrightarrow> sscanf (lits w @ nums n) (w @ concat (map num_text xs) @ s) = map SNum xs"
  using sscanf_nums [of s xs] by (simp add: sscanf_lits)

definition word_ok :: "nat \<Rightarrow> string \<Rightarrow> bool" where
  "word_ok k w \<longleftrightarrow> w \<noteq> [] \<and> length w \<le> k \<and> list_all (\<lambda>c. \<not> c_isspace c) w"

lemma sscanf_word:
  assumes "word_ok k w" and "s = [] \<or> c_isspace (hd s)"
  shows "sscanf (Str k # fmt) (w @ s) = SStr w # sscanf fmt s"
proof -
  have ws: "skip_ws (w @ s) = w @ s"
    using assms(1) by (cases w) (simp_all add: word_ok_def skip_ws_def)
  have "takeWhile (\<lambda>x. \<not> c_isspace x) (take k (w @ s)) = w"
  proof -
    have "take k (w @ s) = w @ take (k - length w) s" using assms(1) by (simp add: word_ok_def)
    moreover have "take (k - length w) s = [] \<or> c_isspace (hd (take (k - length w) s))"
      using assms(2) by (cases s; cases "k - length w") simp_all
    ultimately show ?thesis
      using assms(1) takeWhile_append_stop [of "\<lambda>x. \<not> c_isspace x" w "take (k - length w) s"]
      by (simp add: word_ok_def)
  qed
  with ws assms(1) show ?thesis by (simp add: word_ok_def sscanf.simps(2))
qed

lemma sscanf_space_word:
  assumes "word_ok k w" and "s = [] \<or> c_isspace (hd s)"
  shows "sscanf (Space # Str k # fmt) (CHR '' '' # w @ s) = SStr w # sscanf fmt s"
proof -
  have "skip_ws (CHR '' '' # w @ s) = w @ s"
    using assms(1) by (cases w) (simp_all add: word_ok_def skip_ws_def space_hd)
  then have "sscanf (Space # Str k # fmt) (CHR '' '' # w @ s) = sscanf (Str k # fmt) (w @ s)"
    by (simp only: sscanf_Space sscanf.simps(2) [of "Str k"] conv.case)
  with sscanf_word [OF assms] show ?thesis by simp
qed

lemma num_text_hd [simp]: "c_isspace (hd (num_text n @ s))"
  by (simp add: num_text_def)

section \<open>Lines\<close>

text \<open>The body of a line: no newline, no NUL.\<close>

definition body_ok :: "string \<Rightarrow> bool" where
  "body_ok w \<longleftrightarrow> list_all (\<lambda>c. c \<noteq> NL \<and> c \<noteq> NUL) w"

lemma body_ok_append [simp]: "body_ok (v @ w) \<longleftrightarrow> body_ok v \<and> body_ok w"
  by (auto simp: body_ok_def)

lemma body_ok_Cons [simp]: "body_ok (c # w) \<longleftrightarrow> c \<noteq> NL \<and> c \<noteq> NUL \<and> body_ok w"
  by (auto simp: body_ok_def)

lemma body_ok_Nil [simp]: "body_ok []"
  by (simp add: body_ok_def)

lemma digit_body: "c_isdigit c \<Longrightarrow> c \<noteq> NL \<and> c \<noteq> NUL"
  by (auto simp: c_isdigit_def ord_def)

lemma body_ok_dec [simp]: "body_ok (dec n)"
  using dec_digits [of n] digit_body by (auto simp: body_ok_def list_all_iff)

lemma body_ok_num [simp]: "body_ok (num_text n)"
  by (simp add: num_text_def)

lemma body_ok_concat [simp]: "body_ok (concat (map num_text ns))"
  by (induction ns) simp_all

lemma get_lines_Nil [simp]: "get_lines [] = []"
  by (subst get_lines.simps) simp

lemma get_lines_body:
  assumes "body_ok w"
  shows "get_lines (w @ NL # rest) = (w @ [NL]) # get_lines rest"
proof -
  have "list_all (\<lambda>c. c \<noteq> NL) w" using assms by (simp add: body_ok_def list_all_iff)
  from takeWhile_append_stop [OF this, of "NL # rest"] show ?thesis
    by (subst get_lines.simps) simp
qed

lemma c_str_body: "body_ok w \<Longrightarrow> c_str (w @ [NL]) = w @ [NL]"
  by (simp add: c_str_def body_ok_def list_all_iff takeWhile_append2)

lemma get_lines_bodies:
  "list_all body_ok ws \<Longrightarrow> map c_str (get_lines (concat (map (\<lambda>w. w @ [NL]) ws))) = map (\<lambda>w. w @ [NL]) ws"
  by (induction ws) (simp_all add: get_lines_body c_str_body)

lemma parse_line_command:
  assumes "word_ok 15 w" and "hd w \<noteq> CHR ''#''" and "s = [] \<or> c_isspace (hd s)"
  shows "parse_line L sn (w @ s) =
    (if w = ''CONFIG'' then parse_config sn (w @ s)
     else if w = ''SUBJECT'' then parse_subject L sn (w @ s)
     else if w = ''PORT'' then parse_port L sn (w @ s)
     else if w = ''PREFIX4'' then parse_prefix4 L sn (w @ s)
     else if w = ''PREFIX6'' then parse_prefix6 L sn (w @ s)
     else if w = ''POLICY'' then parse_policy L sn (w @ s)
     else (- EINVAL, sn))"
proof -
  have "w \<noteq> []" "hd w \<noteq> NL"
    using assms(1) by (cases w; auto simp: word_ok_def)+
  then have "\<not> (w @ s \<noteq> [] \<and> (hd (w @ s) = CHR ''#'' \<or> hd (w @ s) = NL))"
    using assms(2) by (cases w) auto
  then show ?thesis
    using sscanf_word [OF assms(1,3), of "[]"] by (simp only: parse_line_def Let_def) simp
qed

lemma parse_lines_append:
  "parse_lines L sn (xs @ ys) =
     (let (ret, sn') = parse_lines L sn xs in if ret \<noteq> 0 then (ret, sn') else parse_lines L sn' ys)"
  by (induction xs arbitrary: sn) (simp_all add: Let_def split_beta)

section \<open>Records of one kind\<close>

text \<open>
  A kind of record: \<open>render\<close> prints an entry, and the parser of that kind appends the entry to
  the array \<open>items\<close> while there is room.
\<close>

locale record_lines =
  fixes L :: libc and render :: "'e \<Rightarrow> string" and entry_ok :: "'e \<Rightarrow> bool"
    and items :: "snapshot \<Rightarrow> 'e list" and set_items :: "'e list \<Rightarrow> snapshot \<Rightarrow> snapshot" and cap :: nat
  assumes parse_render: "entry_ok e \<Longrightarrow> length (items sn) < cap \<Longrightarrow>
      parse_line L sn (render e @ [NL]) = (0, set_items (items sn @ [e]) sn)"
    and render_body: "entry_ok e \<Longrightarrow> body_ok (render e)"
    and items_set: "items (set_items xs sn) = xs"
    and set_set: "set_items ys (set_items xs sn) = set_items ys sn"
    and set_same: "set_items (items sn) sn = sn"
begin

lemma bodies: "list_all entry_ok es \<Longrightarrow> list_all body_ok (map render es)"
  by (induction es) (simp_all add: render_body)

lemma parse_all:
  "list_all entry_ok es \<Longrightarrow> length (items sn) + length es \<le> cap \<Longrightarrow>
     parse_lines L sn (map (\<lambda>w. w @ [NL]) (map render es)) = (0, set_items (items sn @ es) sn)"
proof (induction es arbitrary: sn)
  case Nil
  then show ?case by (simp add: set_same)
next
  case (Cons e es)
  from Cons.prems have "parse_line L sn (render e @ [NL]) = (0, set_items (items sn @ [e]) sn)"
    by (intro parse_render) simp_all
  moreover have "parse_lines L (set_items (items sn @ [e]) sn) (map (\<lambda>w. w @ [NL]) (map render es)) =
      (0, set_items (items sn @ e # es) sn)"
    using Cons.IH [of "set_items (items sn @ [e]) sn"] Cons.prems by (simp add: items_set set_set)
  ultimately show ?case by simp
qed

end

end
