(* ===== verification/Snapshot_Roundtrip.thy ===== *)
theory Snapshot_Roundtrip
  imports Snapshot_Text
begin

text \<open>
  The printers of the six record kinds, each an instance of \<open>record_lines\<close>, and the round trip of
  a whole snapshot.  Printing an address (\<^verbatim>\<open>inet_ntop\<close>) is a parameter that
  \<^verbatim>\<open>inet_pton\<close> inverts.
\<close>

section \<open>Narrow fields in wide variables\<close>

lemma ucast_up_down [simp]:
  "(ucast (ucast (x :: u8) :: u32) :: u8) = x" "(ucast (ucast (y :: u16) :: u32) :: u16) = y"
  by (rule bit_word_eqI; simp add: bit_simps)+

lemma unat_ucast_u8_u32 [simp]: "unat (ucast (x :: u8) :: u32) = unat x"
  using unsigned_less [of x, where 'a = nat] by (simp add: unsigned_ucast_eq take_bit_nat_eq_self)

lemma unat_ucast_u16_u32 [simp]: "unat (ucast (x :: u16) :: u32) = unat x"
  using unsigned_less [of x, where 'a = nat] by (simp add: unsigned_ucast_eq take_bit_nat_eq_self)

lemma ucast_u8_le [simp]: "(ucast (x :: u8) :: u32) \<le> 1 \<longleftrightarrow> x \<le> 1"
  by (simp add: word_le_nat_alt)

lemma ucast_u16_0_u32 [simp]: "(ucast (x :: u16) :: u32) = 0 \<longleftrightarrow> x = 0"
  by (simp add: word_unat_eq_iff)

section \<open>The configuration line\<close>

definition config_nums :: "ca_config \<Rightarrow> u32 list" where
  "config_nums c = [cfg_enabled c, cfg_app_enforcement_enabled c, cfg_app_policy_generation c,
     cfg_classifier_generation c, ucast (cfg_unknown_subject_app_verdict c),
     ucast (cfg_provisional_app_verdict c), ucast (cfg_max_packets_inspected c),
     cfg_max_bytes_examined c, cfg_max_classification_age_ms c, cfg_max_pending_entries c,
     cfg_max_new_classifications_per_second c, cfg_per_subject_new_classification_rate c]"

definition render_config :: "ca_config \<Rightarrow> string" where
  "render_config c = ''CONFIG'' @ concat (map num_text (config_nums c))"

lemma sscanf_config:
  "sscanf (lits ''CONFIG'' @ nums 12) (render_config c @ [NL]) = map SNum (config_nums c)"
  unfolding render_config_def append_assoc by (rule sscanf_line) (simp_all add: config_nums_def)

lemma parse_render_config:
  assumes "config_wf c" and "cfg_active_slot c = 0" and "sn_config sn = zero_config" and "\<not> sn_have_config sn"
  shows "parse_line L sn (render_config c @ [NL]) = (0, sn\<lparr>sn_config := c, sn_have_config := True\<rparr>)"
proof -
  have "parse_config sn (render_config c @ [NL]) = (0, sn\<lparr>sn_config := c, sn_have_config := True\<rparr>)"
    using assms order_trans [of "cfg_app_enforcement_enabled c" "cfg_enabled c" 1]
    by (cases c)
      (simp add: parse_config_def sscanf_config config_nums_def config_wf_def Let_def not_less not_le
        one_le_u32 zero_config_def)
  moreover have "word_ok 15 ''CONFIG''"
    by (simp add: word_ok_def c_isspace_def ord_def)
  ultimately show ?thesis
    using parse_line_command [of "''CONFIG''" "concat (map num_text (config_nums c)) @ [NL]" L sn]
    by (simp add: render_config_def config_nums_def)
qed

section \<open>Subjects\<close>

definition hex_char :: "nat \<Rightarrow> char" where
  "hex_char n = (if n < 10 then char_of (48 + n) else char_of (87 + n))"

definition hex_text :: "u8 \<Rightarrow> string" where
  "hex_text b = [hex_char (unat b div 16), hex_char (unat b mod 16)]"

lemma hex_char_simps:
  assumes "n < 16"
  shows "hex_digit (hex_char n) = Some n" and "\<not> c_isspace (hex_char n)" and "hex_char n \<noteq> CHR ''-''"
    and "hex_char n \<noteq> CHR ''+''" and "hex_char n \<noteq> CHR ''x''" and "hex_char n \<noteq> CHR ''X''"
    and "hex_char n \<noteq> NL" and "hex_char n \<noteq> NUL" and "hex_char n \<noteq> CHR ''/''"
proof -
  have ord: "ord (hex_char n) = (if n < 10 then 48 + n else 87 + n)"
    using assms by (simp add: hex_char_def)
  show "hex_digit (hex_char n) = Some n" and "\<not> c_isspace (hex_char n)"
    using assms by (auto simp: hex_digit_def c_isdigit_def c_isspace_def ord)
  show "hex_char n \<noteq> CHR ''-''" "hex_char n \<noteq> CHR ''+''" "hex_char n \<noteq> CHR ''x''" "hex_char n \<noteq> CHR ''X''"
    "hex_char n \<noteq> NL" "hex_char n \<noteq> NUL" "hex_char n \<noteq> CHR ''/''"
    using assms ord by (auto simp: ord_def split: if_splits)
qed

lemma byte_nibbles: "unat (b :: u8) div 16 < 16" "16 * (unat b div 16) + unat b mod 16 = unat b"
  using unsigned_less [of b, where 'a = nat] by (simp_all add: less_mult_imp_div_less)

lemma sscanf_hex: "sscanf (Hex2 # fmt) (hex_text b @ s) = SNum (ucast b) # sscanf fmt s"
proof -
  have "scan_hex2 (hex_text b @ s) = Some (of_nat (unat b), s)"
    using hex_char_simps [OF byte_nibbles(1), of b] hex_char_simps [of "unat b mod 16"] byte_nibbles(2) [of b]
    by (simp add: hex_text_def scan_hex2_def)
  moreover have "skip_ws (hex_text b @ s) = hex_text b @ s"
    using hex_char_simps(2) [OF byte_nibbles(1), of b] by (simp add: hex_text_def skip_ws_def)
  ultimately show ?thesis by (simp add: sscanf.simps(2) word_unat_eq_iff)
qed

definition mac_text :: "u8 list \<Rightarrow> string" where
  "mac_text a = hex_text (a ! 0) @ '':'' @ hex_text (a ! 1) @ '':'' @ hex_text (a ! 2) @ '':'' @
     hex_text (a ! 3) @ '':'' @ hex_text (a ! 4) @ '':'' @ hex_text (a ! 5)"

lemma parse_mac_text:
  assumes "length a = 6"
  shows "parse_mac (mac_text a) = Some \<lparr>mac_addr = a\<rparr>"
proof -
  obtain b0 b1 b2 b3 b4 b5 where a: "a = [b0, b1, b2, b3, b4, b5]"
    using assms by (auto simp: numeral_eq_Suc length_Suc_conv)
  have "sscanf [Hex2, Lit CHR '':'', Hex2, Lit CHR '':'', Hex2, Lit CHR '':'', Hex2, Lit CHR '':'',
      Hex2, Lit CHR '':'', Hex2] (mac_text a) = map (\<lambda>b. SNum (ucast b)) a"
    using sscanf_hex [of "[]" b5 "[]"] by (simp add: mac_text_def a sscanf_hex sscanf_Lit)
  then show ?thesis by (simp add: parse_mac_def a)
qed

lemma hex_text_ok [simp]:
  "list_all (\<lambda>c. \<not> c_isspace c) (hex_text b)" "length (hex_text b) = 2" "body_ok (hex_text b)"
  using hex_char_simps [OF byte_nibbles(1), of b] hex_char_simps [of "unat b mod 16"]
  by (simp_all add: hex_text_def)

lemma mac_text_ok [simp]: "word_ok 31 (mac_text a)" "body_ok (mac_text a)"
  by (simp_all add: mac_text_def word_ok_def hex_text_def [symmetric] c_isspace_def [of "CHR '':''"] ord_def)

definition render_subject :: "subject_entry \<Rightarrow> string" where
  "render_subject e = ''SUBJECT'' @ CHR '' '' # mac_text (mac_addr (se_key e)) @ num_text (se_subject_id e)"

text \<open>No allocation fails.\<close>

definition allocs :: "libc \<Rightarrow> bool" where "allocs L \<longleftrightarrow> (\<forall>n. lc_realloc L n)"

lemma command_words [simp]:
  "word_ok 15 ''SUBJECT''" "word_ok 15 ''PORT''" "word_ok 15 ''PREFIX4''" "word_ok 15 ''PREFIX6''"
  "word_ok 15 ''POLICY''"
  by (simp_all add: word_ok_def c_isspace_def ord_def)

lemma parse_render_subject:
  assumes "allocs L" and "subject_wf e" and "length (sn_subjects sn) < CA_MAX_SUBJECTS"
  shows "parse_line L sn (render_subject e @ [NL]) = (0, sn\<lparr>sn_subjects := sn_subjects sn @ [e]\<rparr>)"
proof -
  let ?m = "mac_text (mac_addr (se_key e))"
  let ?s = "CHR '' '' # ?m @ num_text (se_subject_id e) @ [NL]"
  have "sscanf [Space, Str 31, Space, Num] ?s = [SStr ?m, SNum (se_subject_id e)]"
    using sscanf_space_word [of 31 ?m "num_text (se_subject_id e) @ [NL]" "[Space, Num]"]
      sscanf_num [of "[NL]" "[]" "se_subject_id e"] by simp
  then have v: "sscanf (lits ''SUBJECT'' @ [Space, Str 31, Space, Num]) (''SUBJECT'' @ ?s) = [SStr ?m, SNum (se_subject_id e)]"
    by (simp only: sscanf_lits)
  have "parse_line L sn (''SUBJECT'' @ ?s) = parse_subject L sn (''SUBJECT'' @ ?s)"
    by (subst parse_line_command) simp_all
  also have "\<dots> = append_subject L sn e"
    using assms(2) parse_mac_text [of "mac_addr (se_key e)"]
    by (simp only: parse_subject_def v Let_def) (cases e, cases "se_key e", simp add: subject_wf_def)
  also have "\<dots> = (0, sn\<lparr>sn_subjects := sn_subjects sn @ [e]\<rparr>)"
    using assms(1,3) by (intro subjects.append_ok) (simp_all add: allocs_def)
  finally show ?thesis by (simp add: render_subject_def)
qed

interpretation subject_lines: record_lines L render_subject "\<lambda>e. allocs L \<and> subject_wf e"
    sn_subjects "\<lambda>x sn. sn\<lparr>sn_subjects := x\<rparr>" CA_MAX_SUBJECTS for L
  by unfold_locales (simp_all add: parse_render_subject, simp add: render_subject_def)

section \<open>Ports and policies\<close>

definition hint_nums :: "ca_class_hint \<Rightarrow> u32 list" where
  "hint_nums h = [ucast (ch_class_id h), ucast (ch_category_id h), ucast (ch_kind h)]"

definition port_nums :: "port_entry \<Rightarrow> u32 list" where
  "port_nums e = [ucast (ptk_ip_proto (te_key e)), ucast (bswap16 (ptk_dst_port (te_key e)))] @ hint_nums (te_hint e)"

definition render_port :: "port_entry \<Rightarrow> string" where
  "render_port e = ''PORT'' @ concat (map num_text (port_nums e))"

lemma ucast_bounds [simp]:
  "\<not> 65535 < (ucast (x :: u16) :: u32)" "1 < (ucast (y :: u8) :: u32) \<longleftrightarrow> 1 < y"
  using ucast_u16_up(2) [of x] by (simp_all add: not_less word_less_nat_alt word_le_nat_alt)

lemma bswap16_eq_0 [simp]: "bswap16 x = 0 \<longleftrightarrow> x = 0"
  using bswap16_inject [of x 0] by simp

lemma parse_render_port:
  assumes "allocs L" and "port_wf e" and "length (sn_ports sn) < CA_MAX_PORT_HINTS"
  shows "parse_line L sn (render_port e @ [NL]) = (0, sn\<lparr>sn_ports := sn_ports sn @ [e]\<rparr>)"
proof -
  let ?s = "concat (map num_text (port_nums e)) @ [NL]"
  have v: "sscanf (lits ''PORT'' @ nums 5) (''PORT'' @ ?s) = map SNum (port_nums e)"
    by (rule sscanf_line) (simp_all add: port_nums_def hint_nums_def)
  have "parse_line L sn (''PORT'' @ ?s) = parse_port L sn (''PORT'' @ ?s)"
    by (subst parse_line_command) (simp_all add: port_nums_def)
  also have "\<dots> = append_port L sn e"
    using assms(2) parse_hint_roundtrip [of "te_hint e"]
    by (simp only: parse_port_def v Let_def)
       (cases e, cases "te_key e", auto simp: port_wf_def port_nums_def hint_nums_def)
  also have "\<dots> = (0, sn\<lparr>sn_ports := sn_ports sn @ [e]\<rparr>)"
    using assms(1,3) by (intro ports.append_ok) (simp_all add: allocs_def)
  finally show ?thesis by (simp add: render_port_def)
qed

interpretation port_lines: record_lines L render_port "\<lambda>e. allocs L \<and> port_wf e"
    sn_ports "\<lambda>x sn. sn\<lparr>sn_ports := x\<rparr>" CA_MAX_PORT_HINTS for L
  by unfold_locales (simp_all add: parse_render_port, simp add: render_port_def)

definition policy_nums :: "policy_entry \<Rightarrow> u32 list" where
  "policy_nums e = [pk_subject_id (pe_key e), ucast (pk_class_id (pe_key e)), ucast (pe_verdict e)]"

definition render_policy :: "policy_entry \<Rightarrow> string" where
  "render_policy e = ''POLICY'' @ concat (map num_text (policy_nums e))"

lemma parse_render_policy:
  assumes "allocs L" and "policy_wf e" and "length (sn_policies sn) < CA_MAX_POLICY_ENTRIES"
  shows "parse_line L sn (render_policy e @ [NL]) = (0, sn\<lparr>sn_policies := sn_policies sn @ [e]\<rparr>)"
proof -
  let ?s = "concat (map num_text (policy_nums e)) @ [NL]"
  have v: "sscanf (lits ''POLICY'' @ nums 3) (''POLICY'' @ ?s) = map SNum (policy_nums e)"
    by (rule sscanf_line) (simp_all add: policy_nums_def)
  have "parse_line L sn (''POLICY'' @ ?s) = parse_policy L sn (''POLICY'' @ ?s)"
    by (subst parse_line_command) (simp_all add: policy_nums_def)
  also have "\<dots> = append_policy L sn e"
    using assms(2) by (simp only: parse_policy_def v Let_def)
       (cases e, cases "pe_key e", auto simp: policy_wf_def policy_nums_def)
  also have "\<dots> = (0, sn\<lparr>sn_policies := sn_policies sn @ [e]\<rparr>)"
    using assms(1,3) by (intro policies.append_ok) (simp_all add: allocs_def)
  finally show ?thesis by (simp add: render_policy_def)
qed

interpretation policy_lines: record_lines L render_policy "\<lambda>e. allocs L \<and> policy_wf e"
    sn_policies "\<lambda>x sn. sn\<lparr>sn_policies := x\<rparr>" CA_MAX_POLICY_ENTRIES for L
  by unfold_locales (simp_all add: parse_render_policy, simp add: render_policy_def)

section \<open>Prefixes\<close>

text \<open>The address printer: \<^verbatim>\<open>inet_pton\<close> inverts it, and its texts fit their buffer.\<close>

definition ntop_ok :: "libc \<Rightarrow> (family \<Rightarrow> u8 list \<Rightarrow> string) \<Rightarrow> bool" where
  "ntop_ok L ntop \<longleftrightarrow> (\<forall>fam a. length a = addr_len fam \<longrightarrow>
     lc_inet_pton L fam (ntop fam a) = Some a \<and> word_ok (if fam = AF_INET then 15 else 45) (ntop fam a) \<and>
     list_all (\<lambda>c. c \<noteq> CHR ''/'') (ntop fam a) \<and> body_ok (ntop fam a))"

definition prefix_text :: "(family \<Rightarrow> u8 list \<Rightarrow> string) \<Rightarrow> family \<Rightarrow> u8 list \<Rightarrow> u32 \<Rightarrow> string" where
  "prefix_text ntop fam a p = ntop fam a @ CHR ''/'' # dec (unat p)"

lemma length_dec: "n < 10 ^ Suc k \<Longrightarrow> length (dec n) \<le> Suc k"
proof (induction k arbitrary: n)
  case 0
  then show ?case by (subst dec.simps) simp
next
  case (Suc k)
  from Suc.prems have "n div 10 < 10 ^ Suc k" by (simp add: less_mult_imp_div_less mult.commute)
  with Suc.IH [of "n div 10"] show ?case by (subst dec.simps) simp
qed

lemma dec_spaceless: "list_all (\<lambda>c. \<not> c_isspace c) (dec n)"
  using dec_digits [of n] digit_not_space by (auto simp: list_all_iff)

lemma prefix_text_ok:
  assumes "ntop_ok L ntop" and "length a = addr_len fam" and "unat p \<le> 8 * addr_len fam"
  shows "word_ok (if fam = AF_INET then 18 else 49) (prefix_text ntop fam a p)"
    and "body_ok (prefix_text ntop fam a p)"
proof -
  have w: "word_ok (if fam = AF_INET then 15 else 45) (ntop fam a)" "body_ok (ntop fam a)"
    using assms(1,2) unfolding ntop_ok_def by blast+
  have "length (dec (unat p)) \<le> (if fam = AF_INET then 2 else 3)"
    using assms(3) length_dec [of "unat p" 1] length_dec [of "unat p" 2]
    by (cases fam) (simp_all add: addr_len_def)
  then show "word_ok (if fam = AF_INET then 18 else 49) (prefix_text ntop fam a p)"
    using w(1) dec_spaceless [of "unat p"]
    by (cases fam) (simp_all add: word_ok_def prefix_text_def c_isspace_def [of "CHR ''/''"] ord_def)
  show "body_ok (prefix_text ntop fam a p)" using w(2) by (simp add: prefix_text_def)
qed

lemma strtoul_dec: "n < 2 ^ 64 \<Longrightarrow> strtoul b (dec n) = (of_nat n, [], False)"
  using scan_decimal_dec [of n "[]"] skip_ws_dec [of n "[]"] by (simp add: strtoul_def)

lemma parse_prefix_text:
  assumes nt: "ntop_ok L ntop" and a: "length a = addr_len fam" and p: "unat p \<le> 8 * addr_len fam"
  shows "parse_prefix L (prefix_text ntop fam a p) fam = Some (p, a)"
proof -
  have len: "length (prefix_text ntop fam a p) < 50"
    using prefix_text_ok(1) [OF assms] by (cases fam) (simp_all add: word_ok_def)
  have pton: "lc_inet_pton L fam (ntop fam a) = Some a"
    and noslash: "list_all (\<lambda>c. c \<noteq> CHR ''/'') (ntop fam a)"
    using nt a unfolding ntop_ok_def by blast+
  have cut: "takeWhile (\<lambda>c. c \<noteq> CHR ''/'') (prefix_text ntop fam a p) = ntop fam a \<and>
      dropWhile (\<lambda>c. c \<noteq> CHR ''/'') (prefix_text ntop fam a p) = CHR ''/'' # dec (unat p)"
    using takeWhile_append_stop [OF noslash, of "CHR ''/'' # dec (unat p)"] by (simp add: prefix_text_def)
  have val: "strtoul (lc_einval_on_empty L) (dec (unat p)) = (ucast p, [], False)"
    using strtoul_dec [OF unat_lt_64, of _ p] by simp
  have "unat (ucast p :: u64) = unat p"
    using unat_lt_64 [of p] by (simp add: unsigned_ucast_eq take_bit_nat_eq_self)
  then have "\<not> (if fam = AF_INET then 32 else 128 :: u64) < ucast p"
    using p by (cases fam) (simp_all add: addr_len_def word_less_nat_alt)
  with len cut val pton show ?thesis by (simp add: parse_prefix_def not_le)
qed

definition render_ipv4 :: "(family \<Rightarrow> u8 list \<Rightarrow> string) \<Rightarrow> ipv4_entry \<Rightarrow> string" where
  "render_ipv4 ntop e = ''PREFIX4'' @ CHR '' '' # prefix_text ntop AF_INET (p4_addr (v4_key e)) (p4_prefixlen (v4_key e)) @
     concat (map num_text (hint_nums (v4_hint e)))"

lemma parse_render_ipv4:
  assumes "allocs L" and nt: "ntop_ok L ntop" and e: "ipv4_wf e" and "length (sn_ipv4 sn) < CA_MAX_IPV4_HINTS"
  shows "parse_line L sn (render_ipv4 ntop e @ [NL]) = (0, sn\<lparr>sn_ipv4 := sn_ipv4 sn @ [e]\<rparr>)"
proof -
  let ?a = "p4_addr (v4_key e)" and ?p = "p4_prefixlen (v4_key e)"
  let ?t = "prefix_text ntop AF_INET ?a ?p"
  let ?h = "concat (map num_text (hint_nums (v4_hint e))) @ [NL]"
  let ?s = "CHR '' '' # ?t @ ?h"
  have len: "length ?a = addr_len AF_INET" and p: "unat ?p \<le> 8 * addr_len AF_INET"
    and can: "canonical ?a (unat ?p)"
    using e by (simp_all add: ipv4_wf_def addr_len_def)
  have "sscanf (nums 3) ?h = map SNum (hint_nums (v4_hint e))"
    using sscanf_nums [of "[NL]" "hint_nums (v4_hint e)"] by (simp add: hint_nums_def eval_nat_numeral)
  then have "sscanf ([Space, Str 18] @ nums 3) ?s = SStr ?t # map SNum (hint_nums (v4_hint e))"
    using sscanf_space_word [of 18 ?t ?h "nums 3"] prefix_text_ok(1) [OF nt len p] by (simp add: hint_nums_def)
  then have v: "sscanf (lits ''PREFIX4'' @ [Space, Str 18] @ nums 3) (''PREFIX4'' @ ?s) =
      SStr ?t # map SNum (hint_nums (v4_hint e))"
    by (simp only: sscanf_lits)
  have "parse_line L sn (''PREFIX4'' @ ?s) = parse_prefix4 L sn (''PREFIX4'' @ ?s)"
    by (subst parse_line_command) simp_all
  also have "\<dots> = append_ipv4 L sn e"
    using parse_prefix_text [OF nt len p] canonicalize_id [OF len p can] e parse_hint_roundtrip [of "v4_hint e"]
    by (simp only: parse_prefix4_def v Let_def)
       (cases e, cases "v4_key e", simp add: hint_nums_def ipv4_wf_def)
  also have "\<dots> = (0, sn\<lparr>sn_ipv4 := sn_ipv4 sn @ [e]\<rparr>)"
    using assms(1,4) by (intro prefixes4.append_ok) (simp_all add: allocs_def)
  finally show ?thesis by (simp add: render_ipv4_def)
qed

lemma render_ipv4_body: "ntop_ok L ntop \<Longrightarrow> ipv4_wf e \<Longrightarrow> body_ok (render_ipv4 ntop e)"
  using prefix_text_ok(2) [of L ntop "p4_addr (v4_key e)" AF_INET "p4_prefixlen (v4_key e)"]
  by (simp add: render_ipv4_def ipv4_wf_def addr_len_def)

interpretation ipv4_lines: record_lines L "render_ipv4 ntop" "\<lambda>e. allocs L \<and> ntop_ok L ntop \<and> ipv4_wf e"
    sn_ipv4 "\<lambda>x sn. sn\<lparr>sn_ipv4 := x\<rparr>" CA_MAX_IPV4_HINTS for L ntop
  by unfold_locales (auto simp: parse_render_ipv4 intro: render_ipv4_body)

definition render_ipv6 :: "(family \<Rightarrow> u8 list \<Rightarrow> string) \<Rightarrow> ipv6_entry \<Rightarrow> string" where
  "render_ipv6 ntop e = ''PREFIX6'' @ CHR '' '' # prefix_text ntop AF_INET6 (p6_addr (v6_key e)) (p6_prefixlen (v6_key e)) @
     concat (map num_text (hint_nums (v6_hint e)))"

lemma parse_render_ipv6:
  assumes "allocs L" and nt: "ntop_ok L ntop" and e: "ipv6_wf e" and "length (sn_ipv6 sn) < CA_MAX_IPV6_HINTS"
  shows "parse_line L sn (render_ipv6 ntop e @ [NL]) = (0, sn\<lparr>sn_ipv6 := sn_ipv6 sn @ [e]\<rparr>)"
proof -
  let ?a = "p6_addr (v6_key e)" and ?p = "p6_prefixlen (v6_key e)"
  let ?t = "prefix_text ntop AF_INET6 ?a ?p"
  let ?h = "concat (map num_text (hint_nums (v6_hint e))) @ [NL]"
  let ?s = "CHR '' '' # ?t @ ?h"
  have len: "length ?a = addr_len AF_INET6" and p: "unat ?p \<le> 8 * addr_len AF_INET6"
    and can: "canonical ?a (unat ?p)"
    using e by (simp_all add: ipv6_wf_def addr_len_def)
  have "sscanf (nums 3) ?h = map SNum (hint_nums (v6_hint e))"
    using sscanf_nums [of "[NL]" "hint_nums (v6_hint e)"] by (simp add: hint_nums_def eval_nat_numeral)
  then have "sscanf ([Space, Str 49] @ nums 3) ?s = SStr ?t # map SNum (hint_nums (v6_hint e))"
    using sscanf_space_word [of 49 ?t ?h "nums 3"] prefix_text_ok(1) [OF nt len p] by (simp add: hint_nums_def)
  then have v: "sscanf (lits ''PREFIX6'' @ [Space, Str 49] @ nums 3) (''PREFIX6'' @ ?s) =
      SStr ?t # map SNum (hint_nums (v6_hint e))"
    by (simp only: sscanf_lits)
  have "parse_line L sn (''PREFIX6'' @ ?s) = parse_prefix6 L sn (''PREFIX6'' @ ?s)"
    by (subst parse_line_command) simp_all
  also have "\<dots> = append_ipv6 L sn e"
    using parse_prefix_text [OF nt len p] canonicalize_id [OF len p can] e parse_hint_roundtrip [of "v6_hint e"]
    by (simp only: parse_prefix6_def v Let_def)
       (cases e, cases "v6_key e", simp add: hint_nums_def ipv6_wf_def)
  also have "\<dots> = (0, sn\<lparr>sn_ipv6 := sn_ipv6 sn @ [e]\<rparr>)"
    using assms(1,4) by (intro prefixes6.append_ok) (simp_all add: allocs_def)
  finally show ?thesis by (simp add: render_ipv6_def)
qed

lemma render_ipv6_body: "ntop_ok L ntop \<Longrightarrow> ipv6_wf e \<Longrightarrow> body_ok (render_ipv6 ntop e)"
  using prefix_text_ok(2) [of L ntop "p6_addr (v6_key e)" AF_INET6 "p6_prefixlen (v6_key e)"]
  by (simp add: render_ipv6_def ipv6_wf_def addr_len_def)

interpretation ipv6_lines: record_lines L "render_ipv6 ntop" "\<lambda>e. allocs L \<and> ntop_ok L ntop \<and> ipv6_wf e"
    sn_ipv6 "\<lambda>x sn. sn\<lparr>sn_ipv6 := x\<rparr>" CA_MAX_IPV6_HINTS for L ntop
  by unfold_locales (auto simp: parse_render_ipv6 intro: render_ipv6_body)

section \<open>A whole snapshot\<close>

definition snapshot_lines :: "(family \<Rightarrow> u8 list \<Rightarrow> string) \<Rightarrow> snapshot \<Rightarrow> string list" where
  "snapshot_lines ntop sn = [render_config (sn_config sn)] @ map render_subject (sn_subjects sn) @
     map render_policy (sn_policies sn) @ map render_port (sn_ports sn) @
     map (render_ipv4 ntop) (sn_ipv4 sn) @ map (render_ipv6 ntop) (sn_ipv6 sn)"

definition snapshot_text :: "(family \<Rightarrow> u8 list \<Rightarrow> string) \<Rightarrow> snapshot \<Rightarrow> string" where
  "snapshot_text ntop sn = concat (map (\<lambda>w. w @ [NL]) (snapshot_lines ntop sn))"

lemma list_all_conj: "P \<Longrightarrow> list_all Q xs \<Longrightarrow> list_all (\<lambda>x. P \<and> Q x) xs"
  by (simp add: list_all_iff)

lemma parse_snapshot_lines:
  assumes L: "allocs L" "ntop_ok L ntop" and sn: "snapshot_wf sn" "sn_have_config sn"
    and slot: "cfg_active_slot (sn_config sn) = 0"
  shows "parse_lines L zero_snapshot (map (\<lambda>w. w @ [NL]) (snapshot_lines ntop sn)) = (0, sn)"
proof -
  have wf: "list_all (\<lambda>e. allocs L \<and> subject_wf e) (sn_subjects sn)"
    "list_all (\<lambda>e. allocs L \<and> policy_wf e) (sn_policies sn)"
    "list_all (\<lambda>e. allocs L \<and> port_wf e) (sn_ports sn)"
    "list_all (\<lambda>e. allocs L \<and> ntop_ok L ntop \<and> ipv4_wf e) (sn_ipv4 sn)"
    "list_all (\<lambda>e. allocs L \<and> ntop_ok L ntop \<and> ipv6_wf e) (sn_ipv6 sn)"
    using sn(1) L by (auto simp: snapshot_wf_def intro!: list_all_conj)
  have config: "parse_line L zero_snapshot (render_config (sn_config sn) @ [NL]) =
      (0, zero_snapshot\<lparr>sn_config := sn_config sn, sn_have_config := True\<rparr>)"
    using sn slot by (intro parse_render_config) (simp_all add: snapshot_wf_def zero_snapshot_def)
  note all = subject_lines.parse_all [OF wf(1)] policy_lines.parse_all [OF wf(2)] port_lines.parse_all [OF wf(3)]
    ipv4_lines.parse_all [OF wf(4)] ipv6_lines.parse_all [OF wf(5)]
  have "parse_lines L zero_snapshot (map (\<lambda>w. w @ [NL]) (snapshot_lines ntop sn)) =
      (0, \<lparr>sn_config = sn_config sn, sn_have_config = True, sn_subjects = sn_subjects sn,
           sn_policies = sn_policies sn, sn_ports = sn_ports sn, sn_ipv4 = sn_ipv4 sn, sn_ipv6 = sn_ipv6 sn\<rparr>)"
    using sn unfolding snapshot_lines_def map_append
    by (simp only: parse_lines_append)
       (simp add: config [unfolded zero_snapshot_def] all snapshot_wf_def zero_snapshot_def del: map_map)
  then show ?thesis using sn(2) by (cases sn) simp
qed

text \<open>
  C13 snapshot_roundtrip: printing a well-formed snapshot and parsing the text gives exactly that
  snapshot: every number, address, prefix and hint survives, in order, up to the capacity of each
  array.
\<close>

theorem snapshot_roundtrip:
  assumes "allocs L" and "ntop_ok L ntop" and "snapshot_wf sn" and "sn_have_config sn"
    and "cfg_active_slot (sn_config sn) = 0"
  shows "parse_snapshot L zero_snapshot (snapshot_text ntop sn) = (0, sn)"
proof -
  have "list_all body_ok (snapshot_lines ntop sn)"
    using assms(1-3) subject_lines.bodies [of L "sn_subjects sn"] policy_lines.bodies [of L "sn_policies sn"]
      port_lines.bodies [of L "sn_ports sn"] ipv4_lines.bodies [of L ntop "sn_ipv4 sn"]
      ipv6_lines.bodies [of L ntop "sn_ipv6 sn"]
    by (simp add: snapshot_lines_def snapshot_wf_def render_config_def list_all_conj)
  then have "map c_str (get_lines (snapshot_text ntop sn)) = map (\<lambda>w. w @ [NL]) (snapshot_lines ntop sn)"
    by (simp add: snapshot_text_def get_lines_bodies)
  with parse_snapshot_lines [OF assms] assms(4) show ?thesis
    by (simp add: parse_snapshot_def)
qed

section \<open>A concrete library and a concrete snapshot\<close>

text \<open>
  For the witnesses: a library whose address texts are plain hexadecimal, and a snapshot with one
  record of each kind but one.
\<close>

fun unhex :: "string \<Rightarrow> u8 list option" where
  "unhex [] = Some []"
| "unhex [c] = None"
| "unhex (c # d # t) =
     (case (hex_digit c, hex_digit d, unhex t) of
        (Some x, Some y, Some r) \<Rightarrow> Some (of_nat (16 * x + y) # r)
      | _ \<Rightarrow> None)"

definition ref_ntop :: "family \<Rightarrow> u8 list \<Rightarrow> string" where
  "ref_ntop fam a = concat (map hex_text a)"

definition ref_libc :: libc where
  "ref_libc = \<lparr>lc_einval_on_empty = True,
     lc_inet_pton = (\<lambda>fam t. case unhex t of
        None \<Rightarrow> None | Some a \<Rightarrow> if length a = addr_len fam then Some a else None),
     lc_realloc = (\<lambda>_. True)\<rparr>"

lemma unhex_text: "unhex (concat (map hex_text a)) = Some a"
proof (induction a)
  case (Cons b a)
  have "of_nat (16 * (unat b div 16) + unat b mod 16) = b"
    using byte_nibbles(2) [of b] by (simp only: of_nat_unat ucast_id)
  with Cons show ?case
    using hex_char_simps(1) [OF byte_nibbles(1), of b] hex_char_simps(1) [of "unat b mod 16"]
    by (simp add: hex_text_def)
qed simp

lemma ref_ntop_text:
  "length (ref_ntop fam a) = 2 * length a" "list_all (\<lambda>c. \<not> c_isspace c) (ref_ntop fam a)"
  "list_all (\<lambda>c. c \<noteq> CHR ''/'') (ref_ntop fam a)" "body_ok (ref_ntop fam a)"
proof -
  show "length (ref_ntop fam a) = 2 * length a" "list_all (\<lambda>c. \<not> c_isspace c) (ref_ntop fam a)"
    "body_ok (ref_ntop fam a)"
    by (induction a) (simp_all add: ref_ntop_def)
  show "list_all (\<lambda>c. c \<noteq> CHR ''/'') (ref_ntop fam a)"
    by (induction a) (simp_all add: ref_ntop_def hex_text_def hex_char_simps(9) byte_nibbles(1))
qed

lemma ref_libc_ok: "allocs ref_libc" "pton_ok ref_libc" "ntop_ok ref_libc ref_ntop"
proof -
  show "allocs ref_libc" by (simp add: allocs_def ref_libc_def)
  show "pton_ok ref_libc" by (auto simp: pton_ok_def ref_libc_def split: option.splits if_splits)
  show "ntop_ok ref_libc ref_ntop"
    unfolding ntop_ok_def
  proof (intro allI impI)
    fix fam and a :: "u8 list"
    assume a: "length a = addr_len fam"
    then have "ref_ntop fam a \<noteq> []"
      using ref_ntop_text(1) [of fam a] by (cases fam) (auto simp: addr_len_def)
    with a show "lc_inet_pton ref_libc fam (ref_ntop fam a) = Some a \<and>
        word_ok (if fam = AF_INET then 15 else 45) (ref_ntop fam a) \<and>
        list_all (\<lambda>c. c \<noteq> CHR ''/'') (ref_ntop fam a) \<and> body_ok (ref_ntop fam a)"
      using ref_ntop_text [of fam a] unhex_text [of a]
      by (cases fam) (simp_all add: ref_libc_def ref_ntop_def word_ok_def addr_len_def)
  qed
qed

definition ref_snapshot :: snapshot where
  "ref_snapshot = \<lparr>
     sn_config = zero_config\<lparr>cfg_enabled := 1, cfg_app_enforcement_enabled := 1,
       cfg_app_policy_generation := 8, cfg_classifier_generation := 1,
       cfg_max_packets_inspected := 1, cfg_max_bytes_examined := 256,
       cfg_max_classification_age_ms := 200, cfg_max_pending_entries := 256,
       cfg_max_new_classifications_per_second := 512, cfg_per_subject_new_classification_rate := 64\<rparr>,
     sn_have_config = True,
     sn_subjects = [\<lparr>se_key = \<lparr>mac_addr = [2, 0, 0, 0, 0, 0x42]\<rparr>, se_subject_id = 42\<rparr>],
     sn_policies = [\<lparr>pe_key = \<lparr>pk_subject_id = 42, pk_class_id = 100, pk_reserved = 0\<rparr>, pe_verdict = 0\<rparr>],
     sn_ports = [\<lparr>te_key = \<lparr>ptk_ip_proto = 17, ptk_reserved = 0, ptk_dst_port = bswap16 53\<rparr>,
                  te_hint = \<lparr>ch_class_id = 30, ch_category_id = 30, ch_kind = CA_CLASS_KIND_CATEGORY\<rparr>\<rparr>],
     sn_ipv4 = [\<lparr>v4_key = \<lparr>p4_prefixlen = 32, p4_addr = [198, 51, 100, 3]\<rparr>,
                 v4_hint = \<lparr>ch_class_id = 100, ch_category_id = 10, ch_kind = CA_CLASS_KIND_EXACT\<rparr>\<rparr>],
     sn_ipv6 = []\<rparr>"

lemma ref_snapshot_ok: "snapshot_wf ref_snapshot" "sn_have_config ref_snapshot"
  "cfg_active_slot (sn_config ref_snapshot) = 0"
  by (auto simp: ref_snapshot_def snapshot_wf_def config_wf_def zero_config_def subject_wf_def policy_wf_def
      port_wf_def ipv4_wf_def published_hint_def canonical_def)

theorem snapshot_roundtrip_witness:
  "parse_snapshot ref_libc zero_snapshot (snapshot_text ref_ntop ref_snapshot) = (0, ref_snapshot)"
  by (rule snapshot_roundtrip [OF ref_libc_ok(1,3) ref_snapshot_ok])

lemma ref_snapshot_parse:
  "parse_snapshot ref_libc zero_snapshot (''# policy'' @ [NL] @ snapshot_text ref_ntop ref_snapshot) = (0, ref_snapshot)"
proof -
  have "list_all body_ok (''# policy'' # snapshot_lines ref_ntop ref_snapshot)"
    using ref_libc_ok ref_snapshot_ok(1)
    by (simp add: snapshot_lines_def ref_snapshot_def render_config_def render_subject_def render_policy_def
        render_port_def) (simp add: render_ipv4_body ipv4_wf_def snapshot_wf_def)
  from get_lines_bodies [OF this]
  have "map c_str (get_lines (''# policy'' @ [NL] @ snapshot_text ref_ntop ref_snapshot)) =
      (''# policy'' @ [NL]) # map (\<lambda>w. w @ [NL]) (snapshot_lines ref_ntop ref_snapshot)"
    by (simp add: snapshot_text_def)
  moreover have "parse_line ref_libc zero_snapshot (''# policy'' @ [NL]) = (0, zero_snapshot)"
    by (simp add: parse_line_def)
  ultimately show ?thesis
    using parse_snapshot_lines [OF ref_libc_ok(1,3) ref_snapshot_ok] ref_snapshot_ok(2)
    by (simp add: parse_snapshot_def)
qed

theorem snapshot_accepted_wf_witness:
  "config_wf (sn_config ref_snapshot) \<and> snapshot_wf ref_snapshot"
  using snapshot_accepted_wf [OF ref_libc_ok(2) ref_snapshot_parse] by simp

section \<open>Numbers that do not fit\<close>

text \<open>
  A decimal of a policy line that needs more than 32 bits is not
  rejected: the line is read as if each number were written modulo \<open>2 ^ 32\<close>.
\<close>

theorem oversized_numbers_wrap:
  assumes "a < 2 ^ 64" and "b < 2 ^ 64" and "v < 2 ^ 64"
  shows "parse_line L sn (''POLICY'' @ concat (map (\<lambda>n. CHR '' '' # dec n) [a, b, v]) @ [NL]) =
    parse_line L sn (''POLICY'' @ concat (map (\<lambda>n. CHR '' '' # dec n) [a mod 2 ^ 32, b mod 2 ^ 32, v mod 2 ^ 32]) @ [NL])"
proof -
  have sc: "sscanf (lits ''POLICY'' @ nums 3) (''POLICY'' @ concat (map (\<lambda>n. CHR '' '' # dec n) [x, y, z]) @ [NL]) =
      [SNum (of_nat x), SNum (of_nat y), SNum (of_nat z)]"
    if "x < 2 ^ 64" "y < 2 ^ 64" "z < 2 ^ 64" for x y z
  proof -
    have "nums 3 = [Space, Num, Space, Num, Space, Num]" by (simp add: nums_def numeral_3_eq_3)
    with that show ?thesis by (simp only: sscanf_lits) (simp add: sscanf_decimal)
  qed
  have line: "parse_line L sn (''POLICY'' @ concat (map (\<lambda>n. CHR '' '' # dec n) [x, y, z]) @ [NL]) =
      parse_policy L sn (''POLICY'' @ concat (map (\<lambda>n. CHR '' '' # dec n) [x, y, z]) @ [NL])" for x y z
    by (subst parse_line_command) simp_all
  have wrap: "(of_nat (n mod 2 ^ 32) :: u32) = of_nat n" for n
    by (simp add: word_of_nat_eq_iff take_bit_eq_mod)
  have small: "n mod 2 ^ 32 < 2 ^ 64" for n :: nat
    by (rule order_less_trans [OF mod_less_divisor]) simp_all
  show ?thesis
    unfolding line parse_policy_def sc [OF assms] sc [OF small small small] wrap ..
qed

text \<open>Subject 4294967338 with verdict 4294967296 is read as subject 42, allowed.\<close>

theorem oversized_numbers_wrap_witness:
  "parse_line ref_libc zero_snapshot (''POLICY'' @ concat (map (\<lambda>n. CHR '' '' # dec n) [4294967338, 100, 4294967296]) @ [NL]) =
   parse_line ref_libc zero_snapshot (''POLICY'' @ concat (map (\<lambda>n. CHR '' '' # dec n) [42, 100, 0]) @ [NL])"
  using oversized_numbers_wrap [of 4294967338 100 4294967296 ref_libc zero_snapshot] by simp

end
