(* ===== verification/Flow_Table.thy ===== *)
theory Flow_Table
  imports Datapath_Frame
begin

text \<open>
  What the packet handler does to the flow table.  Every step touches the entry of its own key
  only, and leaves it with the time of the packet; an invariant of the entries is kept by the handler as soon as it holds of the few entries
  the handler writes.  The latter is the contract of the locale \<open>entry_invariant\<close>, which is
  interpreted for the shape of the entries and for the coherence of cached verdicts with the
  active policy.
\<close>

section \<open>The kernel's hash map\<close>

definition flows_ok :: "kernel \<Rightarrow> bool" where
  "flows_ok K \<longleftrightarrow> map_update_ok (kn_flows K) \<and> map_delete_ok (kn_flows K)"

text \<open>Deleting a key that is present succeeds.\<close>

definition deletes_present :: "kernel \<Rightarrow> bool" where
  "deletes_present K \<longleftrightarrow> (\<forall>m k. m k \<noteq> None \<longrightarrow> fst (mo_delete (kn_flows K) m k) = 0)"

lemma flows_update_cases:
  assumes "flows_ok K"
  obtains (stored) "fst (mo_update (kn_flows K) m k v f) = 0"
      "snd (mo_update (kn_flows K) m k v f) = m(k \<mapsto> v)"
      "f = BPF_NOEXIST \<Longrightarrow> m k = None" "f = BPF_EXIST \<Longrightarrow> m k \<noteq> None"
  | (refused) "fst (mo_update (kn_flows K) m k v f) \<noteq> 0" "snd (mo_update (kn_flows K) m k v f) = m"
  using assms unfolding flows_ok_def map_update_ok_def by metis

lemma flows_delete_cases:
  assumes "flows_ok K"
  obtains (deleted) "snd (mo_delete (kn_flows K) m k) = m(k := None)"
  | (kept) "snd (mo_delete (kn_flows K) m k) = m" "fst (mo_delete (kn_flows K) m k) \<noteq> 0"
  using assms unfolding flows_ok_def map_delete_ok_def by metis

lemma flows_delete_present:
  assumes "flows_ok K" and "deletes_present K"
  shows "snd (mo_delete (kn_flows K) m k) = m(k := None)"
proof (cases "m k")
  case None
  then show ?thesis
    using assms(1) by (rule_tac flows_delete_cases [of K m k]) auto
next
  case (Some v)
  then have "fst (mo_delete (kn_flows K) m k) = 0"
    using assms(2) unfolding deletes_present_def by blast
  then show ?thesis
    using assms(1) unfolding flows_ok_def map_delete_ok_def by blast
qed

section \<open>Classification always ends\<close>

lemma initial_state_simps [simp]:
  "fs_packets_examined (initial_state c ex now) = 1"
  "fs_class_kind (initial_state c ex now) = 0"
  "fs_classification_state (initial_state c ex now) = CA_FLOW_PENDING"
  by (simp_all add: initial_state_def zero_flow_state_def)

lemma budget_exhausted:
  assumes "fs_packets_examined f = 1"
  shows "ca_budget_exhausted c f now"
  using assms by (cases "cfg_max_packets_inspected c = 1") (simp_all add: ca_budget_exhausted_def)

text \<open>The entry a classification ends with.\<close>

definition terminal_state :: "kernel \<Rightarrow> ca_config \<Rightarrow> ca_flow_state \<Rightarrow> ca_flow_key \<Rightarrow> u32 \<Rightarrow> ca_maps \<Rightarrow> ca_flow_state" where
  "terminal_state K c f k s m =
     (let (cls, kind, m1) = ca_classify K c k m;
          cls' = (if kind = CA_CLASS_KIND_NONE then CA_CLASS_UNCLASSIFIED else cls)
      in f\<lparr>fs_class_id := cls', fs_class_kind := kind,
           fs_classification_state :=
             (if kind = CA_CLASS_KIND_NONE then CA_FLOW_UNCLASSIFIED_FINAL else CA_FLOW_CLASSIFIED),
           fs_app_verdict := ca_policy_verdict c m s cls',
           fs_app_policy_generation := cfg_app_policy_generation c\<rparr>)"

lemma verdict_classify [simp]:
  "ca_policy_verdict c (snd (snd (ca_classify K c k m))) s i = ca_policy_verdict c m s i"
  by (rule snapshot_verdict) simp

lemma ca_try_terminal_eq:
  assumes "fs_packets_examined f = 1"
  shows "ca_try_terminal K c f k s now m =
    (True, terminal_state K c f k s m, snd (snd (ca_classify K c k m)))"
  using assms
  by (simp add: ca_try_terminal_def terminal_state_def Let_def split_beta budget_exhausted)

lemma classify_flows [simp]: "m_flows (snd (snd (ca_classify K c k m))) = m_flows m"
  by (simp add: ca_classify_def Let_def split_beta)

lemma record_flows [simp]: "m_flows (ca_record_terminal f b m) = m_flows m"
  by (simp add: ca_record_terminal_def Let_def)

lemma emit_flows [simp]: "m_flows (snd (snd (ca_emit_app_verdict skb v m))) = m_flows m"
  by (simp add: emit_maps)

section \<open>Other flows are not touched\<close>

lemma cached_other:
  "k' \<noteq> k \<Longrightarrow> m_flows (snd (snd (ca_cached_verdict skb c k s f m))) k' = m_flows m k'"
  by (simp add: ca_cached_verdict_def Let_def)

lemma update_other:
  "flows_ok K \<Longrightarrow> k' \<noteq> k \<Longrightarrow> snd (mo_update (kn_flows K) m k v f) k' = m k'"
  by (erule flows_update_cases [of K m k v f]) simp_all

lemma delete_other: "flows_ok K \<Longrightarrow> k' \<noteq> k \<Longrightarrow> snd (mo_delete (kn_flows K) m k) k' = m k'"
  by (erule flows_delete_cases [of K m k]) simp_all

lemma shed_other:
  "flows_ok K \<Longrightarrow> k' \<noteq> k \<Longrightarrow> m_flows (snd (snd (ca_load_shed K skb c k s now m))) k' = m_flows m k'"
  by (simp add: ca_load_shed_def Let_def split_beta update_other cached_other split: option.split)

lemma correlate_other:
  "flows_ok K \<Longrightarrow> k' \<noteq> k \<Longrightarrow> m_flows (snd (snd (ca_ingress_correlate K skb c k now m))) k' = m_flows m k'"
  by (simp add: ca_ingress_correlate_def Let_def split_beta update_other)

lemma classify_other:
  "flows_ok K \<Longrightarrow> k' \<noteq> k \<Longrightarrow>
     m_flows (snd (snd (ca_ingress_classify K skb c k s ex now m))) k' = m_flows m k'"
  by (simp add: ca_ingress_classify_def Let_def split_beta update_other delete_other shed_other
      ca_try_terminal_eq)

lemma admit_other:
  "flows_ok K \<Longrightarrow> k' \<noteq> k \<Longrightarrow> m_flows (snd (snd (ca_ingress_admit K skb c k s ex now m))) k' = m_flows m k'"
  by (simp add: ca_ingress_admit_def Let_def split_beta shed_other classify_other)

lemma known_other:
  assumes "flows_ok K" and "k' \<noteq> k"
  shows "case ca_ingress_known K skb c k s now m of
           Inl r \<Rightarrow> m_flows (snd (snd r)) k' = m_flows m k'
         | Inr m' \<Rightarrow> m_flows m' k' = m_flows m k'"
  using assms
  by (simp add: ca_ingress_known_def Let_def cached_other delete_other split: option.split)

lemma subject_other:
  assumes "flows_ok K" and "k' \<noteq> k\<lparr>fk_subject_id := s\<rparr>"
  shows "m_flows (snd (snd (ca_ingress_subject K skb c k s ex m))) k' = m_flows m k'"
  using assms known_other [OF assms, where skb = skb and c = c and s = s and now = "kn_ktime_get_ns K" and m = m]
  by (auto simp: ca_ingress_subject_def Let_def correlate_other admit_other split: sum.split)

section \<open>The entry of the packet's own flow\<close>

text \<open>The entry of \<open>k\<close>, if there is one, was seen at time \<open>now\<close>.\<close>

definition seen_at :: "u64 \<Rightarrow> ca_flow_key \<Rightarrow> (ca_flow_key \<rightharpoonup> ca_flow_state) \<Rightarrow> bool" where
  "seen_at now k t \<longleftrightarrow> pred_option (\<lambda>f. fs_last_seen_ns f = now) (t k)"

lemma seen_at_simps [simp]:
  "seen_at now k (t(k \<mapsto> f)) \<longleftrightarrow> fs_last_seen_ns f = now" "seen_at now k (t(k := None))"
  by (simp_all add: seen_at_def)

lemma cached_seen:
  "fs_last_seen_ns f = now \<Longrightarrow> seen_at now k (m_flows m) \<Longrightarrow>
     seen_at now k (m_flows (snd (snd (ca_cached_verdict skb c k s f m))))"
  by (simp add: ca_cached_verdict_def Let_def)

lemma shed_seen:
  assumes "flows_ok K"
  shows "seen_at now k (m_flows (snd (snd (ca_load_shed K skb c k s now m))))"
proof (rule flows_update_cases [OF assms, of "m_flows m" k "shed_state c m s now" BPF_NOEXIST])
  let ?u = "mo_update (kn_flows K) (m_flows m) k (shed_state c m s now) BPF_NOEXIST"
  assume "fst ?u = 0" "snd ?u = (m_flows m)(k \<mapsto> shed_state c m s now)"
  then show ?thesis by (simp add: ca_load_shed_def Let_def split_beta) (simp add: shed_state_def)
next
  let ?u = "mo_update (kn_flows K) (m_flows m) k (shed_state c m s now) BPF_NOEXIST"
  assume "fst ?u \<noteq> 0" "snd ?u = m_flows m"
  then show ?thesis
    by (simp add: ca_load_shed_def Let_def split_beta cached_seen split: option.split) (simp add: seen_at_def)
qed

lemma correlate_seen:
  assumes "flows_ok K" and "seen_at now k (m_flows m)"
  shows "seen_at now k (m_flows (snd (snd (ca_ingress_correlate K skb c k now m))))"
proof -
  have "seen_at now k (snd (mo_update (kn_flows K) (m_flows m) k f BPF_NOEXIST))" if "fs_last_seen_ns f = now" for f
    using assms that by (rule_tac flows_update_cases [of K "m_flows m" k f BPF_NOEXIST]) simp_all
  then show ?thesis by (simp add: ca_ingress_correlate_def Let_def split_beta)
qed

lemma classify_seen:
  assumes ok: "flows_ok K"
  shows "seen_at now k (m_flows (snd (snd (ca_ingress_classify K skb c k s ex now m))))"
proof -
  have last: "fs_last_seen_ns (terminal_state K c (initial_state c ex now) k s m') = now" for m'
    by (simp add: terminal_state_def initial_state_def Let_def split_beta)
  have "seen_at now k (snd (mo_update (kn_flows K) t k f BPF_EXIST))"
    if "fst (mo_update (kn_flows K) t k f BPF_EXIST) = 0" "fs_last_seen_ns f = now" for t f
    using that by (rule_tac flows_update_cases [OF ok, of t k f BPF_EXIST]) simp_all
  with last shed_seen [OF ok] show ?thesis
    by (simp add: ca_ingress_classify_def Let_def split_beta ca_try_terminal_eq)
qed

lemma known_seen:
  assumes "flows_ok K"
  shows "case ca_ingress_known K skb c k s now m of
           Inl r \<Rightarrow> seen_at now k (m_flows (snd (snd r)))
         | Inr m' \<Rightarrow> seen_at now k (m_flows m')"
proof (cases "m_flows m k")
  case None
  then show ?thesis by (simp add: ca_ingress_known_def seen_at_def)
next
  case (Some f)
  have "seen_at now k (snd (mo_delete (kn_flows K) ((m_flows m)(k \<mapsto> f\<lparr>fs_last_seen_ns := now\<rparr>)) k))"
    by (rule flows_delete_cases [OF assms, of "(m_flows m)(k \<mapsto> f\<lparr>fs_last_seen_ns := now\<rparr>)" k]) simp_all
  with Some show ?thesis by (simp add: ca_ingress_known_def Let_def cached_seen)
qed

lemma subject_seen:
  assumes ok: "flows_ok K"
  shows "seen_at (kn_ktime_get_ns K) (k\<lparr>fk_subject_id := s\<rparr>)
    (m_flows (snd (snd (ca_ingress_subject K skb c k s ex m))))"
  using known_seen [OF ok, where skb = skb and c = c and k = "k\<lparr>fk_subject_id := s\<rparr>" and s = s
      and now = "kn_ktime_get_ns K" and m = m]
  by (auto simp: ca_ingress_subject_def ca_ingress_admit_def Let_def split_beta correlate_seen [OF ok]
      classify_seen [OF ok] shed_seen [OF ok] split: sum.split)

section \<open>Invariants of the entries\<close>

definition all_entries :: "(ca_flow_key \<Rightarrow> ca_flow_state \<Rightarrow> bool) \<Rightarrow> ca_maps \<Rightarrow> bool" where
  "all_entries P m \<longleftrightarrow> (\<forall>k f. m_flows m k = Some f \<longrightarrow> P k f)"

lemma all_entries_flows: "m_flows m = m_flows m' \<Longrightarrow> all_entries P m = all_entries P m'"
  by (simp add: all_entries_def)

lemma all_entriesI_upd:
  "all_entries P m \<Longrightarrow> m_flows m' = (m_flows m)(k \<mapsto> f) \<Longrightarrow> P k f \<Longrightarrow> all_entries P m'"
  by (simp add: all_entries_def)

lemma all_entriesI_del:
  "all_entries P m \<Longrightarrow> m_flows m' = (m_flows m)(k := None) \<Longrightarrow> all_entries P m'"
  by (simp add: all_entries_def)

text \<open>
  The contract of an entry invariant under the configuration \<open>c\<close> and the snapshot of \<open>m0\<close>:
  it survives a new time stamp and a re-evaluated verdict, and holds of the three entries the
  handler creates.
\<close>

locale entry_invariant =
  fixes K :: kernel and c :: ca_config and m0 :: ca_maps
    and P :: "ca_flow_key \<Rightarrow> ca_flow_state \<Rightarrow> bool"
  assumes touch: "P k f \<Longrightarrow> P k (f\<lparr>fs_last_seen_ns := t\<rparr>)"
    and refresh: "P k f \<Longrightarrow>
      P k (f\<lparr>fs_app_verdict := ca_policy_verdict c m0 (fk_subject_id k) (fs_class_id f),
             fs_app_policy_generation := cfg_app_policy_generation c\<rparr>)"
    and shed: "P k (shed_state c m0 (fk_subject_id k) t)"
    and correlate: "P k (zero_flow_state\<lparr>
            fs_first_seen_ns := t, fs_last_seen_ns := t,
            fs_app_policy_generation := cfg_app_policy_generation c,
            fs_classifier_generation := cfg_classifier_generation c,
            fs_class_id := CA_CLASS_UNCLASSIFIED,
            fs_classification_state := CA_FLOW_UNCLASSIFIED_FINAL,
            fs_app_verdict := CA_VERDICT_ALLOW\<rparr>)"
    and terminal: "snapshot_of m = snapshot_of m0 \<Longrightarrow>
      P k (terminal_state K c (initial_state c ex t) k (fk_subject_id k) m)"
begin

lemma cached_entries:
  assumes "all_entries P m" and "P k f" and "m_flows m k = Some f" and "snapshot_of m = snapshot_of m0"
  shows "all_entries P (snd (snd (ca_cached_verdict skb c k (fk_subject_id k) f m)))"
proof -
  have "ca_policy_verdict c m s i = ca_policy_verdict c m0 s i" for s i
    using assms(4) by (rule snapshot_verdict)
  then show ?thesis
    using assms(1) refresh [OF assms(2)]
    by (simp add: ca_cached_verdict_def Let_def all_entries_def)
qed

lemma shed_entries:
  assumes ok: "flows_ok K" and all: "all_entries P m" and snap: "snapshot_of m = snapshot_of m0"
  shows "all_entries P (snd (snd (ca_load_shed K skb c k (fk_subject_id k) now m)))"
proof -
  have v: "shed_state c m (fk_subject_id k) now = shed_state c m0 (fk_subject_id k) now"
    using snapshot_verdict [OF snap] by (simp add: shed_state_def)
  let ?u = "mo_update (kn_flows K) (m_flows m) k (shed_state c m (fk_subject_id k) now) BPF_NOEXIST"
  show ?thesis
  proof (rule flows_update_cases [OF ok, of "m_flows m" k "shed_state c m (fk_subject_id k) now" BPF_NOEXIST])
    assume "fst ?u = 0" and "snd ?u = (m_flows m)(k \<mapsto> shed_state c m (fk_subject_id k) now)"
    then show ?thesis
      using all shed [of k now] v by (simp add: ca_load_shed_def Let_def split_beta all_entries_def)
  next
    assume e: "fst ?u \<noteq> 0" and u: "snd ?u = m_flows m"
    show ?thesis
    proof (cases "m_flows m k")
      case None
      with e u all show ?thesis by (simp add: ca_load_shed_def Let_def split_beta all_entries_def)
    next
      case (Some f)
      then have f: "P k (f\<lparr>fs_last_seen_ns := now\<rparr>)" using all by (auto simp: all_entries_def intro: touch)
      let ?m = "(ca_stat_inc CA_STAT_CLASSIFICATION_ADMISSION_DENIED m)\<lparr>m_flows :=
        (m_flows m)(k \<mapsto> f\<lparr>fs_last_seen_ns := now\<rparr>)\<rparr>"
      have "all_entries P ?m" using all f by (simp add: all_entries_def)
      moreover from this have
        "all_entries P (snd (snd (ca_cached_verdict skb c k (fk_subject_id k) (f\<lparr>fs_last_seen_ns := now\<rparr>) ?m)))"
        using f snap by (intro cached_entries) simp_all
      ultimately show ?thesis
        using e u Some by (simp add: ca_load_shed_def Let_def split_beta all_entries_def)
    qed
  qed
qed

lemma known_entries:
  assumes ok: "flows_ok K" and all: "all_entries P m" and snap: "snapshot_of m = snapshot_of m0"
  shows "case ca_ingress_known K skb c k (fk_subject_id k) now m of
           Inl r \<Rightarrow> all_entries P (snd (snd r))
         | Inr m' \<Rightarrow> all_entries P m' \<and> snapshot_of m' = snapshot_of m0"
proof (cases "m_flows m k")
  case None
  then show ?thesis using all snap by (simp add: ca_ingress_known_def)
next
  case (Some f)
  let ?f = "f\<lparr>fs_last_seen_ns := now\<rparr>"
  let ?m = "m\<lparr>m_flows := (m_flows m)(k \<mapsto> ?f)\<rparr>"
  have f: "P k ?f" using all Some by (auto simp: all_entries_def intro: touch)
  then have m: "all_entries P ?m" using all by (simp add: all_entries_def)
  moreover have "all_entries P (snd (snd (ca_cached_verdict skb c k (fk_subject_id k) ?f ?m)))"
    using m f snap by (intro cached_entries) simp_all
  moreover have "all_entries P (?m\<lparr>m_flows := snd (mo_delete (kn_flows K) (m_flows ?m) k)\<rparr>)"
    using m by (rule_tac flows_delete_cases [OF ok, of "m_flows ?m" k]) (simp_all add: all_entries_def)
  ultimately show ?thesis
    using Some snap by (simp add: ca_ingress_known_def Let_def all_entries_def)
qed

lemma correlate_entries:
  assumes ok: "flows_ok K" and all: "all_entries P m"
  shows "all_entries P (snd (snd (ca_ingress_correlate K skb c k now m)))"
  using all correlate [of k now]
  by (rule_tac flows_update_cases [OF ok, of "m_flows m" k "zero_flow_state\<lparr>
            fs_first_seen_ns := now, fs_last_seen_ns := now,
            fs_app_policy_generation := cfg_app_policy_generation c,
            fs_classifier_generation := cfg_classifier_generation c,
            fs_class_id := CA_CLASS_UNCLASSIFIED,
            fs_classification_state := CA_FLOW_UNCLASSIFIED_FINAL,
            fs_app_verdict := CA_VERDICT_ALLOW\<rparr>" BPF_NOEXIST])
     (simp_all add: ca_ingress_correlate_def Let_def split_beta all_entries_def)

lemma classify_entries:
  assumes ok: "flows_ok K" and del: "deletes_present K"
    and all: "all_entries P m" and snap: "snapshot_of m = snapshot_of m0"
  shows "all_entries P (snd (snd (ca_ingress_classify K skb c k (fk_subject_id k) ex now m)))"
proof (rule flows_update_cases [OF ok, of "m_flows m" k "initial_state c ex now" BPF_NOEXIST])
  let ?u = "mo_update (kn_flows K) (m_flows m) k (initial_state c ex now) BPF_NOEXIST"
  assume e: "fst ?u \<noteq> 0" and u: "snd ?u = m_flows m"
  have "all_entries P (ca_pending_release K (m\<lparr>m_flows := m_flows m\<rparr>))"
    using all by (simp add: all_entries_def)
  then have "all_entries P (snd (snd (ca_load_shed K skb c k (fk_subject_id k) now
      (ca_pending_release K (m\<lparr>m_flows := m_flows m\<rparr>)))))"
    using snap by (intro shed_entries [OF ok]) simp_all
  with e u show ?thesis by (simp add: ca_ingress_classify_def Let_def split_beta)
next
  let ?u = "mo_update (kn_flows K) (m_flows m) k (initial_state c ex now) BPF_NOEXIST"
  let ?m5 = "ca_stat_add CA_STAT_CLASSIFICATION_BYTES (ucast ex) (ca_stat_inc CA_STAT_CLASSIFICATION_PACKETS
    (ca_stat_inc CA_STAT_FLOWS_PENDING (ca_stat_inc CA_STAT_FLOWS_TOTAL
      (m\<lparr>m_flows := (m_flows m)(k \<mapsto> initial_state c ex now)\<rparr>))))"
  let ?t = "terminal_state K c (initial_state c ex now) k (fk_subject_id k) ?m5"
  assume e: "fst ?u = 0" and u: "snd ?u = (m_flows m)(k \<mapsto> initial_state c ex now)"
    and absent: "BPF_NOEXIST = BPF_NOEXIST \<Longrightarrow> m_flows m k = None"
  have t: "P k ?t" using snap by (intro terminal) simp
  let ?m6 = "snd (snd (ca_classify K c k ?m5))"
  let ?v = "mo_update (kn_flows K) (m_flows ?m6) k ?t BPF_EXIST"
  show ?thesis
  proof (rule flows_update_cases [OF ok, of "m_flows ?m6" k ?t BPF_EXIST])
    assume "fst ?v = 0" and "snd ?v = (m_flows ?m6)(k \<mapsto> ?t)"
    with e u t all show ?thesis
      by (simp add: ca_ingress_classify_def Let_def split_beta ca_try_terminal_eq all_entries_def)
  next
    assume e2: "fst ?v \<noteq> 0" and u2: "snd ?v = m_flows ?m6"
    define m9 where "m9 = (ca_pending_release K (?m6\<lparr>m_flows := m_flows ?m6\<rparr>))\<lparr>m_flows :=
      snd (mo_delete (kn_flows K) (m_flows ?m6) k)\<rparr>"
    have "m_flows m9 = (m_flows m)(k := None)"
      using flows_delete_present [OF ok del] by (simp add: m9_def)
    then have "all_entries P m9" using all by (simp add: all_entries_def)
    moreover have "snapshot_of m9 = snapshot_of m0" using snap by (simp add: m9_def)
    ultimately have "all_entries P (snd (snd (ca_load_shed K skb c k (fk_subject_id k) now m9)))"
      by (intro shed_entries [OF ok])
    with e u e2 u2 show ?thesis
      by (simp add: ca_ingress_classify_def Let_def split_beta ca_try_terminal_eq m9_def)
  qed
qed

lemma admit_entries:
  assumes ok: "flows_ok K" and del: "deletes_present K"
    and all: "all_entries P m" and snap: "snapshot_of m = snapshot_of m0"
  shows "all_entries P (snd (snd (ca_ingress_admit K skb c k (fk_subject_id k) ex now m)))"
proof -
  have "all_entries P m'" if "m_flows m' = m_flows m" for m'
    using all that by (simp add: all_entries_def)
  with ok del snap show ?thesis
    by (simp add: ca_ingress_admit_def Let_def split_beta shed_entries classify_entries)
qed

lemma subject_entries:
  assumes ok: "flows_ok K" and del: "deletes_present K"
    and all: "all_entries P m" and snap: "snapshot_of m = snapshot_of m0"
  shows "all_entries P (snd (snd (ca_ingress_subject K skb c k s ex m)))"
  using known_entries [OF ok all snap, of skb "k\<lparr>fk_subject_id := s\<rparr>" "kn_ktime_get_ns K"]
    admit_entries [OF ok del, of _ skb "k\<lparr>fk_subject_id := s\<rparr>" ex "kn_ktime_get_ns K"]
    correlate_entries [OF ok, of _ skb "k\<lparr>fk_subject_id := s\<rparr>" "kn_ktime_get_ns K"]
  by (auto simp: ca_ingress_subject_def Let_def split: sum.splits)

lemma ingress_entries:
  assumes ok: "flows_ok K" and del: "deletes_present K" and c: "m_config m 0 = Some c"
    and all: "all_entries P m" and snap: "snapshot_of m = snapshot_of m0"
    and run: "ca_ingress K m skb = Some (act, skb', m')"
  shows "all_entries P m'"
  using run
proof (cases rule: ca_ingress_cases)
  case off
  with all show ?thesis by simp
next
  case (on c' parsed key mac ex)
  have stat: "all_entries P (ca_stat_inc i m1)" if "all_entries P m1" for i m1
    using that by (simp add: all_entries_def)
  have emit: "all_entries P (snd (snd (ca_emit_app_verdict k v m1)))" if "all_entries P m1" for k v m1
    using that by (simp add: all_entries_def)
  have same: "c' = c" using on(1) c by simp
  have "all_entries P (snd (snd (act, skb', m')))"
    unfolding on(4) Let_def same
    using all snap
    by (auto simp: stat emit split: option.split intro!: subject_entries [OF ok del])
  then show ?thesis by simp
qed

end

section \<open>The shape of an entry\<close>

text \<open>
  An entry is either classified, with a kind, or finally unclassified, without one; none stays
  pending.
\<close>

definition entry_wf :: "ca_flow_key \<Rightarrow> ca_flow_state \<Rightarrow> bool" where
  "entry_wf k f \<longleftrightarrow>
     (if fs_class_kind f = CA_CLASS_KIND_NONE
      then fs_classification_state f = CA_FLOW_UNCLASSIFIED_FINAL
      else fs_classification_state f = CA_FLOW_CLASSIFIED)"

interpretation entry_wf: entry_invariant K c m0 entry_wf for K c m0
  by unfold_locales
     (simp_all add: entry_wf_def shed_state_def zero_flow_state_def terminal_state_def Let_def split_beta)

text \<open>
  A cached verdict of a classified flow that carries the active policy generation is the verdict
  of the active policy.
\<close>

definition entry_coherent :: "ca_config \<Rightarrow> ca_maps \<Rightarrow> ca_flow_key \<Rightarrow> ca_flow_state \<Rightarrow> bool" where
  "entry_coherent c m k f \<longleftrightarrow>
     (fs_class_kind f \<noteq> CA_CLASS_KIND_NONE \<and>
      fs_app_policy_generation f = cfg_app_policy_generation c \<longrightarrow>
      fs_app_verdict f = ca_policy_verdict c m (fk_subject_id k) (fs_class_id f))"

lemma terminal_state_coherent:
  "snapshot_of m = snapshot_of m0 \<Longrightarrow>
     entry_coherent c m0 k (terminal_state K c f k (fk_subject_id k) m)"
  using snapshot_verdict [of m m0]
  by (simp add: entry_coherent_def terminal_state_def Let_def split_beta)

interpretation entry_coherent: entry_invariant K c m0 "entry_coherent c m0" for K c m0
  by unfold_locales
     (auto simp: entry_coherent_def shed_state_def zero_flow_state_def intro: terminal_state_coherent
       [unfolded entry_coherent_def, rule_format])

end
