(* ===== verification/Frame_Encoding.thy ===== *)
theory Frame_Encoding
  imports Packet_Parser
begin

text \<open>
  An abstract syntax of the frames the datapath supports, its wire format, and the proof that
  the parser recovers from the wire format exactly the fields that were encoded: at most two
  VLAN tags, IPv4 with options or IPv6 without extension headers, TCP with options, UDP or any
  other transport.  Ports and lengths are in host order in the syntax and big-endian on the
  wire.  The syntax is a specification of the parser: the repository has no encoder.
\<close>

section \<open>Frames\<close>

datatype transport =
    Tcp_Segment (tr_sport: u16) (tr_dport: u16) (tcp_seq_ack: "u8 list") (tcp_doff: u8) (tcp_rest: "u8 list")
  | Udp_Datagram (tr_sport: u16) (tr_dport: u16) (udp_len: u16) (udp_rest: "u8 list")
  | Other_Transport (other_proto: u8) (other_rest: "u8 list")

datatype network =
    Ipv4 (ip4_tos: u8) (ip4_total_len: u16) (ip4_id: u16) (ip4_frag: u16) (ip4_ttl: u8) (ip4_csum: u16)
      (ip_src: "u8 list") (ip_dst: "u8 list") (ip4_options: "u8 list")
  | Ipv6 (ip6_class_flow: "u8 \<times> u8 \<times> u8 \<times> u8") (ip6_payload_len: u16) (ip6_hops: u8)
      (ip_src: "u8 list") (ip_dst: "u8 list")

record frame =
  fr_dst_mac :: "u8 list"
  fr_src_mac :: "u8 list"
  fr_tags :: "(u16 \<times> u16) list"
  fr_net :: network
  fr_transport :: transport

definition be16_bytes :: "u16 \<Rightarrow> u8 list" where
  "be16_bytes w = [ucast (drop_bit 8 w), ucast w]"

fun transport_proto :: "transport \<Rightarrow> u8" where
  "transport_proto (Tcp_Segment _ _ _ _ _) = IPPROTO_TCP"
| "transport_proto (Udp_Datagram _ _ _ _) = IPPROTO_UDP"
| "transport_proto (Other_Transport p _) = p"

fun transport_bytes :: "transport \<Rightarrow> u8 list" where
  "transport_bytes (Tcp_Segment sp dp sa doff rest) = be16_bytes sp @ be16_bytes dp @ sa @ [doff] @ rest"
| "transport_bytes (Udp_Datagram sp dp len rest) = be16_bytes sp @ be16_bytes dp @ be16_bytes len @ rest"
| "transport_bytes (Other_Transport _ rest) = rest"

fun transport_header_len :: "transport \<Rightarrow> nat" where
  "transport_header_len (Tcp_Segment _ _ _ doff _) = unat (drop_bit 4 doff) * 4"
| "transport_header_len (Udp_Datagram _ _ _ _) = 8"
| "transport_header_len (Other_Transport _ _) = 0"

fun network_bytes :: "u8 \<Rightarrow> network \<Rightarrow> u8 list" where
  "network_bytes proto (Ipv4 tos len ident frag ttl csum src dst opts) =
     [0x45 + of_nat (length opts div 4), tos] @ be16_bytes len @ be16_bytes ident @ be16_bytes frag @
     [ttl, proto] @ be16_bytes csum @ src @ dst @ opts"
| "network_bytes proto (Ipv6 (c0, c1, c2, c3) len hops src dst) =
     [0x60 OR (c0 AND 15), c1, c2, c3] @ be16_bytes len @ [proto, hops] @ src @ dst"

fun network_header_len :: "network \<Rightarrow> nat" where
  "network_header_len (Ipv4 _ _ _ _ _ _ _ _ opts) = 20 + length opts"
| "network_header_len (Ipv6 _ _ _ _ _) = 40"

fun network_ethertype :: "network \<Rightarrow> u16" where
  "network_ethertype (Ipv4 _ _ _ _ _ _ _ _ _) = ETH_P_IP"
| "network_ethertype (Ipv6 _ _ _ _ _) = ETH_P_IPV6"

text \<open>The bytes the network header declares for the transport layer.\<close>

fun network_l4_len :: "network \<Rightarrow> nat" where
  "network_l4_len (Ipv4 _ len _ _ _ _ _ _ opts) = unat len - (20 + length opts)"
| "network_l4_len (Ipv6 _ len _ _ _) = unat len"

definition tag_bytes :: "(u16 \<times> u16) list \<Rightarrow> u8 list" where
  "tag_bytes tags = concat (map (\<lambda>(tpid, tci). be16_bytes tpid @ be16_bytes tci) tags)"

definition frame_bytes :: "frame \<Rightarrow> u8 list" where
  "frame_bytes f = fr_dst_mac f @ fr_src_mac f @ tag_bytes (fr_tags f) @
     be16_bytes (network_ethertype (fr_net f)) @
     network_bytes (transport_proto (fr_transport f)) (fr_net f) @ transport_bytes (fr_transport f)"

definition frame_header_len :: "frame \<Rightarrow> nat" where
  "frame_header_len f = 14 + 4 * length (fr_tags f) + network_header_len (fr_net f) +
     transport_header_len (fr_transport f)"

section \<open>Well-formed frames\<close>

fun transport_wf :: "nat \<Rightarrow> transport \<Rightarrow> bool" where
  "transport_wf l4_len (Tcp_Segment sp dp sa doff rest) \<longleftrightarrow>
     length sa = 8 \<and> 5 \<le> unat (drop_bit 4 doff) \<and> unat (drop_bit 4 doff) * 4 \<le> l4_len \<and>
     unat (drop_bit 4 doff) * 4 \<le> 13 + length rest"
| "transport_wf l4_len (Udp_Datagram sp dp len rest) \<longleftrightarrow>
     8 \<le> unat len \<and> unat len \<le> l4_len \<and> 2 \<le> length rest"
| "transport_wf l4_len (Other_Transport p rest) \<longleftrightarrow> p \<noteq> IPPROTO_TCP \<and> p \<noteq> IPPROTO_UDP"

fun network_wf :: "nat \<Rightarrow> u32 \<Rightarrow> u8 \<Rightarrow> network \<Rightarrow> bool" where
  "network_wf off packet_len proto (Ipv4 tos len ident frag ttl csum src dst opts) \<longleftrightarrow>
     length src = 4 \<and> length dst = 4 \<and> length opts \<le> 40 \<and> length opts mod 4 = 0 \<and>
     frag AND CA_IPV4_FRAGMENT_MASK = 0 \<and>
     20 + length opts \<le> unat len \<and> off + unat len \<le> unat packet_len"
| "network_wf off packet_len proto (Ipv6 cf len hops src dst) \<longleftrightarrow>
     length src = 16 \<and> length dst = 16 \<and> \<not> ca_is_ipv6_extension proto \<and>
     0 < unat len \<and> off + 40 + unat len \<le> unat packet_len"

definition frame_wf :: "u32 \<Rightarrow> frame \<Rightarrow> bool" where
  "frame_wf packet_len f \<longleftrightarrow>
     length (fr_dst_mac f) = 6 \<and> length (fr_src_mac f) = 6 \<and> length (fr_tags f) \<le> 2 \<and>
     list_all (\<lambda>(tpid, tci). tpid = ETH_P_8021Q \<or> tpid = ETH_P_8021AD) (fr_tags f) \<and>
     network_wf (14 + 4 * length (fr_tags f)) packet_len (transport_proto (fr_transport f)) (fr_net f) \<and>
     transport_wf (network_l4_len (fr_net f)) (fr_transport f)"

text \<open>The canonical flow key of a frame.\<close>

fun transport_ports :: "transport \<Rightarrow> u16 \<times> u16" where
  "transport_ports (Tcp_Segment sp dp _ _ _) = (sp, dp)"
| "transport_ports (Udp_Datagram sp dp _ _) = (sp, dp)"
| "transport_ports (Other_Transport _ _) = (0, 0)"

definition frame_key :: "frame \<Rightarrow> ca_flow_key" where
  "frame_key f = \<lparr>fk_subject_id = 0,
     fk_eth_proto = bpf_htons (network_ethertype (fr_net f)),
     fk_ip_proto = transport_proto (fr_transport f), fk_reserved = 0,
     fk_src_port = bpf_htons (fst (transport_ports (fr_transport f))),
     fk_dst_port = bpf_htons (snd (transport_ports (fr_transport f))),
     fk_addr = ip_src (fr_net f) @ ip_dst (fr_net f) @
       replicate (32 - length (ip_src (fr_net f)) - length (ip_dst (fr_net f))) 0\<rparr>"

section \<open>Fields of the wire format\<close>

lemma le16_be16_bytes: "le16 (ucast (drop_bit 8 w)) (ucast w) = bswap16 w"
  by (rule bit_word_eqI) (auto simp: bit_le16 bit_bswap16 bit_simps add.commute)

lemma be16_nat_be16_bytes: "be16_nat (ucast (drop_bit 8 w)) (ucast w) = unat (w :: u16)"
  by (metis unat_le16 le16_be16_bytes bswap16_le16 bswap16_bswap16)

lemma length_be16_bytes [simp]: "length (be16_bytes w) = 2"
  by (simp add: be16_bytes_def)

lemma ihl_byte:
  assumes "length (opts :: u8 list) \<le> 40" and "length opts mod 4 = 0"
  shows "drop_bit 4 (0x45 + of_nat (length opts div 4) :: u8) = 4"
    and "unat ((0x45 + of_nat (length opts div 4) :: u8) AND 15) * 4 = 20 + length opts"
proof -
  obtain k where k: "length opts = 4 * k" using assms(2) by auto
  with assms(1) have "k \<le> 10" by simp
  then have "k = 0 \<or> k = 1 \<or> k = 2 \<or> k = 3 \<or> k = 4 \<or> k = 5 \<or> k = 6 \<or> k = 7 \<or> k = 8 \<or> k = 9 \<or> k = 10"
    by presburger
  then show "drop_bit 4 (0x45 + of_nat (length opts div 4) :: u8) = 4"
    and "unat ((0x45 + of_nat (length opts div 4) :: u8) AND 15) * 4 = 20 + length opts"
    using k by auto
qed

lemma version6_byte: "drop_bit 4 (0x60 OR (c AND 15) :: u8) = 6"
proof (rule bit_word_eqI)
  fix n assume "n < LENGTH(8)"
  then have "n \<in> {0, 1, 2, 3, 4, 5, 6, 7}" by auto
  then show "bit (drop_bit 4 (0x60 OR (c AND 15) :: u8)) n = bit (6 :: u8) n"
    by (auto simp: bit_simps)
qed

lemma htons_mask: "bswap16 frag AND bswap16 m = bswap16 (frag AND m)"
  by (rule bit_word_eqI) (auto simp: bit_bswap16 bit_simps)

lemmas wire_simps = be16_bytes_def le16_be16_bytes be16_nat_be16_bytes mem_write_def
  version6_byte htons_mask

section \<open>Parsing what was encoded\<close>

lemma ipv4_roundtrip:
  assumes "network_wf (length pre) packet_len proto (Ipv4 tos len ident frag ttl csum src dst opts)"
    and "length (fk_addr key) = 32"
  shows "ca_parse_ipv4 (pre @ network_bytes proto (Ipv4 tos len ident frag ttl csum src dst opts) @ rest)
           packet_len key (length pre) =
         Some (Inr (key\<lparr>fk_ip_proto := proto, fk_addr := src @ dst @ drop 8 (fk_addr key)\<rparr>,
           unat len - (20 + length opts), length pre + (20 + length opts)))"
  using assms ihl_byte [of opts]
  by (simp add: ca_parse_ipv4_def Let_def wire_simps nth_append)

lemma ipv6_roundtrip:
  assumes "network_wf (length pre) packet_len proto (Ipv6 cf len hops src dst)"
    and "length (fk_addr key) = 32"
  shows "ca_parse_ipv6 (pre @ network_bytes proto (Ipv6 cf len hops src dst) @ rest)
           packet_len key (length pre) =
         Some (Inr (key\<lparr>fk_ip_proto := proto, fk_addr := src @ dst\<rparr>, unat len, length pre + 40))"
  using assms
  by (cases cf) (simp add: ca_parse_ipv6_def Let_def wire_simps)

lemma l4_roundtrip:
  assumes "transport_wf l4_len t" and "fk_ip_proto key = transport_proto t"
    and "fk_src_port key = 0" and "fk_dst_port key = 0"
  shows "ca_parse_l4 (pre @ transport_bytes t) key l4_len (length pre) =
         Some (Inr (key\<lparr>fk_src_port := bpf_htons (fst (transport_ports t)),
                        fk_dst_port := bpf_htons (snd (transport_ports t))\<rparr>,
                    length pre + transport_header_len t))"
  using assms
  by (cases t; cases key) (simp_all add: ca_parse_l4_def Let_def wire_simps nth_append)

text \<open>
  The type field that follows the addresses, and the bytes after it up to the network header:
  each tag contributes its control word and the next type field.
\<close>

fun first_type :: "(u16 \<times> u16) list \<Rightarrow> u16 \<Rightarrow> u16" where
  "first_type [] et = et"
| "first_type ((tpid, tci) # ts) et = tpid"

fun tag_tail :: "(u16 \<times> u16) list \<Rightarrow> u16 \<Rightarrow> u8 list" where
  "tag_tail [] et = []"
| "tag_tail ((tpid, tci) # ts) et = be16_bytes tci @ be16_bytes (first_type ts et) @ tag_tail ts et"

lemma tag_bytes_split: "tag_bytes ts @ be16_bytes et = be16_bytes (first_type ts et) @ tag_tail ts et"
  by (induction ts et rule: tag_tail.induct) (auto simp: tag_bytes_def)

lemma length_tag_tail: "length (tag_tail ts et) = 4 * length ts"
  by (induction ts et rule: tag_tail.induct) auto

lemma vlans_roundtrip:
  assumes "length ts \<le> n" and "et \<noteq> ETH_P_8021Q" and "et \<noteq> ETH_P_8021AD"
    and "list_all (\<lambda>(tpid, tci). tpid = ETH_P_8021Q \<or> tpid = ETH_P_8021AD) ts"
  shows "ca_parse_vlans n (pre @ tag_tail ts et @ rest) (bpf_htons (first_type ts et)) (length pre) =
         Some (Inr (bpf_htons et, length pre + 4 * length ts))"
  using assms
proof (induction n arbitrary: pre ts)
  case 0
  then show ?case by simp
next
  case (Suc n)
  show ?case
  proof (cases ts)
    case Nil
    with Suc.prems show ?thesis by simp
  next
    case (Cons t ts')
    obtain tpid tci where t: "t = (tpid, tci)" by force
    let ?pre = "pre @ be16_bytes tci @ be16_bytes (first_type ts' et)"
    have "ca_parse_vlans n (?pre @ tag_tail ts' et @ rest) (bpf_htons (first_type ts' et)) (length ?pre) =
        Some (Inr (bpf_htons et, length ?pre + 4 * length ts'))"
      using Suc.prems Cons by (intro Suc.IH) simp_all
    moreover have "ld16 (pre @ tag_tail ts et @ rest) (length pre + 2) = Some (bpf_htons (first_type ts' et))"
      using Cons t by (simp add: be16_bytes_def le16_be16_bytes nth_append)
    ultimately show ?thesis
      using Suc.prems Cons t by (auto simp: add.assoc)
  qed
qed

section \<open>The round trip of a whole frame\<close>

lemma network_roundtrip:
  assumes "network_wf (length pre) packet_len proto n"
  shows "(if bpf_htons (network_ethertype n) = bpf_htons ETH_P_IP
          then ca_parse_ipv4 (pre @ network_bytes proto n @ rest) packet_len
                 (zero_flow_key\<lparr>fk_eth_proto := bpf_htons (network_ethertype n)\<rparr>) (length pre)
          else if bpf_htons (network_ethertype n) = bpf_htons ETH_P_IPV6
          then ca_parse_ipv6 (pre @ network_bytes proto n @ rest) packet_len
                 (zero_flow_key\<lparr>fk_eth_proto := bpf_htons (network_ethertype n)\<rparr>) (length pre)
          else Some (Inl (zero_flow_key\<lparr>fk_eth_proto := bpf_htons (network_ethertype n)\<rparr>))) =
     Some (Inr (zero_flow_key\<lparr>fk_eth_proto := bpf_htons (network_ethertype n), fk_ip_proto := proto,
         fk_addr := ip_src n @ ip_dst n @ replicate (32 - length (ip_src n) - length (ip_dst n)) 0\<rparr>,
       network_l4_len n, length pre + network_header_len n))"
proof (cases n)
  case (Ipv4 tos len ident frag ttl csum src dst opts)
  then show ?thesis
    using assms ipv4_roundtrip [of pre packet_len proto tos len ident frag ttl csum src dst opts
        "zero_flow_key\<lparr>fk_eth_proto := bpf_htons ETH_P_IP\<rparr>" rest]
    by (simp add: zero_flow_key_def)
next
  case (Ipv6 cf len hops src dst)
  then show ?thesis
    using assms ipv6_roundtrip [of pre packet_len proto cf len hops src dst
        "zero_flow_key\<lparr>fk_eth_proto := bpf_htons ETH_P_IPV6\<rparr>" rest]
    by (simp add: zero_flow_key_def)
qed

lemma length_network_bytes:
  "network_wf off packet_len proto n \<Longrightarrow> length (network_bytes proto n) = network_header_len n"
  by (cases "(proto, n)" rule: network_bytes.cases) auto

lemma header_len_le:
  assumes "frame_wf packet_len f"
  shows "frame_header_len f \<le> 142"
proof -
  have "network_header_len (fr_net f) \<le> 60" and "length (fr_tags f) \<le> 2"
    using assms by (cases "fr_net f"; simp add: frame_wf_def)+
  moreover have "transport_header_len (fr_transport f) \<le> 60"
    using high_nibble_bound by (cases "fr_transport f") simp_all
  ultimately show ?thesis by (simp add: frame_header_len_def)
qed

lemma ca_parse_flow_frame:
  assumes wf: "frame_wf packet_len f"
  shows "ca_parse_flow (frame_bytes f) packet_len zero_flow_key zero_mac 0 =
    Some (CA_PARSE_OK, frame_key f, \<lparr>mac_addr = fr_src_mac f\<rparr>, of_nat (frame_header_len f))"
proof -
  let ?n = "fr_net f" and ?t = "fr_transport f" and ?ts = "fr_tags f"
  let ?et = "network_ethertype ?n" and ?proto = "transport_proto ?t"
  let ?p1 = "fr_dst_mac f @ fr_src_mac f @ be16_bytes (first_type ?ts ?et)"
  let ?p2 = "?p1 @ tag_tail ?ts ?et"
  let ?p3 = "?p2 @ network_bytes ?proto ?n"
  have len: "length (fr_dst_mac f) = 6" "length (fr_src_mac f) = 6"
    using wf by (simp_all add: frame_wf_def)
  have p1: "length ?p1 = 14" and p2: "length ?p2 = 14 + 4 * length ?ts"
    using len by (simp_all add: length_tag_tail)
  have p3: "length ?p3 = 14 + 4 * length ?ts + network_header_len ?n"
    using len wf by (auto simp: length_tag_tail frame_wf_def dest: length_network_bytes)
  have bytes: "frame_bytes f = ?p1 @ tag_tail ?ts ?et @ network_bytes ?proto ?n @ transport_bytes ?t"
    using tag_bytes_split [of ?ts ?et] by (simp add: frame_bytes_def)
  have mac: "rd_bytes (frame_bytes f) 6 6 = Some (fr_src_mac f)"
    using len by (simp add: bytes rd_bytes_def)
  have ty: "ld16 (frame_bytes f) 12 = Some (bpf_htons (first_type ?ts ?et))"
    using len by (simp add: bytes be16_bytes_def ld16_def nth_append le16_be16_bytes)
  have vl: "ca_parse_vlans 2 (frame_bytes f) (bpf_htons (first_type ?ts ?et)) 14 =
      Some (Inr (bpf_htons ?et, 14 + 4 * length ?ts))"
    using vlans_roundtrip [of ?ts 2 ?et ?p1 "network_bytes ?proto ?n @ transport_bytes ?t"] wf p1
    by (cases ?n) (simp_all add: bytes frame_wf_def)
  have net: "network_wf (length ?p2) packet_len ?proto ?n" and l4: "transport_wf (network_l4_len ?n) ?t"
    using wf p2 by (simp_all add: frame_wf_def)
  define key2 where "key2 = zero_flow_key\<lparr>fk_eth_proto := bpf_htons ?et, fk_ip_proto := ?proto,
         fk_addr := ip_src ?n @ ip_dst ?n @ replicate (32 - length (ip_src ?n) - length (ip_dst ?n)) 0\<rparr>"
  define key1 where "key1 = zero_flow_key\<lparr>fk_eth_proto := bpf_htons ?et\<rparr>"
  have nr: "(if bpf_htons ?et = bpf_htons ETH_P_IP
          then ca_parse_ipv4 (frame_bytes f) packet_len key1 (14 + 4 * length ?ts)
          else if bpf_htons ?et = bpf_htons ETH_P_IPV6
          then ca_parse_ipv6 (frame_bytes f) packet_len key1 (14 + 4 * length ?ts)
          else Some (Inl key1)) = Some (Inr (key2, network_l4_len ?n, length ?p3))"
    using network_roundtrip [OF net, of "transport_bytes ?t"] p2 p3
    by (simp only: bytes append_assoc key1_def key2_def)
  have tr: "ca_parse_l4 (frame_bytes f) key2 (network_l4_len ?n) (length ?p3) =
      Some (Inr (frame_key f, frame_header_len f))"
    using l4_roundtrip [OF l4, of key2 ?p3] p3
    by (simp add: bytes key2_def zero_flow_key_def frame_key_def frame_header_len_def)
  have long: "14 \<le> length (frame_bytes f)" using p1 by (simp add: bytes)
  show ?thesis
    using long header_len_le [OF wf]
    by (simp only: ca_parse_flow_def mac ty vl nr tr Let_def bind.bind_lunit key1_def [symmetric]
          sum.case prod.case not_le [symmetric] if_False simp_thms)
       (simp add: zero_mac_def)
qed

text \<open>
  C14 parse_roundtrip: a well-formed frame, with up to two VLAN tags, IPv4 options and TCP
  options, of which only a prefix of the payload need be linear, is accepted; the parser
  recovers its source address, its canonical five-tuple in network byte order and the length
  of its headers.
\<close>

theorem parse_roundtrip:
  assumes "frame_wf packet_len f"
  shows "ca_parse_flow (frame_bytes f) packet_len zero_flow_key zero_mac 0 =
    Some (CA_PARSE_OK, frame_key f, \<lparr>mac_addr = fr_src_mac f\<rparr>, of_nat (frame_header_len f))"
  using assms by (rule ca_parse_flow_frame)

section \<open>A concrete frame\<close>

text \<open>A tagged UDP datagram from 192.0.2.2 to 198.51.100.3, port 443, with a four-byte payload.\<close>

definition example_frame :: frame where
  "example_frame = \<lparr>fr_dst_mac = [2, 0, 0, 0, 0, 1], fr_src_mac = [2, 0, 0, 0, 0, 0x42],
     fr_tags = [(ETH_P_8021Q, 42)],
     fr_net = Ipv4 0 32 7 0 64 0 [192, 0, 2, 2] [198, 51, 100, 3] [],
     fr_transport = Udp_Datagram 5000 443 12 [0, 0, 1, 2, 3, 4]\<rparr>"

lemma example_frame_wf: "frame_wf 50 example_frame"
  by (simp add: frame_wf_def example_frame_def)

definition example_key :: ca_flow_key where
  "example_key = \<lparr>fk_subject_id = 0, fk_eth_proto = 8, fk_ip_proto = 17, fk_reserved = 0,
     fk_src_port = 0x8813, fk_dst_port = 0xBB01,
     fk_addr = [192, 0, 2, 2, 198, 51, 100, 3] @ replicate 24 0\<rparr>"

definition example_bytes :: "u8 list" where
  "example_bytes = [2, 0, 0, 0, 0, 1, 2, 0, 0, 0, 0, 0x42, 0x81, 0, 0, 42, 8, 0,
     0x45, 0, 0, 32, 0, 7, 0, 0, 64, 17, 0, 0, 192, 0, 2, 2, 198, 51, 100, 3,
     0x13, 0x88, 1, 0xBB, 0, 12, 0, 0, 1, 2, 3, 4]"

lemma example_bytes_frame: "frame_bytes example_frame = example_bytes"
  by (simp add: frame_bytes_def example_frame_def example_bytes_def be16_bytes_def tag_bytes_def)

lemma example_parse:
  "ca_parse_flow example_bytes 50 zero_flow_key zero_mac 0 =
     Some (CA_PARSE_OK, example_key, \<lparr>mac_addr = [2, 0, 0, 0, 0, 0x42]\<rparr>, 46)"
  using ca_parse_flow_frame [OF example_frame_wf]
  unfolding example_bytes_frame
  by (simp add: frame_key_def example_frame_def frame_header_len_def example_key_def bswap16_def)

theorem parse_ok_bounds_witness:
  "ca_parse_flow example_bytes 50 zero_flow_key zero_mac 0 =
     Some (CA_PARSE_OK, example_key, \<lparr>mac_addr = [2, 0, 0, 0, 0, 0x42]\<rparr>, 46) \<and>
   length (fk_addr example_key) = 32"
  using example_parse parse_ok_bounds [OF example_parse] by blast

theorem parse_roundtrip_witness:
  "frame_wf 50 example_frame \<and>
   ca_parse_flow (frame_bytes example_frame) 50 zero_flow_key zero_mac 0 =
     Some (CA_PARSE_OK, frame_key example_frame, \<lparr>mac_addr = fr_src_mac example_frame\<rparr>,
       of_nat (frame_header_len example_frame))"
  using example_frame_wf parse_roundtrip [OF example_frame_wf] by blast

end
