(* ===== verification/Reference_Kernel.thy ===== *)
theory Reference_Kernel
  imports Flow_Table Frame_Encoding
begin

text \<open>
  A concrete kernel and a concrete state for the witnesses: bounded maps that behave as the
  documentation of the map calls says, no other CPU, and one managed subject with one flow.
  They show that the hypotheses of the properties can hold together; no property is about them.
\<close>

definition ref_ops :: "nat \<Rightarrow> 'k list \<Rightarrow> ('k, 'v) map_ops" where
  "ref_ops cap ks = \<lparr>
     mo_update = (\<lambda>m k v f.
       if f = BPF_NOEXIST \<and> m k \<noteq> None then (EEXIST, m)
       else if f = BPF_EXIST \<and> m k = None then (ENOENT, m)
       else if m k = None \<and> cap \<le> card (dom m) then (E2BIG, m)
       else (0, m(k \<mapsto> v))),
     mo_delete = (\<lambda>m k. if m k = None then (ENOENT, m) else (0, m(k := None))),
     mo_next_key = (\<lambda>m cur.
       let present = filter (\<lambda>k. m k \<noteq> None) ks;
           rest = (case cur of None \<Rightarrow> present | Some k \<Rightarrow> tl (dropWhile (\<lambda>x. x \<noteq> k) present))
       in case rest of [] \<Rightarrow> Inl ENOENT | k # _ \<Rightarrow> Inr k)\<rparr>"

lemma ref_ops_update_ok: "map_update_ok (ref_ops cap ks)"
  by (auto simp: map_update_ok_def ref_ops_def)

lemma ref_ops_delete_ok: "map_delete_ok (ref_ops cap ks)"
  by (auto simp: map_delete_ok_def ref_ops_def)

definition ref_kernel :: "u64 \<Rightarrow> kernel" where
  "ref_kernel now = \<lparr>kn_flows = ref_ops CA_MAX_FLOWS [], kn_rates = ref_ops CA_MAX_SUBJECTS [],
     kn_ipv4_lookup = (\<lambda>m k. m k), kn_ipv6_lookup = (\<lambda>m k. m k),
     kn_ktime_get_ns = now, kn_race = (\<lambda>_ _ w. w)\<rparr>"

lemma ref_kernel_simps [simp]:
  "kn_flows (ref_kernel now) = ref_ops CA_MAX_FLOWS []"
  "kn_rates (ref_kernel now) = ref_ops CA_MAX_SUBJECTS []"
  "kn_ktime_get_ns (ref_kernel now) = now" "kn_race (ref_kernel now) s n w = w"
  "kn_ipv4_lookup (ref_kernel now) m k4 = m k4" "kn_ipv6_lookup (ref_kernel now) m6 k6 = m6 k6"
  by (simp_all add: ref_kernel_def)

lemma ref_kernel_ok: "flows_ok (ref_kernel now)"
  by (simp add: flows_ok_def ref_ops_update_ok ref_ops_delete_ok)

lemma ref_kernel_deletes: "deletes_present (ref_kernel now)"
  by (simp add: deletes_present_def ref_ops_def)

definition ref_config :: ca_config where
  "ref_config = \<lparr>cfg_enabled = 1, cfg_app_enforcement_enabled = 1, cfg_active_slot = 0,
     cfg_app_policy_generation = 7, cfg_classifier_generation = 1,
     cfg_unknown_subject_app_verdict = 0, cfg_provisional_app_verdict = 0,
     cfg_max_packets_inspected = 1, cfg_max_bytes_examined = 256,
     cfg_max_classification_age_ms = 200, cfg_max_pending_entries = 256,
     cfg_max_new_classifications_per_second = 512, cfg_per_subject_new_classification_rate = 64\<rparr>"

text \<open>
  Subject 42 at 02:00:00:00:00:42; class 100 (category 10) for 198.51.100.3/32; policy: class 100
  denied, unclassified denied, everything else allowed.
\<close>

definition ref_maps :: "ca_maps" where
  "ref_maps = \<lparr>m_config = [0 \<mapsto> ref_config], m_mark_schema = [0 \<mapsto> CA_BPF_SCHEMA_VERSION],
     m_subject_a = [\<lparr>mac_addr = [2, 0, 0, 0, 0, 0x42]\<rparr> \<mapsto> 42], m_subject_b = Map.empty,
     m_policy_a = [\<lparr>pk_subject_id = 42, pk_class_id = 100, pk_reserved = 0\<rparr> \<mapsto> CA_VERDICT_DENY,
                   \<lparr>pk_subject_id = 42, pk_class_id = CA_CLASS_UNCLASSIFIED, pk_reserved = 0\<rparr> \<mapsto> CA_VERDICT_DENY],
     m_policy_b = Map.empty, m_port_a = Map.empty, m_port_b = Map.empty,
     m_ipv4_a = [\<lparr>p4_prefixlen = 32, p4_addr = [198, 51, 100, 3]\<rparr> \<mapsto>
                   \<lparr>ch_class_id = 100, ch_category_id = 10, ch_kind = CA_CLASS_KIND_EXACT\<rparr>],
     m_ipv4_b = Map.empty, m_ipv6_a = Map.empty, m_ipv6_b = Map.empty,
     m_flows = Map.empty, m_global_rate = [0 \<mapsto> 0], m_subject_rates = Map.empty,
     m_runtime = [0 \<mapsto> 0], m_stats = (\<lambda>i. if i < 22 then Some 0 else None)\<rparr>"

definition ref_skb :: sk_buff where
  "ref_skb = \<lparr>skb_data = example_bytes, skb_len = 50, skb_mark = 0x20000001\<rparr>"

definition ref_key :: ca_flow_key where "ref_key = example_key\<lparr>fk_subject_id := 42\<rparr>"

text \<open>The flow as an earlier policy generation left it: class 100, allowed.\<close>

definition ref_flow :: ca_flow_state where
  "ref_flow = zero_flow_state\<lparr>fs_app_policy_generation := 6, fs_class_id := 100,
     fs_classification_state := CA_FLOW_CLASSIFIED, fs_class_kind := CA_CLASS_KIND_EXACT,
     fs_app_verdict := CA_VERDICT_ALLOW\<rparr>"

definition ref_maps_flow :: ca_maps where
  "ref_maps_flow = ref_maps\<lparr>m_flows := [ref_key \<mapsto> ref_flow]\<rparr>"

lemma ref_maps_fields [simp]:
  "m_config ref_maps = [0 \<mapsto> ref_config]" "m_config ref_maps_flow = [0 \<mapsto> ref_config]"
  "m_flows ref_maps = Map.empty" "m_flows ref_maps_flow = [ref_key \<mapsto> ref_flow]"
  by (simp_all add: ref_maps_def ref_maps_flow_def)

lemma ref_config_fields [simp]:
  "cfg_enabled ref_config = 1" "cfg_app_enforcement_enabled ref_config = 1"
  "cfg_active_slot ref_config = 0" "cfg_app_policy_generation ref_config = 7"
  "cfg_provisional_app_verdict ref_config = 0"
  by (simp_all add: ref_config_def)

lemma ref_subject [simp]:
  "ca_subject_lookup ref_config ref_maps \<lparr>mac_addr = [2, 0, 0, 0, 0, 0x42]\<rparr> = Some 42"
  "ca_subject_lookup ref_config ref_maps_flow \<lparr>mac_addr = [2, 0, 0, 0, 0, 0x42]\<rparr> = Some 42"
  by (simp_all add: ca_subject_lookup_def ref_maps_def ref_maps_flow_def)

lemma ref_policy [simp]:
  "ca_policy_verdict ref_config ref_maps 42 100 = CA_VERDICT_DENY"
  "ca_policy_verdict ref_config ref_maps_flow 42 100 = CA_VERDICT_DENY"
  "ca_policy_verdict ref_config ref_maps 42 1 = CA_VERDICT_DENY"
  "ca_policy_verdict ref_config ref_maps_flow 42 1 = CA_VERDICT_DENY"
  by (simp_all add: ca_policy_verdict_def ca_policy_lookup_map_def ref_maps_def ref_maps_flow_def)

lemma ref_parse [simp]:
  "ca_parse_flow (skb_data ref_skb) (skb_len ref_skb) zero_flow_key zero_mac 0 =
     Some (CA_PARSE_OK, example_key, \<lparr>mac_addr = [2, 0, 0, 0, 0, 0x42]\<rparr>, 46)"
  using example_parse by (simp add: ref_skb_def)

lemma ref_flow_fields [simp]:
  "fs_class_kind ref_flow = CA_CLASS_KIND_EXACT" "fs_classification_state ref_flow = CA_FLOW_CLASSIFIED"
  "fs_class_id ref_flow = 100" "fs_app_policy_generation ref_flow = 6"
  by (simp_all add: ref_flow_def)

lemma ref_key_subject [simp]: "fk_subject_id ref_key = 42"
  by (simp add: ref_key_def)

end
