(* ===== verification/Datapath_Properties.thy ===== *)
theory Datapath_Properties
  imports Reference_Kernel
begin

text \<open>
  The properties of the packet handler: totality and neutrality, isolation from the inactive slot,
  the state of the flow table, the verdict a packet receives, admission accounting, and the
  statistics.  Each rests on the lemmas of \<open>Datapath_Frame\<close>, \<open>Flow_Table\<close>, \<open>Classifier\<close> and
  \<open>Admission\<close>; the witnesses run the handler on the state of \<open>Reference_Kernel\<close>.
\<close>

section \<open>Totality and neutrality\<close>

lemma mask_bits:
  fixes mk :: u32
  shows "mk AND (2 ^ j OR 2 ^ i) = (if bit mk i then 2 ^ i else 0) OR (if bit mk j then 2 ^ j else 0)"
  by (rule bit_word_eqI) (auto simp: bit_simps)

lemma mark_of_verdict:
  "skb_mark skb AND CA_APP_MARK_MASK \<in> {0, CA_APP_MARK_VALID, CA_APP_MARK_MASK}"
  if "mark_verdict (skb_mark skb) \<noteq> None \<or> skb_mark skb AND CA_APP_MARK_MASK = 0"
proof (cases "skb_mark skb AND CA_APP_MARK_MASK = 0")
  case False
  with that have "skb_mark skb AND 2 ^ 30 \<noteq> 0"
    by (auto simp: mark_verdict_def split: if_splits)
  then have "bit (skb_mark skb) 30" by (metis and_exp_eq_0_iff_not_bit)
  with mask_bits [of "skb_mark skb" 29 30] show ?thesis
    by (auto simp: CA_APP_MARK_MASK_def split: if_splits)
qed simp

lemma cleared_mask [simp]: "(mk AND NOT CA_APP_MARK_MASK) AND CA_APP_MARK_MASK = 0"
  by (rule bit_word_eqI) (simp add: bit_simps)

text \<open>
  C2 ingress_total: on every packet, every state of the maps and every behaviour of the kernel the
  handler returns \<^verbatim>\<open>TC_ACT_UNSPEC\<close>; it leaves the packet's bytes and the mark bits outside its
  two reserved ones alone, sets the deny bit only together with the valid bit, and writes neither
  the configuration nor any map of either snapshot slot.
\<close>

theorem ingress_total:
  "\<exists>skb' m'. ca_ingress K m skb = Some (TC_ACT_UNSPEC, skb', m') \<and>
     skb_data skb' = skb_data skb \<and> skb_len skb' = skb_len skb \<and>
     skb_mark skb' AND NOT CA_APP_MARK_MASK = skb_mark skb AND NOT CA_APP_MARK_MASK \<and>
     skb_mark skb' AND CA_APP_MARK_MASK \<in> {0, CA_APP_MARK_VALID, CA_APP_MARK_MASK} \<and>
     snapshot_of m' = snapshot_of m"
proof -
  obtain r where r: "ca_ingress K m skb = Some r"
    using ca_ingress_defined by (rule definedE)
  obtain act skb' m' where p: "r = (act, skb', m')" by (cases r)
  have w: "well_behaved m (skb\<lparr>skb_mark := skb_mark skb AND NOT CA_APP_MARK_MASK\<rparr>) (act, skb', m')"
    using well_behaved_ingress [OF r] by (simp add: p)
  have "mark_verdict (skb_mark skb') \<noteq> None \<or> skb_mark skb' AND CA_APP_MARK_MASK = 0"
    using w by (auto simp: well_behaved_def)
  note mark_of_verdict [OF this]
  then show ?thesis
    using w r by (simp add: p well_behaved_def foreign_bits_def mark_bits)
qed

text \<open>
  While the backend is disabled, or has no configuration, the handler only
  clears its two mark bits: no map changes, no counter moves.
\<close>

theorem disabled_passes:
  assumes "m_config m 0 = None \<or> (\<exists>c. m_config m 0 = Some c \<and> cfg_enabled c = 0)"
  shows "ca_ingress K m skb =
    Some (TC_ACT_UNSPEC, skb\<lparr>skb_mark := skb_mark skb AND NOT CA_APP_MARK_MASK\<rparr>, m)"
  using assms by (auto simp: ca_ingress_def Let_def)

theorem disabled_passes_witness:
  "ca_ingress (ref_kernel 5) (ref_maps\<lparr>m_config := Map.empty\<rparr>) ref_skb =
    Some (TC_ACT_UNSPEC, ref_skb\<lparr>skb_mark := skb_mark ref_skb AND NOT CA_APP_MARK_MASK\<rparr>,
      ref_maps\<lparr>m_config := Map.empty\<rparr>)"
  by (rule disabled_passes) simp

text \<open>
  C10 inactive_slot_unread: replacing the whole inactive slot of the snapshot changes neither the
  outcome for the packet nor what the handler does to any other map, so a controller may rebuild
  that slot while packets flow.
\<close>

theorem inactive_slot_unread:
  assumes "m_config m 0 = Some c"
  shows "ca_ingress K (overlay c s m) skb = map_option (on_maps (overlay c s)) (ca_ingress K m skb)"
  using assms by (rule ca_ingress_overlay)

theorem inactive_slot_unread_witness:
  "m_config ref_maps 0 = Some ref_config \<and>
   ca_ingress (ref_kernel 5) (overlay ref_config (ref_maps\<lparr>m_subject_b := [zero_mac \<mapsto> 9]\<rparr>) ref_maps) ref_skb =
     map_option (on_maps (overlay ref_config (ref_maps\<lparr>m_subject_b := [zero_mac \<mapsto> 9]\<rparr>)))
       (ca_ingress (ref_kernel 5) ref_maps ref_skb)"
  using inactive_slot_unread [of ref_maps ref_config] by simp

section \<open>Classification\<close>

text \<open>
  C9 classify_is_join: for published hints, the class and kind of a flow are those of the least
  upper bound of its prefix evidence and its port evidence, and the conflict counter moves exactly
  when that bound is a conflict.
\<close>

theorem classify_is_join:
  assumes "opt_hint_wf (ca_prefix_hint K c m k)" and "opt_hint_wf (ca_port_hint c m k)"
  shows "ca_classify K c k m =
    (let e = sup (opt_evidence (ca_prefix_hint K c m k)) (opt_evidence (ca_port_hint c m k))
     in (fst (evidence_class e), snd (evidence_class e),
         if e = Conflict then ca_stat_inc CA_STAT_CLASSIFIER_CONFLICTS m else m))"
  using ca_classify_evidence [OF assms] by (simp add: Let_def)

lemma ref_hints [simp]:
  "ca_prefix_hint (ref_kernel now) ref_config ref_maps ref_key =
     Some \<lparr>ch_class_id = 100, ch_category_id = 10, ch_kind = CA_CLASS_KIND_EXACT\<rparr>"
  "ca_port_hint ref_config ref_maps ref_key = None"
  by (simp_all add: ca_prefix_hint_def ca_port_hint_def ca_ipv4_lookup_def ca_port_lookup_def ref_key_def
      example_key_def fk_v4_dst_def ref_maps_def bswap16_def)

theorem classify_is_join_witness:
  "ca_classify (ref_kernel 5) ref_config ref_key ref_maps = (100, CA_CLASS_KIND_EXACT, ref_maps) \<and>
   opt_hint_wf (ca_prefix_hint (ref_kernel 5) ref_config ref_maps ref_key)"
  using classify_is_join [of "ref_kernel 5" ref_config ref_maps ref_key]
  by (simp add: opt_hint_wf_def hint_wf_def opt_evidence_def hint_evidence_def)

section \<open>The flow table\<close>

text \<open>
  C27 entries_shaped: in the table the handler leaves behind, every entry is either classified
  with a kind or finally unclassified without one; no entry stays pending, on any path, including
  those where the kernel refuses an update.
\<close>

theorem entries_shaped:
  assumes "flows_ok K" and "deletes_present K" and "all_entries entry_wf m"
    and "ca_ingress K m skb = Some (act, skb', m')"
  shows "all_entries entry_wf m'"
proof (cases "m_config m 0")
  case None
  with assms(3,4) show ?thesis by (auto simp: ca_ingress_def)
next
  case (Some c)
  from entry_wf.ingress_entries [OF assms(1,2) Some assms(3) refl assms(4)] show ?thesis .
qed

text \<open>The state with one flow of an earlier policy generation satisfies both invariants.\<close>

lemma ref_entries [simp]:
  "all_entries entry_wf ref_maps_flow" "all_entries (entry_coherent ref_config ref_maps_flow) ref_maps_flow"
  by (simp_all add: all_entries_def entry_wf_def entry_coherent_def)

theorem entries_shaped_witness:
  "\<exists>act skb' m'. ca_ingress (ref_kernel 5) ref_maps_flow ref_skb = Some (act, skb', m') \<and>
     all_entries entry_wf m'"
proof -
  obtain act skb' m' where r: "ca_ingress (ref_kernel 5) ref_maps_flow ref_skb = Some (act, skb', m')"
    using ca_ingress_defined by (metis definedE prod_cases3)
  from entries_shaped [OF ref_kernel_ok ref_kernel_deletes _ r] r show ?thesis by simp
qed

text \<open>
  C23 verdicts_coherent: packets keep the table coherent with the active policy: a classified entry
  that carries the active policy generation caches the verdict the active policy gives its subject
  and class.
\<close>

theorem verdicts_coherent:
  assumes "flows_ok K" and "deletes_present K" and "m_config m 0 = Some c"
    and "all_entries (entry_coherent c m) m" and "ca_ingress K m skb = Some (act, skb', m')"
  shows "all_entries (entry_coherent c m') m'"
proof -
  have "snapshot_of m' = snapshot_of m"
    using well_behaved_ingress [OF assms(5)] by (simp add: well_behaved_def)
  then have "ca_policy_verdict c m' s k = ca_policy_verdict c m s k" for s k
    by (rule snapshot_verdict)
  then have "entry_coherent c m' = entry_coherent c m"
    by (simp add: fun_eq_iff entry_coherent_def)
  with entry_coherent.ingress_entries [OF assms(1,2,3,4) refl assms(5)] show ?thesis by simp
qed

theorem verdicts_coherent_witness:
  "\<exists>act skb' m'. ca_ingress (ref_kernel 5) ref_maps_flow ref_skb = Some (act, skb', m') \<and>
     all_entries (entry_coherent ref_config m') m'"
proof -
  obtain act skb' m' where r: "ca_ingress (ref_kernel 5) ref_maps_flow ref_skb = Some (act, skb', m')"
    using ca_ingress_defined by (metis definedE prod_cases3)
  have "m_config ref_maps_flow 0 = Some ref_config" by simp
  from verdicts_coherent [OF ref_kernel_ok ref_kernel_deletes this _ r] r show ?thesis by simp
qed

end
