(* ===== verification/Datapath_Verdicts.thy ===== *)
theory Datapath_Verdicts
  imports Datapath_Properties
begin

text \<open>
  The verdict a packet of a managed subject receives, through the life of a flow: the first packet
  is classified and passes with the provisional verdict, later packets get the verdict of the
  active policy, a flow that cannot be admitted fails to the policy's unclassified verdict.
\<close>

section \<open>Packets of enforced flows\<close>

text \<open>
  \<open>enforced m skb c k s ex\<close>: the configuration \<open>c\<close> is active and enforcing, the packet parses,
  its sender is subject \<open>s\<close>, its flow has key \<open>k\<close> and \<open>ex\<close> bytes of it were examined.
\<close>

definition enforced :: "ca_maps \<Rightarrow> sk_buff \<Rightarrow> ca_config \<Rightarrow> ca_flow_key \<Rightarrow> u32 \<Rightarrow> u32 \<Rightarrow> bool" where
  "enforced m skb c k s ex \<longleftrightarrow>
     m_config m 0 = Some c \<and> cfg_enabled c \<noteq> 0 \<and> cfg_app_enforcement_enabled c \<noteq> 0 \<and>
     (case ca_parse_flow (skb_data skb) (skb_len skb) zero_flow_key zero_mac 0 of
        None \<Rightarrow> False
      | Some (parsed, key, mac, n) \<Rightarrow>
          parsed = CA_PARSE_OK \<and> ca_subject_lookup c m mac = Some s \<and>
          k = key\<lparr>fk_subject_id := s\<rparr> \<and> ex = n)"

abbreviation cleared :: "sk_buff \<Rightarrow> sk_buff" where
  "cleared skb \<equiv> skb\<lparr>skb_mark := skb_mark skb AND NOT CA_APP_MARK_MASK\<rparr>"

lemma subject_lookup_stat [simp]:
  "ca_subject_lookup c (ca_stat_inc i m) mac = ca_subject_lookup c m mac"
  by (simp add: ca_subject_lookup_def)

lemma subject_key: "k = key\<lparr>fk_subject_id := s\<rparr> \<Longrightarrow>
    ca_ingress_subject K skb c key s ex m = ca_ingress_subject K skb c k s ex m"
  by (simp add: ca_ingress_subject_def)

lemma enforced_ingress:
  assumes "enforced m skb c k s ex"
  shows "ca_ingress K m skb =
    Some (ca_ingress_subject K (cleared skb) c k s ex (ca_stat_inc CA_STAT_PACKETS m))"
proof -
  obtain key mac where c: "m_config m 0 = Some c" "cfg_enabled c \<noteq> 0"
    and p: "ca_parse_flow (skb_data skb) (skb_len skb) zero_flow_key zero_mac 0 =
      Some (CA_PARSE_OK, key, mac, ex)"
    and s: "ca_subject_lookup c m mac = Some s" and k: "k = key\<lparr>fk_subject_id := s\<rparr>"
    using assms unfolding enforced_def by (auto split: option.splits)
  from c p s subject_key [OF k] show ?thesis by (simp add: ca_ingress_def Let_def)
qed

lemma enforced_run:
  assumes "enforced m skb c k s ex"
  shows "ca_ingress K m skb =
    Some (case ca_ingress_known K (cleared skb) c k s (kn_ktime_get_ns K) (ca_stat_inc CA_STAT_PACKETS m) of
            Inl r \<Rightarrow> r
          | Inr m1 \<Rightarrow> ca_ingress_admit K (cleared skb) c k s ex (kn_ktime_get_ns K) m1)"
proof -
  have "k\<lparr>fk_subject_id := s\<rparr> = k" and "cfg_app_enforcement_enabled c \<noteq> 0"
    using assms by (auto simp: enforced_def split: option.splits)
  then show ?thesis using enforced_ingress [OF assms] by (simp add: ca_ingress_subject_def Let_def split: sum.split)
qed

lemma enforced_subject: "enforced m skb c k s ex \<Longrightarrow> fk_subject_id k = s"
  by (auto simp: enforced_def split: option.splits)

lemma enforced_config:
  "enforced m skb c k s ex \<Longrightarrow> m_config m 0 = Some c \<and> cfg_enabled c \<noteq> 0 \<and> cfg_app_enforcement_enabled c \<noteq> 0"
  by (simp add: enforced_def)

lemma ref_enforced [simp]:
  "enforced ref_maps ref_skb ref_config ref_key 42 46"
  "enforced ref_maps_flow ref_skb ref_config ref_key 42 46"
  using ref_parse by (simp_all add: enforced_def ref_key_def)

section \<open>Established flows\<close>

text \<open>The entry of a classified flow after a packet at time \<open>now\<close>.\<close>

definition seen_state :: "ca_config \<Rightarrow> ca_maps \<Rightarrow> u32 \<Rightarrow> u64 \<Rightarrow> ca_flow_state \<Rightarrow> ca_flow_state" where
  "seen_state c m s now f = f\<lparr>fs_last_seen_ns := now,
     fs_app_verdict := ca_policy_verdict c m s (fs_class_id f),
     fs_app_policy_generation := cfg_app_policy_generation c\<rparr>"

lemma seen_state_fresh:
  assumes "entry_coherent c m k f" and "fs_class_kind f \<noteq> CA_CLASS_KIND_NONE"
    and "fs_app_policy_generation f = cfg_app_policy_generation c"
  shows "f\<lparr>fs_last_seen_ns := now\<rparr> = seen_state c m (fk_subject_id k) now f"
  using assms by (cases f) (simp add: entry_coherent_def seen_state_def)

lemma cached_established:
  fixes skb :: sk_buff
  assumes e: "entry_coherent c m k f" and kind: "fs_class_kind f \<noteq> CA_CLASS_KIND_NONE"
    and v: "\<And>s i. ca_policy_verdict c m' s i = ca_policy_verdict c m s i"
    and fl: "m_flows m' = (m_flows m)(k \<mapsto> f\<lparr>fs_last_seen_ns := now\<rparr>)"
  defines "r \<equiv> ca_cached_verdict skb c k (fk_subject_id k) (f\<lparr>fs_last_seen_ns := now\<rparr>) m'"
  shows "mark_verdict (skb_mark (fst (snd r))) =
      Some (norm_verdict (ca_policy_verdict c m (fk_subject_id k) (fs_class_id f))) \<and>
    m_flows (snd (snd r)) = (m_flows m)(k \<mapsto> seen_state c m (fk_subject_id k) now f) \<and>
    m_runtime (snd (snd r)) = m_runtime m' \<and> m_global_rate (snd (snd r)) = m_global_rate m' \<and>
    m_subject_rates (snd (snd r)) = m_subject_rates m'"
proof (cases "fs_app_policy_generation f = cfg_app_policy_generation c")
  case True
  then have "fs_app_verdict f = ca_policy_verdict c m (fk_subject_id k) (fs_class_id f)"
    using e kind by (simp add: entry_coherent_def)
  moreover have "m_flows m' = (m_flows m)(k \<mapsto> seen_state c m (fk_subject_id k) now f)"
    using fl seen_state_fresh [OF e kind True, of now] by simp
  ultimately show ?thesis using True by (simp add: r_def ca_cached_verdict_def emit_maps)
next
  case False
  then show ?thesis by (simp add: r_def ca_cached_verdict_def Let_def emit_maps v fl seen_state_def)
qed

lemma established_run:
  assumes pkt: "enforced m skb c k s ex" and f: "m_flows m k = Some f"
    and kind: "fs_class_kind f \<noteq> CA_CLASS_KIND_NONE" and state: "entry_wf k f"
  shows "ca_ingress K m skb =
    Some (ca_cached_verdict (cleared skb) c k (fk_subject_id k) (f\<lparr>fs_last_seen_ns := kn_ktime_get_ns K\<rparr>)
      ((ca_stat_inc CA_STAT_PACKETS m)\<lparr>m_flows := (m_flows m)(k \<mapsto> f\<lparr>fs_last_seen_ns := kn_ktime_get_ns K\<rparr>)\<rparr>))"
  using f kind state enforced_config [OF pkt] enforced_subject [OF pkt]
  by (simp add: enforced_run [OF pkt] ca_ingress_known_def entry_wf_def Let_def)

lemma established_verdict:
  assumes pkt: "enforced m skb c k s ex" and f: "m_flows m k = Some f"
    and kind: "fs_class_kind f \<noteq> CA_CLASS_KIND_NONE"
    and state: "entry_wf k f" and coherent: "entry_coherent c m k f"
  shows "\<exists>skb' m'. ca_ingress K m skb = Some (TC_ACT_UNSPEC, skb', m') \<and>
    mark_verdict (skb_mark skb') = Some (norm_verdict (ca_policy_verdict c m s (fs_class_id f))) \<and>
    m_flows m' = (m_flows m)(k \<mapsto> seen_state c m s (kn_ktime_get_ns K) f) \<and>
    m_runtime m' = m_runtime m \<and> m_global_rate m' = m_global_rate m \<and>
    m_subject_rates m' = m_subject_rates m"
proof -
  let ?now = "kn_ktime_get_ns K"
  let ?m = "(ca_stat_inc CA_STAT_PACKETS m)\<lparr>m_flows := (m_flows m)(k \<mapsto> f\<lparr>fs_last_seen_ns := ?now\<rparr>)\<rparr>"
  let ?r = "ca_cached_verdict (cleared skb) c k (fk_subject_id k) (f\<lparr>fs_last_seen_ns := ?now\<rparr>) ?m"
  have s: "fk_subject_id k = s" by (rule enforced_subject [OF pkt])
  have run: "ca_ingress K m skb = Some ?r"
    using established_run [OF pkt f kind state] .
  have act: "fst ?r = TC_ACT_UNSPEC"
    by (simp add: ca_cached_verdict_def Let_def)
  from cached_established [OF coherent kind, where m' = ?m and now = ?now and skb = "cleared skb"] run act s
  show ?thesis by (cases ?r) simp
qed

text \<open>The counters a packet of a classified flow moves, each by one.\<close>

definition established_counters :: "ca_config \<Rightarrow> ca_flow_state \<Rightarrow> u8 \<Rightarrow> u32 list" where
  "established_counters c f v =
     [CA_STAT_PACKETS] @
     (if fs_app_policy_generation f \<noteq> cfg_app_policy_generation c then [CA_STAT_POLICY_REEVALUATIONS] else []) @
     [if v = CA_VERDICT_DENY then CA_STAT_PACKET_APP_DENY_VERDICTS else CA_STAT_PACKET_APP_ALLOW_VERDICTS]"

lemma stat_inc_flows: "(ca_stat_inc i m)\<lparr>m_flows := x\<rparr> = ca_stat_inc i (m\<lparr>m_flows := x\<rparr>)"
  by (simp add: ca_stat_inc_def ca_stat_add_def split: option.split)

lemma cached_maps:
  fixes m :: ca_maps and now :: u64
  assumes e: "entry_coherent c m k f" and kind: "fs_class_kind f \<noteq> CA_CLASS_KIND_NONE"
  defines "v \<equiv> ca_policy_verdict c m (fk_subject_id k) (fs_class_id f)"
    and "m1 \<equiv> (ca_stat_inc CA_STAT_PACKETS m)\<lparr>m_flows := (m_flows m)(k \<mapsto> f\<lparr>fs_last_seen_ns := now\<rparr>)\<rparr>"
  shows "snd (snd (ca_cached_verdict skb c k (fk_subject_id k) (f\<lparr>fs_last_seen_ns := now\<rparr>) m1)) =
    (fold ca_stat_inc (established_counters c f v) m)\<lparr>m_flows := (m_flows m)(k \<mapsto> seen_state c m (fk_subject_id k) now f)\<rparr>"
proof (cases "fs_app_policy_generation f = cfg_app_policy_generation c")
  case True
  then have "fs_app_verdict f = v" using e kind by (simp add: entry_coherent_def v_def)
  with True show ?thesis
    by (simp add: seen_state_fresh [OF e kind True, symmetric] ca_cached_verdict_def ca_emit_app_verdict_def Let_def established_counters_def m1_def stat_inc_flows)
next
  case False
  have "ca_policy_verdict c m1 s i = ca_policy_verdict c m s i" for s i
    unfolding m1_def by (rule snapshot_verdict) simp
  with False show ?thesis
    by (simp add: ca_cached_verdict_def ca_emit_app_verdict_def Let_def established_counters_def seen_state_def
        stat_inc_flows v_def) (simp add: m1_def stat_inc_flows)
qed

text \<open>
  C21 established_flow_verdict: a packet of a classified flow is stamped with the verdict the
  active policy gives its subject and class, whichever policy generation the cached verdict came
  from.  The state afterwards is exactly the one before with the entry of the flow brought up to
  date and the counters of packets, of the verdict and, for a stale verdict, of re-evaluations moved by
  one (a slot missing from the counter array counts nothing): no other entry, counter, word or map
  changes, and no admission budget is spent.
\<close>

theorem established_flow_verdict:
  assumes pkt: "enforced m skb c k s ex" and f: "m_flows m k = Some f"
    and kind: "fs_class_kind f \<noteq> CA_CLASS_KIND_NONE"
    and state: "entry_wf k f" and coherent: "entry_coherent c m k f"
  shows "\<exists>skb' m'. ca_ingress K m skb = Some (TC_ACT_UNSPEC, skb', m') \<and>
    mark_verdict (skb_mark skb') = Some (norm_verdict (ca_policy_verdict c m s (fs_class_id f))) \<and>
    m' = (fold ca_stat_inc (established_counters c f (ca_policy_verdict c m s (fs_class_id f))) m)
           \<lparr>m_flows := (m_flows m)(k \<mapsto> seen_state c m s (kn_ktime_get_ns K) f)\<rparr> \<and>
    m_runtime m' = m_runtime m \<and> m_global_rate m' = m_global_rate m \<and>
    m_subject_rates m' = m_subject_rates m"
proof -
  have "fk_subject_id k = s" by (rule enforced_subject [OF pkt])
  then have "snd (snd (the (ca_ingress K m skb))) =
      (fold ca_stat_inc (established_counters c f (ca_policy_verdict c m s (fs_class_id f))) m)
        \<lparr>m_flows := (m_flows m)(k \<mapsto> seen_state c m s (kn_ktime_get_ns K) f)\<rparr>"
    using established_run [OF pkt f kind state, of K] cached_maps [OF coherent kind] by simp
  with established_verdict [OF assms, of K] show ?thesis by auto
qed

lemma ref_flow_ok [simp]:
  "entry_wf k ref_flow" "entry_coherent ref_config m k ref_flow"
  by (simp_all add: entry_wf_def entry_coherent_def)

theorem established_flow_verdict_witness:
  "\<exists>skb' m'. ca_ingress (ref_kernel 5) ref_maps_flow ref_skb = Some (TC_ACT_UNSPEC, skb', m') \<and>
    mark_verdict (skb_mark skb') = Some CA_VERDICT_DENY"
  using established_flow_verdict [of ref_maps_flow ref_skb ref_config ref_key 42 46 ref_flow "ref_kernel 5"]
  by (auto simp: norm_verdict_def)

section \<open>Classified flows stay classified\<close>

text \<open>What of an entry no packet may change.\<close>

definition same_class :: "ca_flow_state \<Rightarrow> ca_flow_state \<Rightarrow> bool" where
  "same_class f g \<longleftrightarrow> fs_class_id g = fs_class_id f \<and> fs_class_kind g = fs_class_kind f \<and>
     fs_classification_state g = fs_classification_state f \<and> fs_first_seen_ns g = fs_first_seen_ns f"

lemma same_class_refl [simp]: "same_class f f" by (simp add: same_class_def)

lemma same_class_trans: "same_class f g \<Longrightarrow> same_class g h \<Longrightarrow> same_class f h"
  by (simp add: same_class_def)

lemma cached_same_class:
  "m_flows m k = Some f \<Longrightarrow>
     \<exists>g. m_flows (snd (snd (ca_cached_verdict skb c k s f m))) k = Some g \<and> same_class f g"
  by (simp add: ca_cached_verdict_def Let_def same_class_def)

lemma known_same_class:
  assumes "m_flows m k = Some f" and "fs_class_kind f \<noteq> CA_CLASS_KIND_NONE"
  shows "case ca_ingress_known K skb c k s now m of
           Inl r \<Rightarrow> \<exists>g. m_flows (snd (snd r)) k = Some g \<and> same_class f g
         | Inr m' \<Rightarrow> False"
  using assms cached_same_class [of "m\<lparr>m_flows := (m_flows m)(k \<mapsto> f\<lparr>fs_last_seen_ns := now\<rparr>)\<rparr>" k
      "f\<lparr>fs_last_seen_ns := now\<rparr>" skb c s]
  by (simp add: ca_ingress_known_def Let_def same_class_def)

lemma subject_same_class:
  assumes ok: "flows_ok K" and f: "m_flows m k = Some f" and kind: "fs_class_kind f \<noteq> CA_CLASS_KIND_NONE"
  shows "\<exists>g. m_flows (snd (snd (ca_ingress_subject K skb c key s ex m))) k = Some g \<and> same_class f g"
proof (cases "k = key\<lparr>fk_subject_id := s\<rparr>")
  case True
  show ?thesis
    using known_same_class [OF f kind, of K skb c s "kn_ktime_get_ns K"] True
    by (cases "ca_ingress_known K skb c k s (kn_ktime_get_ns K) m") (simp_all add: ca_ingress_subject_def Let_def)
next
  case False
  with subject_other [OF ok False] f show ?thesis by simp
qed

lemma ingress_same_class:
  assumes ok: "flows_ok K" and f: "m_flows m k = Some f" and kind: "fs_class_kind f \<noteq> CA_CLASS_KIND_NONE"
    and run: "ca_ingress K m skb = Some (act, skb', m')"
  shows "\<exists>g. m_flows m' k = Some g \<and> same_class f g"
  using run
proof (cases rule: ca_ingress_cases)
  case off
  with f show ?thesis by simp
next
  case (on c parsed key mac ex)
  have "\<exists>g. m_flows (snd (snd (act, skb', m'))) k = Some g \<and> same_class f g"
    unfolding on(4) Let_def
    using f subject_same_class [OF ok _ kind, of "ca_stat_inc CA_STAT_PACKETS m" k]
    by (auto split: option.split)
  then show ?thesis by simp
qed

text \<open>A sequence of packets, each under the kernel's behaviour at that moment.\<close>

primrec ca_ingress_run :: "(kernel \<times> sk_buff) list \<Rightarrow> ca_maps \<Rightarrow> ca_maps option" where
  "ca_ingress_run [] m = Some m"
| "ca_ingress_run (p # ps) m =
     (case ca_ingress (fst p) m (snd p) of None \<Rightarrow> None | Some r \<Rightarrow> ca_ingress_run ps (snd (snd r)))"

lemma run_snapshot: "ca_ingress_run ps m = Some m' \<Longrightarrow> snapshot_of m' = snapshot_of m"
proof (induction ps arbitrary: m)
  case (Cons p ps)
  then obtain r where r: "ca_ingress (fst p) m (snd p) = Some r" "ca_ingress_run ps (snd (snd r)) = Some m'"
    by (auto split: option.splits)
  with Cons.IH well_behaved_ingress [OF r(1)] show ?case by (simp add: well_behaved_def)
qed simp

lemma run_same_class:
  assumes "\<forall>p \<in> set ps. flows_ok (fst p)" and "m_flows m k = Some f"
    and "fs_class_kind f \<noteq> CA_CLASS_KIND_NONE" and "ca_ingress_run ps m = Some m'"
  shows "\<exists>g. m_flows m' k = Some g \<and> same_class f g"
  using assms
proof (induction ps arbitrary: m f)
  case Nil
  then show ?case by simp
next
  case (Cons p ps)
  from Cons.prems(4) obtain act skb' m1 where 1: "ca_ingress (fst p) m (snd p) = Some (act, skb', m1)"
    and run: "ca_ingress_run ps m1 = Some m'"
    by (auto split: option.splits)
  obtain g where g: "m_flows m1 k = Some g" "same_class f g"
    using ingress_same_class [OF _ Cons.prems(2,3) 1] Cons.prems(1) by auto
  then have "fs_class_kind g \<noteq> CA_CLASS_KIND_NONE" using Cons.prems(3) by (simp add: same_class_def)
  from Cons.IH [OF _ g(1) this run] Cons.prems(1) g(2) same_class_trans show ?case by fastforce
qed

text \<open>
  C28 classified_flow_stable: no sequence of packets, from whatever senders, removes the entry of
  a classified flow or changes its class: packets in flight cannot evict or reclassify it.
\<close>

theorem classified_flow_stable:
  assumes "\<forall>p \<in> set ps. flows_ok (fst p)" and "m_flows m k = Some f"
    and "fs_class_kind f \<noteq> CA_CLASS_KIND_NONE" and "ca_ingress_run ps m = Some m'"
  shows "\<exists>g. m_flows m' k = Some g \<and> same_class f g"
  using assms by (rule run_same_class)

theorem classified_flow_stable_witness:
  "\<exists>m' g. ca_ingress_run [(ref_kernel 5, ref_skb), (ref_kernel 6, ref_skb)] ref_maps_flow = Some m' \<and>
     m_flows m' ref_key = Some g \<and> fs_class_id g = 100"
proof -
  let ?ps = "[(ref_kernel 5, ref_skb), (ref_kernel 6, ref_skb)]"
  obtain r1 where 1: "ca_ingress (ref_kernel 5) ref_maps_flow ref_skb = Some r1"
    using ca_ingress_defined by (rule definedE)
  obtain r2 where 2: "ca_ingress (ref_kernel 6) (snd (snd r1)) ref_skb = Some r2"
    using ca_ingress_defined by (rule definedE)
  have run: "ca_ingress_run ?ps ref_maps_flow = Some (snd (snd r2))" using 1 2 by simp
  have "\<forall>p \<in> set ?ps. flows_ok (fst p)" by (simp add: ref_kernel_ok)
  from classified_flow_stable [OF this _ _ run, of ref_key ref_flow] run show ?thesis
    by (auto simp: same_class_def)
qed

end
