(* ===== verification/Publication.thy ===== *)
theory Publication
  imports Snapshot_Sync Snapshot_Roundtrip Datapath_Verdicts
begin

text \<open>
  The contract of publication: a successful sync makes exactly the parsed snapshot active by one
  store and leaves the previous slot intact; a failed one leaves the published configuration and
  its slot alone, so packets can tell only by rate words it forgot; and it returns.  Together with
  the datapath: the next packet of a known flow gets the verdict of the text that was published.
\<close>

section \<open>The slot a snapshot describes\<close>

definition slot_of :: "snapshot \<Rightarrow> slot" where
  "slot_of sn = \<lparr>
     sl_subject = map_of (map (\<lambda>e. (se_key e, se_subject_id e)) (sn_subjects sn)),
     sl_policy = map_of (map (\<lambda>e. (pe_key e, pe_verdict e)) (sn_policies sn)),
     sl_port = map_of (map (\<lambda>e. (te_key e, te_hint e)) (sn_ports sn)),
     sl_ipv4 = map_of (map (\<lambda>e. (v4_key e, v4_hint e)) (sn_ipv4 sn)),
     sl_ipv6 = map_of (map (\<lambda>e. (v6_key e, v6_hint e)) (sn_ipv6 sn))\<rparr>"

definition distinct_keys :: "snapshot \<Rightarrow> bool" where
  "distinct_keys sn \<longleftrightarrow> distinct (map se_key (sn_subjects sn)) \<and> distinct (map pe_key (sn_policies sn)) \<and>
     distinct (map te_key (sn_ports sn)) \<and> distinct (map v4_key (sn_ipv4 sn)) \<and> distinct (map v6_key (sn_ipv6 sn))"

lemma on_part_Some:
  "on_part get put f s = Some (e, s') \<longleftrightarrow> (\<exists>x. f (get s) = Some (e, x) \<and> s' = put x s)"
  by (auto simp: on_part_def split: option.split)

lemma run_steps_success:
  "run_steps (f # fs) s = Some (0, s'') \<longleftrightarrow> (\<exists>s'. f s = Some (0, s') \<and> run_steps fs s' = Some (0, s''))"
  by (auto split: option.split prod.split if_splits)

lemma run_steps_append_success:
  "run_steps (fs @ gs) s = Some (0, s'') \<longleftrightarrow> (\<exists>s'. run_steps fs s = Some (0, s') \<and> run_steps gs s' = Some (0, s''))"
  by (auto simp: run_steps_append split: option.split prod.split if_splits)

lemma clear_slot_success:
  assumes ok: "sys_ok S" and run: "run_steps (clear_slot S) sl = Some (0, sl')"
  shows "sl' = \<lparr>sl_subject = Map.empty, sl_policy = Map.empty, sl_port = Map.empty,
    sl_ipv4 = Map.empty, sl_ipv6 = Map.empty\<rparr>"
proof -
  have e: "x = Map.empty" if "clear_map ops m = Some (0, x)" "map_ok ops" for ops :: "('k, 'v) map_ops" and m x
    using clear_map_empty [OF that(2,1)] by simp
  show ?thesis
    using run ok unfolding clear_slot_def run_steps_success on_part_Some
    by (cases sl) (auto simp: sys_ok_def dest!: e)
qed

lemma fill_slot_success:
  assumes ok: "sys_ok S"
    and run: "run_steps (fill_slot S sn) \<lparr>sl_subject = Map.empty, sl_policy = Map.empty, sl_port = Map.empty,
      sl_ipv4 = Map.empty, sl_ipv6 = Map.empty\<rparr> = Some (0, sl')"
  shows "sl' = slot_of sn \<and> distinct_keys sn"
proof -
  have p: "x = map_of es \<and> distinct (map fst es)"
    if "populate ops es Map.empty = Some (0, x)" "map_ok ops" for ops :: "('k, 'v) map_ops" and es x
    using populate_ok [OF that(2,1)] by simp
  from run ok show ?thesis
    unfolding fill_slot_def run_steps_success on_part_Some
    by (auto simp: sys_ok_def slot_of_def distinct_keys_def comp_def dest!: p)
qed

lemma rebuild_success:
  assumes "sys_ok S" and "run_steps (clear_slot S @ fill_slot S sn) sl = Some (0, sl')"
  shows "sl' = slot_of sn \<and> distinct_keys sn"
  using assms(2) unfolding run_steps_append_success
  using clear_slot_success [OF assms(1)] fill_slot_success [OF assms(1)] by blast

section \<open>What a sync does to the maps\<close>

lemma put_slot_frame [simp]:
  "m_config (put_slot b sl m) = m_config m" "m_mark_schema (put_slot b sl m) = m_mark_schema m"
  "m_flows (put_slot b sl m) = m_flows m" "m_global_rate (put_slot b sl m) = m_global_rate m"
  "m_subject_rates (put_slot b sl m) = m_subject_rates m" "m_runtime (put_slot b sl m) = m_runtime m"
  "m_stats (put_slot b sl m) = m_stats m"
  "get_slot b (put_slot b sl m) = sl" "get_slot (\<not> b) (put_slot b sl m) = get_slot (\<not> b) m"
  by (simp_all add: put_slot_def get_slot_def)

lemma put_slot_rates: "(put_slot b sl m)\<lparr>m_subject_rates := m_subject_rates m\<rparr> = put_slot b sl m"
  by (simp add: put_slot_def)

lemma get_slot_upd [simp]:
  "get_slot b (m\<lparr>m_config := x\<rparr>) = get_slot b m" "get_slot b (m\<lparr>m_subject_rates := r\<rparr>) = get_slot b m"
  by (simp_all add: get_slot_def)

definition next_config :: "snapshot \<Rightarrow> ca_config \<Rightarrow> ca_config" where
  "next_config sn current = (sn_config sn)\<lparr>cfg_active_slot := (if cfg_active_slot current \<noteq> 0 then 0 else 1)\<rparr>"

definition uses_b :: "ca_config \<Rightarrow> bool" where "uses_b c \<longleftrightarrow> cfg_active_slot c \<noteq> 0"

lemma uses_b_next [simp]: "uses_b (next_config sn c) = (\<not> uses_b c)"
  by (simp add: uses_b_def next_config_def)

text \<open>
  The state a sync leaves: the inactive slot and the subject rates may have changed, and after a
  success the configuration.
\<close>

lemma sync_slot_cases:
  assumes ok: "sys_ok S" and run: "sync_slot S sn current m = Some (r, m')"
  obtains (failed) sl rates where "r \<noteq> 0" "m' = (put_slot (\<not> uses_b current) sl m)\<lparr>m_subject_rates := rates\<rparr>"
      "rates \<subseteq>\<^sub>m m_subject_rates m"
      "rates \<noteq> m_subject_rates m \<Longrightarrow> cfg_classifier_generation (sn_config sn) \<noteq> cfg_classifier_generation current"
  | (published) "r = 0" "distinct_keys sn"
      "m' = (put_slot (\<not> uses_b current) (slot_of sn) m)\<lparr>
        m_subject_rates := (if cfg_classifier_generation (sn_config sn) \<noteq> cfg_classifier_generation current
                            then Map.empty else m_subject_rates m),
        m_config := (m_config m)(0 \<mapsto> next_config sn current)\<rparr>"
proof -
  let ?b = "\<not> uses_b current" and ?c = "next_config sn current"
  have b: "(cfg_active_slot ?c \<noteq> 0) = ?b" using uses_b_next [of sn current] by (simp only: uses_b_def)
  have id: "m = (put_slot ?b (get_slot ?b m) m)\<lparr>m_subject_rates := m_subject_rates m\<rparr>"
    by (simp add: put_slot_def get_slot_def)
  have gen: "cfg_classifier_generation ?c = cfg_classifier_generation (sn_config sn)"
    by (simp add: next_config_def)
  show thesis
  proof (cases "\<exists>name \<in> set (slot_names ?b). ca_bpf_open_map S name \<noteq> 0")
    case True
    then have "r = 1" "m' = m"
      using run b by (auto simp: sync_slot_def next_config_def [symmetric] Let_def)
    with id show thesis by (intro failed) auto
  next
    case False
    then have steps: "run_steps [on_part (get_slot ?b) (put_slot ?b) (run_steps (clear_slot S @ fill_slot S sn)),
        reset_rates S ?c current, publish S ?c] m = Some (r, m')"
      using run b by (simp add: sync_slot_def next_config_def [symmetric] Let_def)
    obtain e1 m1 where 1: "on_part (get_slot ?b) (put_slot ?b) (run_steps (clear_slot S @ fill_slot S sn)) m = Some (e1, m1)"
      and rest: "if e1 \<noteq> 0 then r = e1 \<and> m' = m1
        else run_steps [reset_rates S ?c current, publish S ?c] m1 = Some (r, m')"
      using steps by (auto split: option.splits if_splits)
    obtain sl where m1: "run_steps (clear_slot S @ fill_slot S sn) (get_slot ?b m) = Some (e1, sl)"
      "m1 = put_slot ?b sl m"
      using 1 by (auto simp: on_part_Some)
    have rates1: "m1 = m1\<lparr>m_subject_rates := m_subject_rates m\<rparr>" by (simp add: m1 put_slot_def)
    show thesis
    proof (cases "e1 = 0")
      case False
      with rest m1(2) put_slot_rates [of m ?b sl] show thesis
        by (intro failed [of "m_subject_rates m" sl]) simp_all
    next
      case e1: True
      with rest have rest1: "run_steps [reset_rates S ?c current, publish S ?c] m1 = Some (r, m')" by simp
      obtain e2 m2 where 2: "reset_rates S ?c current m1 = Some (e2, m2)"
        and rest2: "if e2 \<noteq> 0 then r = e2 \<and> m' = m2 else publish S ?c m2 = Some (r, m')"
        using rest1 by (auto split: option.splits if_splits)
      have del: "map_delete_ok (sy_rates S)" using ok by (simp add: sys_ok_def map_ok_def)
      obtain rates where shape2: "m2 = m1\<lparr>m_subject_rates := rates\<rparr>" "rates \<subseteq>\<^sub>m m_subject_rates m"
        "rates \<noteq> m_subject_rates m \<Longrightarrow> cfg_classifier_generation (sn_config sn) \<noteq> cfg_classifier_generation current"
      proof (cases "m2 = m1")
        case True
        with rates1 show ?thesis by (intro that [of "m_subject_rates m"]) simp_all
      next
        case False
        with 2 gen obtain x where "clear_map (sy_rates S) (m_subject_rates m) = Some (e2, x)"
          "m2 = m1\<lparr>m_subject_rates := x\<rparr>" "cfg_classifier_generation (sn_config sn) \<noteq> cfg_classifier_generation current"
          by (auto simp: reset_rates_def on_part_Some m1(2) split: if_splits)
        then show ?thesis using clear_map_le [OF del] by (intro that [of x]) fastforce+
      qed
      show thesis
      proof (cases "e2 = 0")
        case False
        with rest2 shape2 show thesis by (intro failed [of rates sl]) (simp_all add: m1(2))
      next
        case e2: True
        have sl: "sl = slot_of sn" "distinct_keys sn"
          using rebuild_success [OF ok] m1(1) e1 by auto
        have m2: "m2 = m1\<lparr>m_subject_rates := (if cfg_classifier_generation (sn_config sn) \<noteq> cfg_classifier_generation current
            then Map.empty else m_subject_rates m)\<rparr>"
          using 2 e2 ok rates1 gen clear_map_empty [of "sy_rates S" "m_subject_rates m1"]
          by (auto simp: reset_rates_def on_part_Some sys_ok_def split: if_splits)
        have u: "map_update_ok (sy_config S)" using ok by (simp add: sys_ok_def map_ok_def)
        obtain x where x: "mo_update (sy_config S) (m_config m2) 0 ?c BPF_ANY = (r, x)" "m' = m2\<lparr>m_config := x\<rparr>"
          using rest2 e2 by (auto simp: publish_def split: prod.splits)
        from map_update_cases [OF u x(1)] show thesis
        proof
          assume "r = 0 \<and> x = (m_config m2)(0 \<mapsto> ?c)"
          with x(2) m2 m1(2) sl show thesis by (intro published) simp_all
        next
          assume "r \<noteq> 0 \<and> x = m_config m2"
          with x(2) shape2 m1(2) show thesis by (intro failed [of rates sl]) simp_all
        qed
      qed
    qed
  qed
qed

section \<open>A sync returns\<close>

definition slot_finite :: "slot \<Rightarrow> bool" where
  "slot_finite sl \<longleftrightarrow> finite (dom (sl_subject sl)) \<and> finite (dom (sl_policy sl)) \<and> finite (dom (sl_port sl)) \<and>
     finite (dom (sl_ipv4 sl)) \<and> finite (dom (sl_ipv6 sl))"

lemma run_steps_Cons_defined:
  "defined (run_steps (f # fs) s) \<longleftrightarrow> defined (f s) \<and>
     (\<forall>s'. f s = Some (0, s') \<longrightarrow> defined (run_steps fs s'))"
  by (cases "f s") (auto split: prod.split)

lemma on_part_defined: "defined (on_part get put f s) \<longleftrightarrow> defined (f (get s))"
  by (simp add: on_part_def split: option.split prod.split)

lemma rebuild_returns:
  assumes ok: "sys_ok S" and fin: "slot_finite sl"
  shows "defined (run_steps (clear_slot S @ fill_slot S sn) sl)"
proof -
  have c: "defined (clear_map ops m)" if "map_ok ops" "finite (dom m)" for ops :: "('k, 'v) map_ops" and m
    using clear_map_terminates [OF that] .
  have p: "defined (populate ops es m)" for ops :: "('k, 'v) map_ops" and es m
    using populate_returns [of ops es m] by (simp add: defined_def)
  show ?thesis
    using ok fin unfolding clear_slot_def fill_slot_def append.simps
    by (auto simp: run_steps_Cons_defined on_part_defined on_part_Some p sys_ok_def slot_finite_def
        simp del: run_steps.simps(2) intro!: c)
qed

text \<open>
  A sync returns, whatever its input and whichever system calls fail: the
  loops that empty the maps end because each turn removes a key that is there.
\<close>

theorem sync_terminates:
  assumes ok: "sys_ok S" and fin: "slot_finite (get_slot True m)" "slot_finite (get_slot False m)"
    "finite (dom (m_subject_rates m))"
  shows "\<exists>r m'. ca_bpf_snapshot_sync S L stdin m = Some (r, m')"
proof -
  have slot: "defined (sync_slot S sn current m)" for sn current
  proof -
    have "slot_finite (get_slot b m)" for b using fin(1,2) by (cases b) simp_all
    then have "defined (run_steps (clear_slot S @ fill_slot S sn) (get_slot b m))" for b
      by (rule rebuild_returns [OF ok])
    moreover have "defined (clear_map (sy_rates S) (m_subject_rates m))"
      using ok fin(3) by (intro clear_map_terminates) (simp_all add: sys_ok_def)
    ultimately show ?thesis
      by (auto simp: sync_slot_def Let_def run_steps_Cons_defined on_part_defined on_part_Some reset_rates_def
          publish_def split_beta simp del: run_steps.simps(2))
  qed
  have never: "(sync_slot S sn current m = None) = False" for sn current
    using slot [of sn current] by (simp add: defined_def)
  have "defined (ca_bpf_snapshot_sync S L stdin m)"
    by (simp add: never ca_bpf_snapshot_sync_def Let_def split: prod.split sum.split option.split)
  then show ?thesis by (cases "ca_bpf_snapshot_sync S L stdin m") auto
qed

section \<open>Success and failure\<close>

lemma sync_success:
  assumes ok: "sys_ok S" and run: "ca_bpf_snapshot_sync S L stdin m = Some (0, m')"
  obtains sn current where "parse_snapshot L zero_snapshot stdin = (0, sn)"
    "m_config m 0 = Some current \<or> m_config m 0 = None \<and> current = zero_config"
    "sync_slot S sn current m = Some (0, m')"
proof -
  obtain sn where sn: "parse_snapshot L zero_snapshot stdin = (0, sn)"
    using run by (auto simp: ca_bpf_snapshot_sync_def Let_def split: prod.splits if_splits)
  have lk: "case ca_bpf_lookup_config S m of Inr c \<Rightarrow> m_config m 0 = Some c
      | Inl e \<Rightarrow> e \<noteq> 0 \<and> (e = ENOENT \<longrightarrow> m_config m 0 = None)"
    using ok unfolding sys_ok_def lookup_ok_def ca_bpf_lookup_config_def by blast
  show thesis
  proof (cases "ca_bpf_lookup_config S m")
    case (Inl e)
    with run sn have "e = ENOENT" "sync_slot S sn zero_config m = Some (0, m')"
      by (auto simp: ca_bpf_snapshot_sync_def split: if_splits option.splits)
    with Inl lk sn show thesis by (intro that) auto
  next
    case (Inr c)
    with run sn have "sync_slot S sn c m = Some (0, m')"
      by (auto simp: ca_bpf_snapshot_sync_def split: if_splits option.splits)
    with Inr lk sn show thesis by (intro that) auto
  qed
qed

lemma sync_failure:
  assumes ok: "sys_ok S" and run: "ca_bpf_snapshot_sync S L stdin m = Some (r, m')" and "r \<noteq> 0"
    and c: "m_config m 0 = Some c"
  obtains (same) "m' = m"
  | (changed) sn sl rates where "parse_snapshot L zero_snapshot stdin = (0, sn)"
      "m' = (put_slot (\<not> uses_b c) sl m)\<lparr>m_subject_rates := rates\<rparr>" "rates \<subseteq>\<^sub>m m_subject_rates m"
      "rates \<noteq> m_subject_rates m \<Longrightarrow> cfg_classifier_generation (sn_config sn) \<noteq> cfg_classifier_generation c"
proof (cases "m' = m")
  case False
  have lk: "case ca_bpf_lookup_config S m of Inr c \<Rightarrow> m_config m 0 = Some c
      | Inl e \<Rightarrow> e \<noteq> 0 \<and> (e = ENOENT \<longrightarrow> m_config m 0 = None)"
    using ok unfolding sys_ok_def lookup_ok_def ca_bpf_lookup_config_def by blast
  obtain sn e where sn: "parse_snapshot L zero_snapshot stdin = (0, sn)" and run1: "sync_slot S sn c m = Some (e, m')" "e \<noteq> 0"
    using run False lk c \<open>r \<noteq> 0\<close>
    by (auto simp: ca_bpf_snapshot_sync_def Let_def split: prod.splits if_splits sum.splits option.splits)
  from ok run1(1) show ?thesis
  proof (cases rule: sync_slot_cases)
    case (failed sl rates)
    with sn show ?thesis by (intro changed) simp_all
  next
    case published
    with run1(2) show ?thesis by simp
  qed
qed (rule same)

text \<open>
  C6 sync_publishes: a successful sync makes exactly the snapshot of its input active: the
  configuration is the parsed one with the slots swapped, the new slot maps exactly the listed
  keys (each listed once); the rate words of the subjects are forgotten exactly when the
  classifier generation changes; and the slot that was active, the flow table, the counters, the
  schema and the other words are as before.
\<close>

theorem sync_publishes:
  assumes "sys_ok S" and "ca_bpf_snapshot_sync S L stdin m = Some (0, m')"
  shows "\<exists>sn current. parse_snapshot L zero_snapshot stdin = (0, sn) \<and> distinct_keys sn \<and>
    (m_config m 0 = Some current \<or> m_config m 0 = None \<and> current = zero_config) \<and>
    m_config m' = (m_config m)(0 \<mapsto> next_config sn current) \<and>
    get_slot (uses_b (next_config sn current)) m' = slot_of sn \<and>
    get_slot (uses_b current) m' = get_slot (uses_b current) m \<and>
    m_subject_rates m' = (if cfg_classifier_generation (sn_config sn) \<noteq> cfg_classifier_generation current
                          then Map.empty else m_subject_rates m) \<and>
    m_flows m' = m_flows m \<and> m_runtime m' = m_runtime m \<and> m_global_rate m' = m_global_rate m \<and>
    m_stats m' = m_stats m \<and> m_mark_schema m' = m_mark_schema m"
proof -
  obtain sn current where p: "parse_snapshot L zero_snapshot stdin = (0, sn)"
    "m_config m 0 = Some current \<or> m_config m 0 = None \<and> current = zero_config"
    and run: "sync_slot S sn current m = Some (0, m')"
    using sync_success [OF assms] .
  from assms(1) run show ?thesis
  proof (cases rule: sync_slot_cases)
    case (failed sl rates)
    then show ?thesis by simp
  next
    case published
    have "get_slot (\<not> (\<not> uses_b current)) (put_slot (\<not> uses_b current) (slot_of sn) m) = get_slot (uses_b current) m"
      unfolding put_slot_frame(9) by simp
    with published p show ?thesis by (intro exI [of _ sn] exI [of _ current]) simp
  qed
qed

text \<open>
  C16 failed_sync_invisible: a sync that fails, at whatever point, leaves the published
  configuration, its slot, the flow table, the counters and the other words untouched.  It can have
  forgotten rate words of subjects, and then only if its text has another classifier
  generation.  Every packet is handled exactly as without the sync but for these words; so, when
  none was forgotten, exactly as if the sync had not been tried.
\<close>

theorem failed_sync_invisible:
  assumes ok: "sys_ok S" and run: "ca_bpf_snapshot_sync S L stdin m = Some (r, m')" and r: "r \<noteq> 0"
    and c: "m_config m 0 = Some c"
  shows "m_config m' = m_config m \<and> same_active c m' m \<and> m_flows m' = m_flows m \<and>
    m_runtime m' = m_runtime m \<and> m_global_rate m' = m_global_rate m \<and> m_stats m' = m_stats m \<and>
    m_mark_schema m' = m_mark_schema m \<and> m_subject_rates m' \<subseteq>\<^sub>m m_subject_rates m \<and>
    (m_subject_rates m' \<noteq> m_subject_rates m \<longrightarrow> (\<exists>sn. parse_snapshot L zero_snapshot stdin = (0, sn) \<and>
       cfg_classifier_generation (sn_config sn) \<noteq> cfg_classifier_generation c)) \<and>
    ca_ingress K m' skb =
      map_option (on_maps (overlay c m')) (ca_ingress K (m\<lparr>m_subject_rates := m_subject_rates m'\<rparr>) skb) \<and>
    (m_subject_rates m' = m_subject_rates m \<longrightarrow>
      ca_ingress K m' skb = map_option (on_maps (overlay c m')) (ca_ingress K m skb))"
proof -
  let ?n = "m\<lparr>m_subject_rates := m_subject_rates m'\<rparr>"
  have eq: "m' = overlay c m' ?n" and s: "same_active c m' m"
    and rates: "m_subject_rates m' \<subseteq>\<^sub>m m_subject_rates m" "m_subject_rates m' \<noteq> m_subject_rates m \<longrightarrow>
      (\<exists>sn. parse_snapshot L zero_snapshot stdin = (0, sn) \<and>
        cfg_classifier_generation (sn_config sn) \<noteq> cfg_classifier_generation c)"
    and other: "m_config m' = m_config m" "m_flows m' = m_flows m" "m_runtime m' = m_runtime m"
      "m_global_rate m' = m_global_rate m" "m_stats m' = m_stats m" "m_mark_schema m' = m_mark_schema m"
    using assms by (cases rule: sync_failure; auto simp: same_active_def put_slot_def uses_b_def overlay_def)+
  have "ca_ingress K m' skb = map_option (on_maps (overlay c m')) (ca_ingress K ?n skb)"
    using ca_ingress_overlay [of ?n c K m' skb] c eq by simp
  moreover have "m_subject_rates m' = m_subject_rates m \<Longrightarrow> ?n = m" by simp
  ultimately show ?thesis using s rates other by metis
qed

section \<open>From the text to the packet\<close>

text \<open>The verdict a snapshot lists for a class of a subject.\<close>

definition policy_of :: "snapshot \<Rightarrow> u32 \<Rightarrow> u16 \<Rightarrow> u8" where
  "policy_of sn s k =
     (let look = (\<lambda>cls. map_of (map (\<lambda>e. (pe_key e, pe_verdict e)) (sn_policies sn))
                      \<lparr>pk_subject_id = s, pk_class_id = cls, pk_reserved = 0\<rparr>)
      in case look k of Some v \<Rightarrow> v
         | None \<Rightarrow> (case look CA_CLASS_DEFAULT of Some v \<Rightarrow> v | None \<Rightarrow> CA_VERDICT_ALLOW))"

lemma published_slot:
  assumes "sys_ok S" and "ca_bpf_snapshot_sync S L stdin m = Some (0, m')"
  obtains sn current where "parse_snapshot L zero_snapshot stdin = (0, sn)"
    "m_config m' 0 = Some (next_config sn current)" "m_flows m' = m_flows m"
    "get_slot (uses_b (next_config sn current)) m' = slot_of sn"
proof -
  obtain sn current where p: "parse_snapshot L zero_snapshot stdin = (0, sn)"
    and run: "sync_slot S sn current m = Some (0, m')"
    using sync_success [OF assms] .
  from assms(1) run show thesis
  proof (cases rule: sync_slot_cases)
    case (failed sl rates)
    then show ?thesis by simp
  next
    case published
    with p show ?thesis by (intro that [of sn current]) simp_all
  qed
qed

lemma slot_policy:
  assumes "get_slot (uses_b c) m = slot_of sn"
  shows "ca_policy_verdict c m s k = policy_of sn s k"
proof -
  have look: "ca_policy_lookup_map c m key = map_of (map (\<lambda>e. (pe_key e, pe_verdict e)) (sn_policies sn)) key" for key
    using assms by (cases "uses_b c") (simp_all add: get_slot_def slot_of_def uses_b_def ca_policy_lookup_map_def)
  show ?thesis unfolding ca_policy_verdict_def policy_of_def look Let_def by (simp split: option.split)
qed

text \<open>
  C3 publication_enforced: after a successful sync that starts a new policy generation, the next
  packet of any flow classified before gets the verdict the published text lists for its subject
  and class, or for the subject's default class.
\<close>

theorem publication_enforced:
  assumes sync: "sys_ok S" "ca_bpf_snapshot_sync S L stdin m = Some (0, m')"
    and pkt: "enforced m' skb c k s ex"
    and f: "m_flows m k = Some f" "fs_class_kind f \<noteq> CA_CLASS_KIND_NONE" "entry_wf k f"
    and gen: "fs_app_policy_generation f \<noteq> cfg_app_policy_generation c"
  shows "\<exists>sn skb' m''. parse_snapshot L zero_snapshot stdin = (0, sn) \<and>
    ca_ingress K m' skb = Some (TC_ACT_UNSPEC, skb', m'') \<and>
    mark_verdict (skb_mark skb') = Some (norm_verdict (policy_of sn s (fs_class_id f)))"
proof -
  obtain sn current where p: "parse_snapshot L zero_snapshot stdin = (0, sn)"
    and c: "m_config m' 0 = Some (next_config sn current)" and fl: "m_flows m' = m_flows m"
    and sl: "get_slot (uses_b (next_config sn current)) m' = slot_of sn"
    using published_slot [OF sync] .
  have "c = next_config sn current" using c enforced_config [OF pkt] by simp
  with sl have v: "ca_policy_verdict c m' s (fs_class_id f) = policy_of sn s (fs_class_id f)"
    by (intro slot_policy) simp
  have "entry_coherent c m' k f" using gen by (simp add: entry_coherent_def)
  from established_verdict [OF pkt _ f(2,3) this, of K] f(1) fl p v show ?thesis by auto
qed

text \<open>A longest-prefix lookup returns a value the map holds.\<close>

definition lpm_ok :: "kernel \<Rightarrow> bool" where
  "lpm_ok K \<longleftrightarrow> (\<forall>m k h. kn_ipv4_lookup K m k = Some h \<longrightarrow> h \<in> ran m) \<and>
     (\<forall>m k h. kn_ipv6_lookup K m k = Some h \<longrightarrow> h \<in> ran m)"

lemma map_of_hint_wf:
  assumes "list_all (\<lambda>e. published_hint (h e)) es" and "map_of (map (\<lambda>e. (k e, h e)) es) key = Some x"
  shows "hint_wf x"
  using map_of_SomeD [OF assms(2)] assms(1) published_hint_wf by (auto simp: list_all_iff)

text \<open>
  After a successful sync the evidence of every flow, from its destination
  prefix and from its port, is a well-formed hint, which is what the classifier relies on.
\<close>

theorem published_hints_wf:
  assumes sync: "sys_ok S" "ca_bpf_snapshot_sync S L stdin m = Some (0, m')"
    and L: "pton_ok L" and K: "lpm_ok K" and c: "m_config m' 0 = Some c"
  shows "opt_hint_wf (ca_prefix_hint K c m' k) \<and> opt_hint_wf (ca_port_hint c m' k)"
proof -
  obtain sn current where p: "parse_snapshot L zero_snapshot stdin = (0, sn)"
    and c': "m_config m' 0 = Some (next_config sn current)"
    and sl: "get_slot (uses_b (next_config sn current)) m' = slot_of sn"
    using published_slot [OF sync] .
  have "c = next_config sn current" using c c' by simp
  with sl have slot: "get_slot (uses_b c) m' = slot_of sn" by simp
  have wf: "snapshot_wf sn"
    using p parse_lines_wf [OF L zero_snapshot_wf, of "map c_str (get_lines stdin)"]
    by (auto simp: parse_snapshot_def Let_def split_beta split: if_splits)
  have ports: "list_all (\<lambda>e. published_hint (te_hint e)) (sn_ports sn)"
    and p4: "list_all (\<lambda>e. published_hint (v4_hint e)) (sn_ipv4 sn)"
    and p6: "list_all (\<lambda>e. published_hint (v6_hint e)) (sn_ipv6 sn)"
    using wf by (auto simp: snapshot_wf_def list_all_iff port_wf_def ipv4_wf_def ipv6_wf_def)
  have port: "hint_wf h" if "ca_port_lookup c m' key = Some h" for key h
    using that slot by (intro map_of_hint_wf [OF ports, of te_key key])
      (auto simp: ca_port_lookup_def get_slot_def slot_of_def uses_b_def split: if_splits)
  have v4: "hint_wf h" if "ca_ipv4_lookup K c m' key = Some h" for key h
  proof -
    have "h \<in> ran (sl_ipv4 (slot_of sn))"
      using that slot K unfolding lpm_ok_def
      by (auto simp: ca_ipv4_lookup_def get_slot_def uses_b_def split: if_splits dest!: arg_cong [where f = sl_ipv4])
    then show ?thesis using map_of_hint_wf [OF p4, of v4_key] by (auto simp: slot_of_def ran_def)
  qed
  have v6: "hint_wf h" if "ca_ipv6_lookup K c m' key = Some h" for key h
  proof -
    have "h \<in> ran (sl_ipv6 (slot_of sn))"
      using that slot K unfolding lpm_ok_def
      by (auto simp: ca_ipv6_lookup_def get_slot_def uses_b_def split: if_splits dest!: arg_cong [where f = sl_ipv6])
    then show ?thesis using map_of_hint_wf [OF p6, of v6_key] by (auto simp: slot_of_def ran_def)
  qed
  have "pred_option hint_wf x" if "\<And>h. x = Some h \<Longrightarrow> hint_wf h" for x
    using that by (cases x) simp_all
  with port v4 v6 show ?thesis by (auto simp: opt_hint_wf_def ca_prefix_hint_def ca_port_hint_def)
qed

end
