(* ===== verification/Map_Walk.thy ===== *)
theory Map_Walk
  imports Control
begin

text \<open>
  Walks over the keys of a map.  The controllers iterate in two ways.  A loop that may delete the
  key it visits asks for the next key first (\<open>each_key\<close>, the \<^verbatim>\<open>for (;;)\<close> loops of
  \<^verbatim>\<open>ca_bpf_gc_flows\<close>, \<^verbatim>\<open>collect_candidates\<close> and \<^verbatim>\<open>run_status\<close>); a
  counting loop follows the keys from the start (\<open>follow_keys\<close>, the \<^verbatim>\<open>while\<close> loops of
  \<^verbatim>\<open>count_map_entries\<close> and \<^verbatim>\<open>count_unique_subjects\<close>).  Nothing in the code bounds
  them: \<open>None\<close> is a walk that does not return.

  On a map whose iteration visits its keys in some fixed order (\<open>walk_ok\<close>), both are folds over the
  keys present, which is what the lemmas of this theory show.
\<close>

section \<open>The loops\<close>

text \<open>\<open>body\<close> returns the state after the visit and whether the loop is left.\<close>

partial_function (option) each_key ::
    "('s \<Rightarrow> 'k \<Rightarrow> int + 'k) \<Rightarrow> ('k \<Rightarrow> 's \<Rightarrow> 's \<times> bool) \<Rightarrow> 'k \<Rightarrow> 's \<Rightarrow> 's option" where
  "each_key nxt body key s =
     (if snd (body key s) then Some (fst (body key s))
      else case nxt s key of
        Inl e \<Rightarrow> Some (fst (body key s))
      | Inr key' \<Rightarrow> each_key nxt body key' (fst (body key s)))"

partial_function (option) follow_keys ::
    "('k option \<Rightarrow> int + 'k) \<Rightarrow> ('k \<Rightarrow> 's \<Rightarrow> 's) \<Rightarrow> 'k option \<Rightarrow> 's \<Rightarrow> 's option" where
  "follow_keys nxt body cur s =
     (case nxt cur of
        Inl e \<Rightarrow> Some s
      | Inr key \<Rightarrow> follow_keys nxt body (Some key) (body key s))"

section \<open>The documented order of an iteration\<close>

definition first_key :: "'k list \<Rightarrow> int + 'k" where
  "first_key ks = (case ks of [] \<Rightarrow> Inl ENOENT | k # _ \<Rightarrow> Inr k)"

abbreviation present :: "('k \<rightharpoonup> 'v) \<Rightarrow> 'k list \<Rightarrow> 'k list" where
  "present m ks \<equiv> filter (\<lambda>k. m k \<noteq> None) ks"

text \<open>
  \<open>ks\<close> is the order of the buckets: the first call returns the first key present, a call with a key
  that is present the next one, and deleting a key does not change the order of the others.
\<close>

definition walk_ok :: "('k, 'v) map_ops \<Rightarrow> 'k list \<Rightarrow> bool" where
  "walk_ok ops ks \<longleftrightarrow> distinct ks \<and> (\<forall>m. dom m \<subseteq> set ks \<longrightarrow>
     mo_next_key ops m None = first_key (present m ks) \<and>
     (\<forall>pre k post. present m ks = pre @ k # post \<longrightarrow> mo_next_key ops m (Some k) = first_key post))"

lemma first_key_simps [simp]: "first_key [] = Inl ENOENT" "first_key (k # ks) = Inr k"
  by (simp_all add: first_key_def)

lemma walk_first:
  "walk_ok ops ks \<Longrightarrow> dom m \<subseteq> set ks \<Longrightarrow> mo_next_key ops m None = first_key (present m ks)"
  by (simp add: walk_ok_def)

lemma walk_next:
  "walk_ok ops ks \<Longrightarrow> dom m \<subseteq> set ks \<Longrightarrow> present m ks = pre @ k # post \<Longrightarrow>
    mo_next_key ops m (Some k) = first_key post"
  by (simp add: walk_ok_def)

lemma set_present_keys: "dom m \<subseteq> set ks \<Longrightarrow> set (present m ks) = dom m"
  by auto

lemma present_delete:
  "present (m(k := None)) ks = filter (\<lambda>x. x \<noteq> k) (present m ks)"
  by (simp add: filter_filter) (metis (mono_tags, lifting) filter_cong)

section \<open>Walks are folds\<close>

primrec walk_fold :: "('k \<Rightarrow> 's \<Rightarrow> 's \<times> bool) \<Rightarrow> 'k list \<Rightarrow> 's \<Rightarrow> 's" where
  "walk_fold body [] s = s"
| "walk_fold body (k # ks) s =
     (if snd (body k s) then fst (body k s) else walk_fold body ks (fst (body k s)))"

lemma each_key_fold:
  assumes ok: "walk_ok ops ks"
    and del: "\<And>k s. get (fst (body k s)) = get s \<or> get (fst (body k s)) = (get s)(k := None)"
  shows "dom (get s) \<subseteq> set ks \<Longrightarrow> present (get s) ks = pre @ k # post \<Longrightarrow>
    each_key (\<lambda>s k. mo_next_key ops (get s) (Some k)) body k s = Some (walk_fold body (k # post) s)"
proof (induction post arbitrary: pre k s)
  case Nil
  then have "mo_next_key ops (get s) (Some k) = Inl ENOENT"
    using walk_next [OF ok Nil.prems] by simp
  then show ?case by (subst each_key.simps) simp
next
  case (Cons k' post)
  let ?s = "fst (body k s)"
  have nx: "mo_next_key ops (get s) (Some k) = Inr k'"
    using walk_next [OF ok Cons.prems] by simp
  have dis: "distinct (pre @ k # k' # post)"
    using ok Cons.prems(2) by (metis distinct_filter walk_ok_def)
  have "dom (get ?s) \<subseteq> set ks \<and> (\<exists>pre'. present (get ?s) ks = pre' @ k' # post)"
    using del [of k s]
  proof
    assume "get ?s = get s"
    with Cons.prems show ?thesis by (intro conjI exI [of _ "pre @ [k]"]) simp_all
  next
    assume g: "get ?s = (get s)(k := None)"
    have "filter (\<lambda>x. x \<noteq> k) pre = pre" "filter (\<lambda>x. x \<noteq> k) post = post"
      using dis by (auto intro: filter_True)
    moreover have "k' \<noteq> k" using dis by auto
    ultimately have "present (get ?s) ks = pre @ k' # post"
      unfolding g present_delete Cons.prems(2) by simp
    moreover have "dom (get ?s) \<subseteq> set ks" using Cons.prems(1) unfolding g by auto
    ultimately show ?thesis by blast
  qed
  then obtain pre' where "dom (get ?s) \<subseteq> set ks" "present (get ?s) ks = pre' @ k' # post" by blast
  from Cons.IH [OF this] nx show ?case by (subst each_key.simps) simp
qed

lemma each_key_const:
  assumes "walk_ok ops ks" and "dom m \<subseteq> set ks" and "present m ks = k # post"
  shows "each_key (\<lambda>_ k. mo_next_key ops m (Some k)) body k s = Some (walk_fold body (k # post) s)"
proof -
  have "present m ks = [] @ k # post" using assms(3) by (simp only: append_Nil)
  then show ?thesis
    by (intro each_key_fold [where get = "\<lambda>_. m", OF assms(1) _ assms(2)]) simp_all
qed

lemma follow_keys_fold:
  assumes ok: "walk_ok ops ks" and dom: "dom m \<subseteq> set ks"
  shows "follow_keys (mo_next_key ops m) body None s = Some (fold body (present m ks) s)"
proof -
  have tail: "present m ks = pre @ k # post \<Longrightarrow>
      follow_keys (mo_next_key ops m) body (Some k) s = Some (fold body post s)" for pre k post s
  proof (induction post arbitrary: pre k s)
    case Nil
    then show ?case using walk_next [OF ok dom Nil] by (subst follow_keys.simps) simp
  next
    case (Cons k' post)
    have "mo_next_key ops m (Some k) = Inr k'" using walk_next [OF ok dom Cons.prems] by simp
    with Cons.IH [of "pre @ [k]" k'] Cons.prems show ?case by (subst follow_keys.simps) simp
  qed
  show ?thesis
  proof (cases "present m ks")
    case Nil
    then show ?thesis using walk_first [OF ok dom] by (subst follow_keys.simps) simp
  next
    case (Cons k post)
    then show ?thesis using walk_first [OF ok dom] tail [of "[]" k post] by (subst follow_keys.simps) simp
  qed
qed

end
