(* ===== verification/Host.thy ===== *)
theory Host
  imports Map_Walk
begin

text \<open>
  The state the BPF controller works on and the calls it makes besides those of \<open>Control\<close>: the
  pinned maps and the pinned program, the TC filters of the host, the interfaces, and libbpf.

  A filter is at a coordinate (interface, handle, priority) and holds the id of its program.  The
  calls are the parameter \<open>host\<close>; \<open>host_ok\<close> states what their documentation promises.  Other
  programs may own any filter; they are assumed not to change the filters while a command runs, since
  the TC interface has no compare-and-delete.  \<open>ho_percpu_stats\<close> reads one counter on every CPU, where
  \<open>m_stats\<close> is the slice of the CPU that runs the classifier.
\<close>

type_synonym coord = "u32 \<times> u32 \<times> u32"
type_synonym filters = "coord \<rightharpoonup> u32"

record ctl =
  cs_maps :: ca_maps
  cs_pins :: "string set"
  cs_program :: "u32 option"
  cs_filters :: filters

record host =
  ho_clock :: "(u64 \<times> u64) option"
  ho_obj_get :: "bool \<Rightarrow> string \<Rightarrow> int"
  ho_prog_info :: "u32 \<Rightarrow> int"
  ho_schema_lookup :: "(u32 \<rightharpoonup> u32) \<Rightarrow> int + u32"
  ho_schema_update :: "(u32 \<rightharpoonup> u32) \<Rightarrow> u32 \<Rightarrow> int \<times> (u32 \<rightharpoonup> u32)"
  ho_tc_query :: "filters \<Rightarrow> coord \<Rightarrow> int + u32"
  ho_tc_detach :: "filters \<Rightarrow> coord \<Rightarrow> int \<times> filters"
  ho_tc_attach :: "filters \<Rightarrow> coord \<Rightarrow> u32 \<Rightarrow> int \<times> filters"
  ho_hook_create :: "u32 \<Rightarrow> int"
  ho_if_nameindex :: "(u32 \<times> string) list option"
  ho_if_nametoindex :: "string \<Rightarrow> u32"
  ho_unlink :: "string \<Rightarrow> int"
  ho_mkdir :: int
  ho_open_file :: "string \<Rightarrow> int"
  ho_find_program :: "string \<Rightarrow> bool"
  ho_load :: "string \<Rightarrow> ca_maps \<Rightarrow> string set \<Rightarrow> int \<times> ca_maps \<times> string set"
  ho_find_schema :: "string \<Rightarrow> bool"
  ho_pin_program :: "string \<Rightarrow> int"
  ho_new_id :: "string \<Rightarrow> u32"
  ho_cpus :: int
  ho_calloc :: bool
  ho_runtime_lookup :: "(u32 \<rightharpoonup> u64) \<Rightarrow> u64 option"
  ho_percpu_stats :: "u32 \<Rightarrow> u64 list option"

text \<open>
  A query finds the filter that is there; \<^verbatim>\<open>ENOENT\<close> and \<^verbatim>\<open>EINVAL\<close> mean there is none.
  A detach removes the filter or changes nothing; an attach without \<^verbatim>\<open>BPF_TC_F_REPLACE\<close>
  takes a free coordinate or changes nothing.
\<close>

definition tc_ok :: "host \<Rightarrow> bool" where
  "tc_ok H \<longleftrightarrow>
     (\<forall>f c. case ho_tc_query H f c of
        Inr p \<Rightarrow> f c = Some p
      | Inl e \<Rightarrow> e \<noteq> 0 \<and> (e = - ENOENT \<or> e = - EINVAL \<longrightarrow> f c = None)) \<and>
     (\<forall>f c. (fst (ho_tc_detach H f c) = 0 \<longrightarrow> snd (ho_tc_detach H f c) = f(c := None)) \<and>
            (fst (ho_tc_detach H f c) \<noteq> 0 \<longrightarrow> snd (ho_tc_detach H f c) = f) \<and>
            (fst (ho_tc_detach H f c) = - ENOENT \<longrightarrow> f c = None)) \<and>
     (\<forall>f c p. (fst (ho_tc_attach H f c p) = 0 \<longrightarrow> f c = None \<and> snd (ho_tc_attach H f c p) = f(c \<mapsto> p)) \<and>
              (fst (ho_tc_attach H f c p) \<noteq> 0 \<longrightarrow> snd (ho_tc_attach H f c p) = f))"

text \<open>
  A pin that does not exist cannot be opened, one that exists is not reported missing; the schema word
  is read and written as it is.
\<close>

definition pins_ok :: "host \<Rightarrow> bool" where
  "pins_ok H \<longleftrightarrow> (\<forall>path. ho_obj_get H False path \<noteq> 0 \<and> ho_obj_get H True path \<noteq> ENOENT) \<and>
     (\<forall>m v. ho_schema_lookup H m = Inr v \<longrightarrow> m 0 = Some v) \<and>
     (\<forall>m v. fst (ho_schema_update H m v) = 0 \<longrightarrow> snd (ho_schema_update H m v) = m(0 \<mapsto> v))"

definition host_ok :: "host \<Rightarrow> bool" where
  "host_ok H \<longleftrightarrow> tc_ok H \<and> pins_ok H"

text \<open>The system calls of \<open>Control\<close>, on the pins of a state.\<close>

definition sys_at :: "host \<Rightarrow> sys \<Rightarrow> ctl \<Rightarrow> sys" where
  "sys_at H S st = S\<lparr>sy_obj_get := (\<lambda>path. ho_obj_get H (path \<in> cs_pins st) path)\<rparr>"

abbreviation (input) CA_PROGRAM_PIN :: string where "CA_PROGRAM_PIN \<equiv> ''/sys/fs/bpf/client_access/ca_ingress''"

text \<open>Opening the program pin: the program, or the error number.\<close>

definition get_program :: "host \<Rightarrow> ctl \<Rightarrow> int + u32" where
  "get_program H st =
     (case cs_program st of
        None \<Rightarrow> Inl (ho_obj_get H False CA_PROGRAM_PIN)
      | Some p \<Rightarrow> if ho_obj_get H True CA_PROGRAM_PIN \<noteq> 0 then Inl (ho_obj_get H True CA_PROGRAM_PIN) else Inr p)"

lemma get_program_Inr: "get_program H st = Inr p \<Longrightarrow> cs_program st = Some p"
  by (auto simp: get_program_def split: option.splits if_splits)

lemma sys_at_fields [simp]:
  "sy_config (sys_at H S st) = sy_config S" "sy_flows (sys_at H S st) = sy_flows S"
  "ca_bpf_update_lock (sys_at H S st) = ca_bpf_update_lock S"
  "sys_ok (sys_at H S st) = sys_ok S"
  by (simp_all add: sys_at_def ca_bpf_update_lock_def sys_ok_def lookup_ok_def)

end
