(* ===== verification/Tc.thy ===== *)
theory Tc
  imports Host
begin

text \<open>
  \<^verbatim>\<open>src/bpf-tc.c\<close>: attaching the pinned program to an interface, detaching it, pruning the
  filters of interfaces that are no longer managed, and verifying that no other filter of ours exists.
  The controller owns the coordinate \<^verbatim>\<open>CA_TC_HANDLE\<close>/\<^verbatim>\<open>CA_TC_PRIORITY\<close> and, from an
  older version, 1/1; a filter at these coordinates is ours only if it runs the pinned program.
\<close>

section \<open>Queries\<close>

text \<open>The id of the program, or the negative error number.\<close>

definition ca_bpf_program_id_from_fd :: "host \<Rightarrow> u32 \<Rightarrow> int + u32" where
  "ca_bpf_program_id_from_fd H p = (if ho_prog_info H p \<noteq> 0 then Inl (- ho_prog_info H p) else Inr p)"

definition ca_bpf_tc_query_program :: "host \<Rightarrow> filters \<Rightarrow> u32 \<Rightarrow> u32 \<Rightarrow> u32 \<Rightarrow> int + u32" where
  "ca_bpf_tc_query_program H f ifindex handle priority = ho_tc_query H f (ifindex, handle, priority)"

definition tc_query_absent :: "int \<Rightarrow> bool" where
  "tc_query_absent err \<longleftrightarrow> err = - ENOENT \<or> err = - EINVAL"

definition keep_interface :: "string \<Rightarrow> string list \<Rightarrow> bool" where
  "keep_interface ifname keep_names \<longleftrightarrow> (\<exists>name \<in> set keep_names. ifname = name)"

definition coordinates :: "(u32 \<times> u32) list" where
  "coordinates = [(CA_TC_HANDLE, CA_TC_PRIORITY), (1, 1)]"

text \<open>Interfaces by coordinates, in the order of the two loops.\<close>

definition visits :: "(u32 \<times> string) list \<Rightarrow> ((u32 \<times> string) \<times> (u32 \<times> u32)) list" where
  "visits interfaces = concat (map (\<lambda>entry. map (\<lambda>c. (entry, c)) coordinates) interfaces)"

lemma visits_set: "((i, name), (h, p)) \<in> set (visits ifs) \<longleftrightarrow> (i, name) \<in> set ifs \<and> (h, p) \<in> {(CA_TC_HANDLE, CA_TC_PRIORITY), (1, 1)}"
  by (auto simp: visits_def coordinates_def)

section \<open>Verification\<close>

text \<open>Whether the visit lets the loop go on.\<close>

definition verify_visit :: "host \<Rightarrow> filters \<Rightarrow> u32 \<Rightarrow> string list \<Rightarrow> (u32 \<times> string) \<times> (u32 \<times> u32) \<Rightarrow> bool" where
  "verify_visit H f program_id keep_names v =
     (let ((ifindex, ifname), (handle, priority)) = v in
      case ca_bpf_tc_query_program H f ifindex handle priority of
        Inl err \<Rightarrow> tc_query_absent err
      | Inr attached_id \<Rightarrow>
          attached_id \<noteq> program_id \<or>
          (handle, priority) = coordinates ! 0 \<and> keep_interface ifname keep_names)"

definition ca_bpf_tc_verify_program_interfaces :: "host \<Rightarrow> filters \<Rightarrow> u32 \<Rightarrow> string list \<Rightarrow> int" where
  "ca_bpf_tc_verify_program_interfaces H f program_id keep_names =
     (case ho_if_nameindex H of
        None \<Rightarrow> 1
      | Some interfaces \<Rightarrow> if list_all (verify_visit H f program_id keep_names) (visits interfaces) then 0 else 1)"

section \<open>Detaching\<close>

text \<open>A visit changes the filters and counts the failures.\<close>

definition detach_visit :: "host \<Rightarrow> u32 \<Rightarrow> string list \<Rightarrow> (u32 \<times> string) \<times> (u32 \<times> u32) \<Rightarrow> filters \<times> nat \<Rightarrow> filters \<times> nat" where
  "detach_visit H program_id keep_names v s =
     (let ((ifindex, ifname), (handle, priority)) = v; (f, failures) = s in
      case ca_bpf_tc_query_program H f ifindex handle priority of
        Inl err \<Rightarrow> if tc_query_absent err then s else (f, failures + 1)
      | Inr attached_id \<Rightarrow>
          if attached_id \<noteq> program_id then s
          else if handle = CA_TC_HANDLE \<and> priority = CA_TC_PRIORITY \<and> keep_interface ifname keep_names then s
          else let (err, f') = ho_tc_detach H f (ifindex, handle, priority)
               in (f', if err \<noteq> 0 \<and> err \<noteq> - ENOENT then failures + 1 else failures))"

definition detach_program_from_interfaces :: "host \<Rightarrow> u32 \<Rightarrow> string list \<Rightarrow> filters \<Rightarrow> int \<times> filters" where
  "detach_program_from_interfaces H program_id keep_names f =
     (case ho_if_nameindex H of
        None \<Rightarrow> (1, f)
      | Some interfaces \<Rightarrow>
          let (f', failures) = fold (detach_visit H program_id keep_names) (visits interfaces) (f, 0)
          in (if failures \<noteq> 0 then 1 else 0, f'))"

text \<open>The error number of a failed open is taken to survive the successful checks of the interfaces.\<close>

definition ca_bpf_tc_prune :: "host \<Rightarrow> string list \<Rightarrow> ctl \<Rightarrow> int \<times> ctl" where
  "ca_bpf_tc_prune H keep_names st =
     (if \<exists>name \<in> set keep_names. ho_if_nametoindex H name = 0 then (1, st)
      else case get_program H st of
        Inl e \<Rightarrow> (if e = ENOENT then 0 else 1, st)
      | Inr fd \<Rightarrow>
          (case ca_bpf_program_id_from_fd H fd of
             Inl _ \<Rightarrow> (1, st)
           | Inr program_id \<Rightarrow>
               let (ret, f) = detach_program_from_interfaces H program_id keep_names (cs_filters st)
               in (ret, st\<lparr>cs_filters := f\<rparr>)))"

definition ca_bpf_tc_detach_all :: "host \<Rightarrow> ctl \<Rightarrow> int \<times> ctl" where
  "ca_bpf_tc_detach_all H st = ca_bpf_tc_prune H [] st"

section \<open>Attaching and detaching one interface\<close>

definition tc_detach_action :: "host \<Rightarrow> u32 \<Rightarrow> u32 \<Rightarrow> ctl \<Rightarrow> int \<times> ctl" where
  "tc_detach_action H ifindex program_id st =
     (case ca_bpf_tc_query_program H (cs_filters st) ifindex CA_TC_HANDLE CA_TC_PRIORITY of
        Inl err \<Rightarrow> if tc_query_absent err then (0, st) else (1, st)
      | Inr attached_id \<Rightarrow>
          if attached_id \<noteq> program_id then (1, st)
          else let (err, f) = ho_tc_detach H (cs_filters st) (ifindex, CA_TC_HANDLE, CA_TC_PRIORITY)
               in (if err \<noteq> 0 \<and> err \<noteq> - ENOENT then 1 else 0, st\<lparr>cs_filters := f\<rparr>))"

definition tc_attach_action :: "host \<Rightarrow> u32 \<Rightarrow> u32 \<Rightarrow> ctl \<Rightarrow> int \<times> ctl" where
  "tc_attach_action H ifindex program_id st =
     (let err = ho_hook_create H ifindex in
      if err \<noteq> 0 \<and> err \<noteq> - EEXIST then (1, st)
      else case ca_bpf_tc_query_program H (cs_filters st) ifindex CA_TC_HANDLE CA_TC_PRIORITY of
        Inr attached_id \<Rightarrow> if attached_id = program_id then (0, st) else (1, st)
      | Inl err \<Rightarrow>
          if \<not> tc_query_absent err then (1, st)
          else let (err, f) = ho_tc_attach H (cs_filters st) (ifindex, CA_TC_HANDLE, CA_TC_PRIORITY) program_id;
                   err = (if err = - EEXIST \<and>
                             ca_bpf_tc_query_program H f ifindex CA_TC_HANDLE CA_TC_PRIORITY = Inr program_id
                          then 0 else err)
               in (if err \<noteq> 0 then 1 else 0, st\<lparr>cs_filters := f\<rparr>))"

definition ca_bpf_tc_action :: "host \<Rightarrow> string \<Rightarrow> bool \<Rightarrow> ctl \<Rightarrow> int \<times> ctl" where
  "ca_bpf_tc_action H ifname attach st =
     (let ifindex = ho_if_nametoindex H ifname in
      if ifindex = 0 then (1, st)
      else case get_program H st of
        Inl _ \<Rightarrow> (1, st)
      | Inr fd \<Rightarrow>
          (case ca_bpf_program_id_from_fd H fd of
             Inl _ \<Rightarrow> (1, st)
           | Inr program_id \<Rightarrow>
               if \<not> attach then tc_detach_action H ifindex program_id st
               else tc_attach_action H ifindex program_id st))"

section \<open>Foreign filters\<close>

text \<open>
  The contract of everything that touches filters: a coordinate changes only from free to our program
  or from our program to free.
\<close>

definition spares :: "u32 \<Rightarrow> filters \<Rightarrow> filters \<Rightarrow> bool" where
  "spares own f f' \<longleftrightarrow> (\<forall>c. f' c \<noteq> f c \<longrightarrow> f c \<in> {None, Some own} \<and> f' c \<in> {None, Some own})"

lemma spares_refl [simp]: "spares own f f"
  by (simp add: spares_def)

lemma spares_trans: "spares own f g \<Longrightarrow> spares own g h \<Longrightarrow> spares own f h"
  unfolding spares_def by metis

lemma spares_upd: "f c \<in> {None, Some own} \<Longrightarrow> x \<in> {None, Some own} \<Longrightarrow> spares own f (f(c := x))"
  unfolding spares_def by (metis fun_upd_other fun_upd_same)

lemma spares_foreign:
  assumes "spares own f f'" and "f c = Some p" and "p \<noteq> own"
  shows "f' c = Some p"
proof (rule ccontr)
  assume "f' c \<noteq> Some p"
  with assms(1,2) have "f c \<in> {None, Some own}" unfolding spares_def by metis
  with assms(2,3) show False by simp
qed

lemma query_law:
  "tc_ok H \<Longrightarrow> case ho_tc_query H f c of Inr p \<Rightarrow> f c = Some p
     | Inl e \<Rightarrow> e \<noteq> 0 \<and> (e = - ENOENT \<or> e = - EINVAL \<longrightarrow> f c = None)"
  unfolding tc_ok_def by blast

lemma detach_law:
  "tc_ok H \<Longrightarrow> (fst (ho_tc_detach H f c) = 0 \<longrightarrow> snd (ho_tc_detach H f c) = f(c := None)) \<and>
     (fst (ho_tc_detach H f c) \<noteq> 0 \<longrightarrow> snd (ho_tc_detach H f c) = f) \<and>
     (fst (ho_tc_detach H f c) = - ENOENT \<longrightarrow> f c = None)"
  unfolding tc_ok_def by blast

lemma attach_law:
  "tc_ok H \<Longrightarrow> (fst (ho_tc_attach H f c p) = 0 \<longrightarrow> f c = None \<and> snd (ho_tc_attach H f c p) = f(c \<mapsto> p)) \<and>
     (fst (ho_tc_attach H f c p) \<noteq> 0 \<longrightarrow> snd (ho_tc_attach H f c p) = f)"
  unfolding tc_ok_def by blast

lemma query_Inr: "tc_ok H \<Longrightarrow> ca_bpf_tc_query_program H f i h p = Inr q \<Longrightarrow> f (i, h, p) = Some q"
  using query_law [of H f "(i, h, p)"] by (simp add: ca_bpf_tc_query_program_def)

lemma query_Inl:
  "tc_ok H \<Longrightarrow> ca_bpf_tc_query_program H f i h p = Inl e \<Longrightarrow> tc_query_absent e \<Longrightarrow> f (i, h, p) = None"
  using query_law [of H f "(i, h, p)"] by (simp add: ca_bpf_tc_query_program_def tc_query_absent_def)

lemma detach_cases:
  "tc_ok H \<Longrightarrow> snd (ho_tc_detach H f c) = (if fst (ho_tc_detach H f c) = 0 then f(c := None) else f)"
  using detach_law [of H f c] by simp

lemma detach_ENOENT: "tc_ok H \<Longrightarrow> fst (ho_tc_detach H f c) = - ENOENT \<Longrightarrow> f c = None"
  using detach_law [of H f c] by simp

lemma attach_cases:
  "tc_ok H \<Longrightarrow> fst (ho_tc_attach H f c p) = 0 \<and> f c = None \<and> snd (ho_tc_attach H f c p) = f(c \<mapsto> p) \<or>
    fst (ho_tc_attach H f c p) \<noteq> 0 \<and> snd (ho_tc_attach H f c p) = f"
  using attach_law [of H f c p] by blast

lemma program_id: "ca_bpf_program_id_from_fd H p = Inr q \<Longrightarrow> q = p"
  by (simp add: ca_bpf_program_id_from_fd_def split: if_splits)

text \<open>
  A visit of the detach loop: the failure count never falls, and when it does not rise no filter of
  ours stays at the coordinate, unless the interface is kept.
\<close>

definition kept :: "string list \<Rightarrow> (u32 \<times> string) \<times> (u32 \<times> u32) \<Rightarrow> bool" where
  "kept keep_names v \<longleftrightarrow> snd v = (CA_TC_HANDLE, CA_TC_PRIORITY) \<and> keep_interface (snd (fst v)) keep_names"

definition place :: "(u32 \<times> string) \<times> (u32 \<times> u32) \<Rightarrow> coord" where
  "place v = (fst (fst v), snd v)"

lemma detach_visit_spec:
  assumes ok: "tc_ok H" and run: "detach_visit H own keep v (f, n) = (f', n')"
  shows "(f' = f \<or> f (place v) = Some own \<and> \<not> kept keep v \<and> f' = f(place v := None)) \<and> n \<le> n' \<and>
    (n' = n \<and> \<not> kept keep v \<longrightarrow> f' (place v) \<noteq> Some own)"
proof -
  obtain i name h p where v: "v = ((i, name), (h, p))" by (metis prod.exhaust)
  show ?thesis
  proof (cases "ca_bpf_tc_query_program H f i h p")
    case (Inl e)
    then show ?thesis
      using run query_Inl [OF ok Inl] by (auto simp: detach_visit_def v place_def kept_def split: if_splits)
  next
    case (Inr q)
    have q: "f (i, h, p) = Some q" by (rule query_Inr [OF ok Inr])
    consider "q \<noteq> own" | "q = own" "kept keep v" | "q = own" "\<not> kept keep v" by blast
    then show ?thesis
    proof cases
      case 3
      let ?d = "ho_tc_detach H f (i, h, p)"
      have d: "f' = snd ?d" "n' = (if fst ?d \<noteq> 0 \<and> fst ?d \<noteq> - ENOENT then n + 1 else n)"
        using run Inr 3 by (auto simp: detach_visit_def v kept_def split_beta)
      have "fst ?d \<noteq> - ENOENT" using detach_ENOENT [OF ok] q by fastforce
      then show ?thesis
        using d detach_cases [OF ok, of f "(i, h, p)"] q 3 by (auto simp: place_def v)
    qed (use run Inr q in \<open>auto simp: detach_visit_def v kept_def place_def\<close>)
  qed
qed

lemma detach_fold_spec:
  assumes ok: "tc_ok H"
  shows "fold (detach_visit H own keep) vs (f, n) = (f', n') \<Longrightarrow>
    spares own f f' \<and> n \<le> n' \<and> (\<forall>c. f' c \<noteq> f c \<longrightarrow> f' c = None \<and> c \<in> place ` {v \<in> set vs. \<not> kept keep v}) \<and>
    (n' = n \<longrightarrow> (\<forall>v \<in> set vs. \<not> kept keep v \<longrightarrow> f' (place v) \<noteq> Some own))"
proof (induction vs arbitrary: f n)
  case Nil
  then show ?case by simp
next
  case (Cons v vs)
  obtain f1 n1 where s: "detach_visit H own keep v (f, n) = (f1, n1)" by fastforce
  with Cons.prems have "fold (detach_visit H own keep) vs (f1, n1) = (f', n')" by simp
  note IH = Cons.IH [OF this] and visit = detach_visit_spec [OF ok s]
  have step: "spares own f f1" using visit spares_upd [of f "place v" own None] by auto
  have shrink: "f1 c \<noteq> Some own \<Longrightarrow> f' c \<noteq> Some own" for c using IH by (metis option.distinct(1))
  have chg1: "f1 c = None \<and> c = place v \<and> \<not> kept keep v" if "f1 c \<noteq> f c" for c
    using that visit by (cases "c = place v") auto
  have chg2: "f' c = None \<and> c \<in> place ` {w \<in> set vs. \<not> kept keep w}" if "f' c \<noteq> f1 c" for c
    using that IH by blast
  have "spares own f f'" using spares_trans [OF step] IH by blast
  moreover have "n \<le> n'" using visit IH by simp
  moreover have "f' c = None \<and> c \<in> place ` {w \<in> set (v # vs). \<not> kept keep w}" if c: "f' c \<noteq> f c" for c
  proof (cases "f' c = f1 c")
    case True
    with c chg1 [of c] show ?thesis by auto
  next
    case False
    from chg2 [OF this] show ?thesis by auto
  qed
  moreover have "f' (place w) \<noteq> Some own" if "n' = n" "w \<in> set (v # vs)" "\<not> kept keep w" for w
  proof -
    have "n1 = n" "n' = n1" using that(1) visit IH by auto
    then have "f1 (place v) \<noteq> Some own" if "\<not> kept keep v" using visit that by simp
    with shrink [of "place v"] \<open>n' = n1\<close> IH that(2,3) show ?thesis by (cases "w = v") simp_all
  qed
  ultimately show ?case by blast
qed

text \<open>A prune: whose filters it touches, and what is left after a success.\<close>

lemma prune_spec:
  assumes ok: "tc_ok H" and run: "ca_bpf_tc_prune H keep st = (ret, st')"
  shows "(\<exists>f. st' = st\<lparr>cs_filters := f\<rparr>) \<and>
    (case cs_program st of None \<Rightarrow> st' = st | Some own \<Rightarrow> spares own (cs_filters st) (cs_filters st')) \<and>
    (ret = 0 \<longrightarrow> (\<forall>own. get_program H st = Inr own \<longrightarrow>
      (\<exists>ifs. ho_if_nameindex H = Some ifs \<and>
        (\<forall>v \<in> set (visits ifs). \<not> kept keep v \<longrightarrow> cs_filters st' (place v) \<noteq> Some own))))"
proof -
  have same: "\<exists>f. st = st\<lparr>cs_filters := f\<rparr>" by (rule exI [of _ "cs_filters st"]) simp
  show ?thesis
  proof (cases "(\<exists>name \<in> set keep. ho_if_nametoindex H name = 0) \<or> (\<exists>e. get_program H st = Inl e)")
    case True
    then have "st' = st" "ret = 0 \<Longrightarrow> \<exists>e. get_program H st = Inl e"
      using run by (auto simp: ca_bpf_tc_prune_def split: if_splits)
    with same show ?thesis by (auto split: option.split)
  next
    case False
    then obtain own where p: "get_program H st = Inr own" by (cases "get_program H st") auto
    have cs: "cs_program st = Some own" by (rule get_program_Inr [OF p])
    show ?thesis
    proof (cases "ca_bpf_program_id_from_fd H own")
      case (Inl e)
      then have "st' = st" "ret = 1" using run False p by (simp_all add: ca_bpf_tc_prune_def)
      with same cs show ?thesis by simp
    next
      case (Inr q)
      then have q: "q = own" by (rule program_id)
      obtain r f where d: "detach_program_from_interfaces H own keep (cs_filters st) = (r, f)" by fastforce
      have st': "st' = st\<lparr>cs_filters := f\<rparr>" "ret = r"
        using run False p Inr q d by (simp_all add: ca_bpf_tc_prune_def)
      have "spares own (cs_filters st) f \<and> (r = 0 \<longrightarrow> (\<exists>ifs. ho_if_nameindex H = Some ifs \<and>
          (\<forall>v \<in> set (visits ifs). \<not> kept keep v \<longrightarrow> f (place v) \<noteq> Some own)))"
      proof (cases "ho_if_nameindex H")
        case None
        with d show ?thesis by (simp add: detach_program_from_interfaces_def)
      next
        case (Some ifs)
        obtain f' n where fl: "fold (detach_visit H own keep) (visits ifs) (cs_filters st, 0) = (f', n)" by fastforce
        with Some d have "f = f'" "r = (if n \<noteq> 0 then 1 else 0)" by (auto simp: detach_program_from_interfaces_def)
        with detach_fold_spec [OF ok fl] Some show ?thesis by auto
      qed
      with st' cs p show ?thesis by auto
    qed
  qed
qed

lemma action_spec:
  assumes ok: "tc_ok H" and run: "ca_bpf_tc_action H ifname attach st = (ret, st')"
  shows "(\<exists>f. st' = st\<lparr>cs_filters := f\<rparr>) \<and>
    (case cs_program st of None \<Rightarrow> st' = st \<and> ret = 1 | Some own \<Rightarrow> spares own (cs_filters st) (cs_filters st') \<and>
      (ret = 0 \<longrightarrow> cs_filters st' (ho_if_nametoindex H ifname, CA_TC_HANDLE, CA_TC_PRIORITY) =
         (if attach then Some own else None)))"
proof -
  let ?i = "ho_if_nametoindex H ifname" and ?f = "cs_filters st"
  let ?c = "(?i, CA_TC_HANDLE, CA_TC_PRIORITY)"
  have same: "\<exists>f. st = st\<lparr>cs_filters := f\<rparr>" by (rule exI [of _ ?f]) simp
  show ?thesis
  proof (cases "?i = 0 \<or> (\<exists>e. get_program H st = Inl e) \<or> (\<exists>p e. get_program H st = Inr p \<and> ca_bpf_program_id_from_fd H p = Inl e)")
    case True
    then have "st' = st" "ret = 1" using run by (auto simp: ca_bpf_tc_action_def Let_def split: sum.splits if_splits)
    with same show ?thesis by (auto split: option.split)
  next
    case False
    then obtain own where p: "get_program H st = Inr own" "ca_bpf_program_id_from_fd H own = Inr own"
      using program_id by (metis sum.exhaust)
    have cs: "cs_program st = Some own" by (rule get_program_Inr [OF p(1)])
    have act: "(ret, st') = (if \<not> attach then tc_detach_action H ?i own st else tc_attach_action H ?i own st)"
      using run False p by (simp add: ca_bpf_tc_action_def Let_def)
    show ?thesis
    proof (cases "ca_bpf_tc_query_program H ?f ?i CA_TC_HANDLE CA_TC_PRIORITY")
      case (Inr q)
      have q: "?f ?c = Some q" by (rule query_Inr [OF ok Inr])
      let ?d = "ho_tc_detach H ?f ?c"
      have "st' = st \<and> (ret = 0 \<longrightarrow> attach \<and> q = own) \<or>
          \<not> attach \<and> q = own \<and> st' = st\<lparr>cs_filters := snd ?d\<rparr> \<and> (ret = 0 \<longrightarrow> fst ?d = 0 \<or> fst ?d = - ENOENT)"
        using act Inr by (auto simp: tc_detach_action_def tc_attach_action_def Let_def split_beta split: if_splits)
      then show ?thesis
        using same cs q detach_cases [OF ok, of ?f ?c] detach_ENOENT [OF ok, of ?f ?c] spares_upd [of ?f ?c own None]
        by auto
    next
      case (Inl e)
      let ?a = "ho_tc_attach H ?f ?c own"
      have none: "tc_query_absent e \<Longrightarrow> ?f ?c = None" by (rule query_Inl [OF ok Inl])
      have "st' = st \<and> (ret = 0 \<longrightarrow> \<not> attach \<and> tc_query_absent e) \<or>
          attach \<and> tc_query_absent e \<and> st' = st\<lparr>cs_filters := snd ?a\<rparr> \<and>
          (ret = 0 \<longrightarrow> fst ?a = 0 \<or> ca_bpf_tc_query_program H (snd ?a) ?i CA_TC_HANDLE CA_TC_PRIORITY = Inr own)"
        using act Inl by (auto simp: tc_detach_action_def tc_attach_action_def Let_def split_beta split: if_splits)
      then show ?thesis
        using same cs none attach_cases [OF ok, of ?f ?c own] query_Inr [OF ok, of "snd ?a" ?i]
          spares_upd [of ?f ?c own "Some own"]
        by auto
    qed
  qed
qed

end
