(* ===== verification/Runtime.thy ===== *)
theory Runtime
  imports Host Libc
begin

text \<open>
  \<^verbatim>\<open>src/bpf-runtime.c\<close>: disabling the datapath, printing the generations, and expiring idle
  flows.  A command gives its exit code, its standard output and the maps it leaves.
\<close>

section \<open>disable\<close>

definition ca_bpf_backend_disable_unlocked :: "sys \<Rightarrow> ca_maps \<Rightarrow> int \<times> ca_maps" where
  "ca_bpf_backend_disable_unlocked S m =
     (if ca_bpf_open_map S ''ca_config'' \<noteq> 0
      then (if ca_bpf_open_map S ''ca_config'' = ENOENT then 0 else 1, m)
      else case ca_bpf_lookup_config S m of
        Inl e \<Rightarrow> (if e \<noteq> ENOENT then 1 else 0, m)
      | Inr config \<Rightarrow>
          let (e, x) = mo_update (sy_config S) (m_config m) 0 (config\<lparr>cfg_enabled := 0\<rparr>) BPF_ANY
          in (if e \<noteq> 0 then 1 else 0, m\<lparr>m_config := x\<rparr>))"

definition ca_bpf_backend_disable :: "sys \<Rightarrow> ca_maps \<Rightarrow> int \<times> ca_maps" where
  "ca_bpf_backend_disable S m =
     (if \<not> ca_bpf_update_lock S then (1, m) else ca_bpf_backend_disable_unlocked S m)"

section \<open>generations\<close>

definition ca_bpf_print_generations :: "sys \<Rightarrow> ca_maps \<Rightarrow> int \<times> string" where
  "ca_bpf_print_generations S m =
     (if ca_bpf_open_map S ''ca_config'' \<noteq> 0 then (1, [])
      else case ca_bpf_lookup_config S m of
        Inl e \<Rightarrow> (1, [])
      | Inr config \<Rightarrow> (0, dec (unat (cfg_app_policy_generation config)) @ '' '' @
                           dec (unat (cfg_classifier_generation config)) @ [NL]))"

section \<open>gc\<close>

definition idle_cutoff :: "u64 \<times> u64 \<Rightarrow> u64 \<Rightarrow> u64" where
  "idle_cutoff now idle_seconds =
     (let cutoff = fst now * 1000000000 + snd now
      in if cutoff > idle_seconds * 1000000000 then cutoff - idle_seconds * 1000000000 else 0)"

text \<open>A visit: the map and the number of flows removed.\<close>

definition gc_visit :: "sys \<Rightarrow> u64 \<Rightarrow> ca_flow_key \<Rightarrow> (ca_flow_key \<rightharpoonup> ca_flow_state) \<times> nat \<Rightarrow>
    ((ca_flow_key \<rightharpoonup> ca_flow_state) \<times> nat) \<times> bool" where
  "gc_visit S cutoff key s =
     (let (m, removed) = s in
      case m key of
        None \<Rightarrow> (s, False)
      | Some state \<Rightarrow>
          if fs_last_seen_ns state < cutoff
          then let (e, m') = mo_delete (sy_flows S) m key in ((m', if e = 0 then removed + 1 else removed), False)
          else (s, False))"

definition ca_bpf_gc_flows :: "sys \<Rightarrow> (u64 \<times> u64) option \<Rightarrow> u64 \<Rightarrow> ca_maps \<Rightarrow> (int \<times> string \<times> ca_maps) option" where
  "ca_bpf_gc_flows S clock idle_seconds m =
     (if ca_bpf_open_map S ''ca_flows'' \<noteq> 0 then Some (1, [], m)
      else case clock of
        None \<Rightarrow> Some (1, [], m)
      | Some now \<Rightarrow> do {
          (fl, removed) \<leftarrow>
            (case mo_next_key (sy_flows S) (m_flows m) None of
               Inl e \<Rightarrow> Some (m_flows m, 0)
             | Inr key \<Rightarrow> each_key (\<lambda>s k. mo_next_key (sy_flows S) (fst s) (Some k))
                 (gc_visit S (idle_cutoff now idle_seconds)) key (m_flows m, 0));
          Some (0, ''{'' @ [CHR 0x22] @ ''removed'' @ [CHR 0x22] @ '':'' @ dec removed @ ''}'' @ [NL],
                m\<lparr>m_flows := fl\<rparr>)
        })"

text \<open>Deletes of keys that are there succeed.\<close>

definition deletes_work :: "('k, 'v) map_ops \<Rightarrow> bool" where
  "deletes_work ops \<longleftrightarrow> map_delete_ok ops \<and> (\<forall>m k. m k \<noteq> None \<longrightarrow> fst (mo_delete ops m k) = 0)"

definition keep_recent :: "u64 \<Rightarrow> (ca_flow_key \<rightharpoonup> ca_flow_state) \<Rightarrow> (ca_flow_key \<rightharpoonup> ca_flow_state)" where
  "keep_recent cutoff m = (\<lambda>k. case m k of None \<Rightarrow> None
     | Some state \<Rightarrow> if fs_last_seen_ns state < cutoff then None else Some state)"

definition stale :: "u64 \<Rightarrow> (ca_flow_key \<rightharpoonup> ca_flow_state) \<Rightarrow> ca_flow_key \<Rightarrow> bool" where
  "stale cutoff m k \<longleftrightarrow> (\<exists>state. m k = Some state \<and> fs_last_seen_ns state < cutoff)"

lemma gc_visit_eq:
  assumes "deletes_work (sy_flows S)"
  shows "gc_visit S cutoff k (m, n) = ((if stale cutoff m k then (m(k := None), n + 1) else (m, n)), False)"
proof (cases "stale cutoff m k")
  case True
  then obtain state where s: "m k = Some state" "fs_last_seen_ns state < cutoff" by (auto simp: stale_def)
  then have "mo_delete (sy_flows S) m k = (0, m(k := None))"
    using assms unfolding deletes_work_def map_delete_ok_def by (metis option.distinct(1) prod.collapse)
  with True s show ?thesis by (simp add: gc_visit_def)
qed (auto simp: gc_visit_def stale_def split: option.split)

lemma gc_fold:
  assumes "deletes_work (sy_flows S)" and "distinct ks"
  shows "walk_fold (gc_visit S cutoff) ks (m, n) =
    ((\<lambda>k. if k \<in> set ks \<and> stale cutoff m k then None else m k), n + length (filter (stale cutoff m) ks))"
  using assms(2)
proof (induction ks arbitrary: m n)
  case Nil
  then show ?case by simp
next
  case (Cons k ks)
  have other: "stale cutoff (m(k := None)) x = stale cutoff m x" if "x \<noteq> k" for x
    using that by (simp add: stale_def)
  have "filter (stale cutoff (m(k := None))) ks = filter (stale cutoff m) ks"
  proof (rule filter_cong [OF refl])
    fix x assume "x \<in> set ks"
    then have "x \<noteq> k" using Cons.prems by auto
    then show "stale cutoff (m(k := None)) x = stale cutoff m x" by (rule other)
  qed
  with Cons show ?case
    by (cases "stale cutoff m k") (auto simp: gc_visit_eq [OF assms(1)] fun_eq_iff other)
qed

lemma gc_run:
  fixes now idle
  assumes walk: "walk_ok (sy_flows S) ks" "dom (m_flows m) \<subseteq> set ks" and del: "deletes_work (sy_flows S)"
    and opened: "ca_bpf_open_map S ''ca_flows'' = 0" and clock: "clock = Some now"
  defines "cutoff \<equiv> idle_cutoff now idle"
  shows "ca_bpf_gc_flows S clock idle m = Some (0,
    ''{'' @ [CHR 0x22] @ ''removed'' @ [CHR 0x22] @ '':'' @ dec (card {k. stale cutoff (m_flows m) k}) @ ''}'' @ [NL],
    m\<lparr>m_flows := keep_recent cutoff (m_flows m)\<rparr>)"
proof -
  let ?ps = "present (m_flows m) ks" and ?s = "stale cutoff (m_flows m)"
  have dist: "distinct ?ps" using walk(1) by (simp add: walk_ok_def)
  have set: "set ?ps = dom (m_flows m)" by (rule set_present_keys [OF walk(2)])
  have "x \<in> set ?ps" if "?s x" for x unfolding set using that by (auto simp: stale_def)
  then have "{k. ?s k} = set (filter ?s ?ps)" unfolding set_filter [of ?s ?ps] by blast
  then have card: "card {k. ?s k} = length (filter ?s ?ps)"
    using dist by (simp only: distinct_card [OF distinct_filter])
  have keep: "keep_recent cutoff (m_flows m) = (\<lambda>k. if k \<in> set ?ps \<and> ?s k then None else m_flows m k)"
    unfolding set by (auto simp: keep_recent_def stale_def fun_eq_iff split: option.split)
  show ?thesis
  proof (cases ?ps)
    case Nil
    then have "mo_next_key (sy_flows S) (m_flows m) None = Inl ENOENT" using walk_first [OF walk] by simp
    moreover have "keep_recent cutoff (m_flows m) = m_flows m" "card {k. ?s k} = 0"
      unfolding keep card Nil by simp_all
    ultimately show ?thesis using opened clock by (simp add: ca_bpf_gc_flows_def)
  next
    case (Cons k post)
    have pre: "?ps = [] @ k # post" using Cons by (simp only: append_Nil)
    have keeps: "fst (fst (gc_visit S cutoff k s)) = fst s \<or> fst (fst (gc_visit S cutoff k s)) = (fst s)(k := None)" for k s
      by (cases s) (simp add: gc_visit_eq [OF del])
    have dom: "dom (fst (m_flows m, 0 :: nat)) \<subseteq> set ks" using walk(2) by simp
    have "each_key (\<lambda>s k. mo_next_key (sy_flows S) (fst s) (Some k)) (gc_visit S cutoff) k (m_flows m, 0) =
        Some (walk_fold (gc_visit S cutoff) (k # post) (m_flows m, 0))"
      by (rule each_key_fold [where get = fst, OF walk(1) keeps dom]) (simp only: fst_conv pre)
    also have "\<dots> = Some (walk_fold (gc_visit S cutoff) ?ps (m_flows m, 0))" unfolding Cons ..
    also have "\<dots> = Some (keep_recent cutoff (m_flows m), card {k. ?s k})"
      unfolding gc_fold [OF del dist] keep card by simp
    finally have "each_key (\<lambda>s k. mo_next_key (sy_flows S) (fst s) (Some k)) (gc_visit S cutoff) k (m_flows m, 0) =
        Some (keep_recent cutoff (m_flows m), card {k. ?s k})" .
    moreover have "mo_next_key (sy_flows S) (m_flows m) None = Inr k" using walk_first [OF walk] Cons by simp
    ultimately show ?thesis using opened clock by (simp add: ca_bpf_gc_flows_def cutoff_def)
  qed
qed

text \<open>
  C37 gc_removes_idle: expiry removes exactly the flows not seen since the cutoff, leaves every other
  entry and every other map as it is, and prints how many it removed.
\<close>

theorem gc_removes_idle:
  assumes "walk_ok (sy_flows S) ks" and "dom (m_flows m) \<subseteq> set ks" and "deletes_work (sy_flows S)"
    and "ca_bpf_open_map S ''ca_flows'' = 0"
  shows "ca_bpf_gc_flows S (Some now) idle m = Some (0,
    ''{'' @ [CHR 0x22] @ ''removed'' @ [CHR 0x22] @ '':'' @
      dec (card {k. stale (idle_cutoff now idle) (m_flows m) k}) @ ''}'' @ [NL],
    m\<lparr>m_flows := keep_recent (idle_cutoff now idle) (m_flows m)\<rparr>)"
  by (rule gc_run [OF assms refl])

end
