(* ===== verification/Object.thy ===== *)
theory Object
  imports Tc Runtime
begin

text \<open>
  \<^verbatim>\<open>src/bpf-object.c\<close>: the pinned object, its 17 maps and its program: whether it can be
  used, removing the pins, and loading a new object in its place.  The libbpf calls are parameters; the
  limit on locked memory is not modelled.
\<close>

section \<open>Availability\<close>

definition map_names :: "string list" where
  "map_names = [''ca_config'', ''ca_mark_schema'', ''ca_subject_a'', ''ca_subject_b'', ''ca_policy_a'',
     ''ca_policy_b'', ''ca_port_a'', ''ca_port_b'', ''ca_ipv4_a'', ''ca_ipv4_b'',
     ''ca_ipv6_a'', ''ca_ipv6_b'', ''ca_flows'',
     ''ca_global_rate'', ''ca_subject_rates'', ''ca_runtime'', ''ca_stats'']"

definition ca_bpf_object_available :: "host \<Rightarrow> sys \<Rightarrow> ctl \<Rightarrow> bool" where
  "ca_bpf_object_available H S st =
     (case get_program H st of
        Inl _ \<Rightarrow> False
      | Inr _ \<Rightarrow>
          if ca_bpf_open_map (sys_at H S st) ''ca_mark_schema'' \<noteq> 0 then False
          else case ho_schema_lookup H (m_mark_schema (cs_maps st)) of
            Inl _ \<Rightarrow> False
          | Inr schema \<Rightarrow>
              if schema \<noteq> CA_BPF_SCHEMA_VERSION then False
              else list_all (\<lambda>name. ca_bpf_open_map (sys_at H S st) name = 0) map_names)"

section \<open>Removing the pins\<close>

text \<open>The result of \<^verbatim>\<open>unlink\<close> is ignored: a pin that cannot be removed stays.\<close>

definition unlink_program :: "host \<Rightarrow> ctl \<Rightarrow> ctl" where
  "unlink_program H st = (if ho_unlink H CA_PROGRAM_PIN = 0 then st\<lparr>cs_program := None\<rparr> else st)"

definition unlink_map :: "host \<Rightarrow> string \<Rightarrow> ctl \<Rightarrow> ctl" where
  "unlink_map H name st =
     (case ca_bpf_pin_path PATH_MAX name of
        None \<Rightarrow> st
      | Some path \<Rightarrow> if ho_unlink H path = 0 then st\<lparr>cs_pins := cs_pins st - {path}\<rparr> else st)"

definition ca_bpf_object_unlink :: "host \<Rightarrow> ctl \<Rightarrow> ctl" where
  "ca_bpf_object_unlink H st = fold (unlink_map H) map_names (unlink_program H st)"

section \<open>Loading\<close>

definition ensure_pin_root :: "host \<Rightarrow> int" where
  "ensure_pin_root H = (if ho_mkdir H = 0 \<or> ho_mkdir H = EEXIST then 0 else -1)"

text \<open>From the point where nothing of the old object is left.\<close>

definition load_object :: "host \<Rightarrow> string \<Rightarrow> ctl \<Rightarrow> int \<times> ctl" where
  "load_object H path st =
     (if ho_open_file H path \<noteq> 0 then (1, st)
      else if \<not> ho_find_program H path then (1, st)
      else let (err, maps, pins) = ho_load H path (cs_maps st) (cs_pins st);
               st1 = st\<lparr>cs_maps := maps, cs_pins := pins\<rparr> in
        if err \<noteq> 0 then (1, st1)
        else if \<not> ho_find_schema H path then (1, ca_bpf_object_unlink H st1)
        else let (err, schema) = ho_schema_update H (m_mark_schema maps) CA_BPF_SCHEMA_VERSION;
                 st2 = st1\<lparr>cs_maps := maps\<lparr>m_mark_schema := schema\<rparr>\<rparr> in
          if err \<noteq> 0 then (1, ca_bpf_object_unlink H st2)
          else let st3 = unlink_program H st2 in
            if ho_pin_program H path \<noteq> 0 then (1, ca_bpf_object_unlink H st3)
            else (0, st3\<lparr>cs_program := Some (ho_new_id H path)\<rparr>))"

definition ca_bpf_object_load :: "host \<Rightarrow> sys \<Rightarrow> string \<Rightarrow> bool \<Rightarrow> ctl \<Rightarrow> int \<times> ctl" where
  "ca_bpf_object_load H S path replace st =
     (let available = ca_bpf_object_available H S st in
      if \<not> replace \<and> available then (0, st)
      else if ensure_pin_root H \<noteq> 0 then (1, st)
      else let (ret, st1) = ca_bpf_tc_detach_all H st in
        if ret \<noteq> 0 then (1, st1)
        else load_object H path (ca_bpf_object_unlink H st1))"

lemma unlink_filters [simp]:
  "cs_filters (unlink_program H st) = cs_filters st" "cs_filters (unlink_map H name st) = cs_filters st"
  by (simp_all add: unlink_program_def unlink_map_def split: option.split)

lemma object_unlink_filters [simp]: "cs_filters (ca_bpf_object_unlink H st) = cs_filters st"
proof -
  have "cs_filters (fold (unlink_map H) names st) = cs_filters st" for names st
    by (induction names arbitrary: st) simp_all
  then show ?thesis by (simp add: ca_bpf_object_unlink_def)
qed

lemma load_object_filters [simp]: "cs_filters (snd (load_object H path st)) = cs_filters st"
  by (simp add: load_object_def Let_def split_beta)

lemma unlink_maps [simp]: "cs_maps (ca_bpf_object_unlink H st) = cs_maps st"
proof -
  have "cs_maps (fold (unlink_map H) names st) = cs_maps st" for names st
    by (induction names arbitrary: st) (simp_all add: unlink_map_def split: option.split)
  then show ?thesis by (simp add: ca_bpf_object_unlink_def unlink_program_def)
qed

lemma load_object_success:
  assumes "pins_ok H" and "load_object H path st = (0, st')"
  shows "cs_program st' = Some (ho_new_id H path) \<and> m_mark_schema (cs_maps st') 0 = Some CA_BPF_SCHEMA_VERSION"
proof -
  obtain err maps pins where l: "ho_load H path (cs_maps st) (cs_pins st) = (err, maps, pins)" by (metis prod.exhaust)
  obtain e schema where u: "ho_schema_update H (m_mark_schema maps) CA_BPF_SCHEMA_VERSION = (e, schema)" by fastforce
  have "e = 0" "cs_program st' = Some (ho_new_id H path)" "m_mark_schema (cs_maps st') = schema"
    using assms(2) l u by (auto simp: load_object_def Let_def unlink_program_def split: if_splits)
  moreover have "schema 0 = Some CA_BPF_SCHEMA_VERSION" if "e = 0"
    using assms(1) u that unfolding pins_ok_def by (metis fst_conv fun_upd_same snd_conv)
  ultimately show ?thesis by simp
qed

text \<open>Loading never touches a foreign filter, and succeeds only when no filter of the old program stays.\<close>

lemma load_spares:
  assumes ok: "tc_ok H" and run: "ca_bpf_object_load H S path replace st = (ret, st')"
  shows "case cs_program st of None \<Rightarrow> cs_filters st' = cs_filters st
    | Some own \<Rightarrow> spares own (cs_filters st) (cs_filters st')"
proof -
  obtain r st1 where p: "ca_bpf_tc_prune H [] st = (r, st1)" by fastforce
  have "cs_filters st' = cs_filters st \<or> cs_filters st' = cs_filters st1"
    using run p load_object_filters [of H path "ca_bpf_object_unlink H st1"]
    by (auto simp: ca_bpf_object_load_def ca_bpf_tc_detach_all_def Let_def split: if_splits simp del: load_object_filters)
  with prune_spec [OF ok p] show ?thesis by (auto split: option.splits)
qed

text \<open>
  C26 load_replaces_cleanly: when \<^verbatim>\<open>load\<close>, or \<^verbatim>\<open>ensure\<close> on an unusable object, succeeds,
  the new program is pinned, the schema word of its maps is the current one, and no interface has a
  filter of the program that was pinned before, at either coordinate; filters of others are untouched.
\<close>

theorem load_replaces_cleanly:
  assumes ok: "host_ok H" and run: "ca_bpf_object_load H S path replace st = (0, st')"
    and fresh: "replace \<or> \<not> ca_bpf_object_available H S st" and old: "get_program H st = Inr own"
  shows "cs_program st' = Some (ho_new_id H path) \<and>
    m_mark_schema (cs_maps st') 0 = Some CA_BPF_SCHEMA_VERSION \<and> spares own (cs_filters st) (cs_filters st') \<and>
    (\<exists>ifs. ho_if_nameindex H = Some ifs \<and>
      (\<forall>(i, name) \<in> set ifs. cs_filters st' (i, CA_TC_HANDLE, CA_TC_PRIORITY) \<noteq> Some own \<and>
        cs_filters st' (i, 1, 1) \<noteq> Some own))"
proof -
  have tc: "tc_ok H" and pins: "pins_ok H" using ok by (simp_all add: host_ok_def)
  obtain r st1 where p: "ca_bpf_tc_prune H [] st = (r, st1)" by fastforce
  have load: "r = 0" "load_object H path (ca_bpf_object_unlink H st1) = (0, st')"
    using run fresh p by (auto simp: ca_bpf_object_load_def ca_bpf_tc_detach_all_def Let_def split: if_splits)
  then have fl: "cs_filters st' = cs_filters st1"
    using load_object_filters [of H path "ca_bpf_object_unlink H st1"] by (simp del: load_object_filters)
  obtain ifs where ifs: "ho_if_nameindex H = Some ifs"
    "\<forall>v \<in> set (visits ifs). cs_filters st1 (place v) \<noteq> Some own"
    using prune_spec [OF tc p] load(1) old by (auto simp: kept_def keep_interface_def)
  have "cs_filters st' (i, CA_TC_HANDLE, CA_TC_PRIORITY) \<noteq> Some own \<and> cs_filters st' (i, 1, 1) \<noteq> Some own"
    if "(i, name) \<in> set ifs" for i name
  proof -
    have "((i, name), (CA_TC_HANDLE, CA_TC_PRIORITY)) \<in> set (visits ifs)" "((i, name), (1, 1)) \<in> set (visits ifs)"
      unfolding visits_set using that by simp_all
    from this [THEN bspec [OF ifs(2)]] show ?thesis by (simp add: fl place_def)
  qed
  moreover have "spares own (cs_filters st) (cs_filters st')"
    using load_spares [OF tc run] get_program_Inr [OF old] by simp
  ultimately show ?thesis using load_object_success [OF pins load(2)] ifs(1) by blast
qed

end
