(* ===== verification/Health.thy ===== *)
theory Health
  imports Object Snapshot_Sync
begin

text \<open>
  \<^verbatim>\<open>src/bpf-health.c\<close>: whether the datapath enforces the generations the caller expects on
  the interfaces it expects, and the status line.
\<close>

section \<open>Verifying\<close>

text \<open>The loop over the interfaces of \<^verbatim>\<open>health\<close>: each must be known and have our filter.\<close>

definition interface_healthy :: "host \<Rightarrow> filters \<Rightarrow> u32 \<Rightarrow> string \<Rightarrow> bool" where
  "interface_healthy H f program_id name =
     (let ifindex = ho_if_nametoindex H name in
      if ifindex = 0 then False
      else case ca_bpf_tc_query_program H f ifindex CA_TC_HANDLE CA_TC_PRIORITY of
        Inl err \<Rightarrow> False
      | Inr attached_id \<Rightarrow> attached_id = program_id)"

definition ca_bpf_verify_health :: "host \<Rightarrow> sys \<Rightarrow> u32 \<Rightarrow> u32 \<Rightarrow> string list \<Rightarrow> ctl \<Rightarrow> int" where
  "ca_bpf_verify_health H S policy_generation classifier_generation interfaces st =
     (if \<not> ca_bpf_object_available H S st then 1
      else if ca_bpf_open_map (sys_at H S st) ''ca_config'' \<noteq> 0 then 1
      else case get_program H st of
        Inl e \<Rightarrow> 1
      | Inr fd \<Rightarrow>
          (case ca_bpf_lookup_config (sys_at H S st) (cs_maps st) of
             Inl e \<Rightarrow> 1
           | Inr config \<Rightarrow>
               (case ca_bpf_program_id_from_fd H fd of
                  Inl e \<Rightarrow> 1
                | Inr program_id \<Rightarrow>
                    if cfg_enabled config = 0 \<or> cfg_app_policy_generation config \<noteq> policy_generation \<or>
                       cfg_classifier_generation config \<noteq> classifier_generation then 1
                    else if \<not> list_all (interface_healthy H (cs_filters st) program_id) interfaces then 1
                    else if ca_bpf_tc_verify_program_interfaces H (cs_filters st) program_id interfaces \<noteq> 0 then 1
                    else 0)))"

section \<open>The status line\<close>

text \<open>
  The counters of the loops are \<^verbatim>\<open>int\<close>s; they cannot wrap, since the capacity of every map
  is below 2 ^ 14 + 1.
\<close>

definition count_map_entries :: "('k, 'v) map_ops \<Rightarrow> ('k \<rightharpoonup> 'v) \<Rightarrow> nat option" where
  "count_map_entries ops m = follow_keys (mo_next_key ops m) (\<lambda>key count. count + 1) None 0"

text \<open>The array \<^verbatim>\<open>values\<close> is a list of at most \<^verbatim>\<open>CA_MAX_SUBJECTS\<close> ids.\<close>

definition note_subject :: "(ca_mac_key \<rightharpoonup> u32) \<Rightarrow> ca_mac_key \<Rightarrow> u32 list \<Rightarrow> u32 list" where
  "note_subject m key values =
     (case m key of
        None \<Rightarrow> values
      | Some subject_id \<Rightarrow>
          if subject_id \<notin> set values \<and> length values < CA_MAX_SUBJECTS then values @ [subject_id] else values)"

definition count_unique_subjects :: "(ca_mac_key, u32) map_ops \<Rightarrow> (ca_mac_key \<rightharpoonup> u32) \<Rightarrow> nat option" where
  "count_unique_subjects ops m =
     map_option length (follow_keys (mo_next_key ops m) (note_subject m) None [])"

text \<open>The sum over the CPUs of one counter; 0 when it cannot be read.\<close>

definition stat_sum :: "host \<Rightarrow> u32 \<Rightarrow> u64" where
  "stat_sum H i =
     (case ho_percpu_stats H i of
        None \<Rightarrow> 0
      | Some percpu \<Rightarrow> sum_list (take (nat (ho_cpus H)) percpu))"

definition json_long :: "string \<Rightarrow> u64 \<Rightarrow> string" where "json_long name n = json_field name (dec (unat n))"

definition json_int :: "string \<Rightarrow> nat \<Rightarrow> string" where "json_int name n = json_field name (dec n)"

record counts =
  sc_subjects :: nat
  sc_unique :: nat
  sc_policies :: nat
  sc_ports :: nat
  sc_prefixes4 :: nat
  sc_prefixes6 :: nat
  sc_flows :: nat

text \<open>\<open>sizeof(struct ca_flow_key)\<close> is 44 and \<open>sizeof(struct ca_flow_state)\<close> is 40.\<close>

definition flow_memory :: u64 where
  "flow_memory = of_nat CA_MAX_FLOWS * (44 + 40 + 72)"

definition status_line :: "host \<Rightarrow> u32 \<Rightarrow> ca_config \<Rightarrow> u64 \<Rightarrow> counts \<Rightarrow> string" where
  "status_line H schema config runtime n =
     json_object [
       json_str ''backend_mode'' ''V4_BPF_BASIC'',
       json_field ''program_pinned'' ''true'', json_field ''maps_pinned'' ''true'',
       json_num ''bpf_schema_version'' schema,
       json_field ''enabled'' (json_bool (cfg_enabled config \<noteq> 0)),
       json_field ''app_enforcement_enabled'' (json_bool (cfg_app_enforcement_enabled config \<noteq> 0)),
       json_num ''active_slot'' (cfg_active_slot config),
       json_num ''app_policy_generation'' (cfg_app_policy_generation config),
       json_num ''classifier_generation'' (cfg_classifier_generation config),
       json_int ''subject_entries'' (sc_subjects n), json_int ''subject_count'' (sc_unique n),
       json_int ''app_policy_snapshot_entries'' (sc_policies n), json_int ''policy_entries'' (sc_policies n),
       json_int ''port_hint_entries'' (sc_ports n), json_int ''ipv4_prefix_entries'' (sc_prefixes4 n),
       json_int ''ipv6_prefix_entries'' (sc_prefixes6 n),
       json_int ''runtime_projection_entries'' (sc_ports n + sc_prefixes4 n + sc_prefixes6 n),
       json_int ''flow_map_entries'' (sc_flows n), json_int ''flow_entries'' (sc_flows n),
       json_int ''flow_capacity'' CA_MAX_FLOWS, json_long ''estimated_flow_map_memory_bytes'' flow_memory,
       json_long ''flows_total'' (stat_sum H CA_STAT_FLOWS_TOTAL),
       json_num ''flows_pending'' (ucast runtime), json_num ''flows_pending_peak'' (ucast (drop_bit 32 runtime)),
       json_long ''flows_classified_exact'' (stat_sum H CA_STAT_FLOWS_CLASSIFIED_EXACT),
       json_long ''flows_classified_category'' (stat_sum H CA_STAT_FLOWS_CLASSIFIED_CATEGORY),
       json_long ''flows_unclassified'' (stat_sum H CA_STAT_FLOWS_UNCLASSIFIED),
       json_long ''flows_unclassified_budget'' (stat_sum H CA_STAT_FLOWS_UNCLASSIFIED_BUDGET),
       json_long ''flows_unclassified_load_shed'' (stat_sum H CA_STAT_FLOWS_UNCLASSIFIED_LOAD_SHED),
       json_long ''flow_app_allow_verdicts'' (stat_sum H CA_STAT_FLOW_APP_ALLOW_VERDICTS),
       json_long ''flow_app_deny_verdicts'' (stat_sum H CA_STAT_FLOW_APP_DENY_VERDICTS),
       json_long ''classification_packets'' (stat_sum H CA_STAT_CLASSIFICATION_PACKETS),
       json_long ''classification_bytes'' (stat_sum H CA_STAT_CLASSIFICATION_BYTES),
       json_long ''classification_admission_denied'' (stat_sum H CA_STAT_CLASSIFICATION_ADMISSION_DENIED),
       json_long ''flow_map_evictions'' (stat_sum H CA_STAT_FLOW_MAP_EVICTIONS),
       json_long ''flow_readmissions'' (stat_sum H CA_STAT_FLOW_READMISSIONS),
       json_int ''parser_map_entries'' 0,
       json_int ''offload_excluded_subjects'' (if cfg_enabled config \<noteq> 0 then sc_unique n else 0),
       json_long ''flow_map_full'' (stat_sum H CA_STAT_FLOW_MAP_FULL),
       json_long ''policy_reevaluations'' (stat_sum H CA_STAT_POLICY_REEVALUATIONS),
       json_long ''unknown_subject_packets'' (stat_sum H CA_STAT_UNKNOWN_SUBJECT_PACKETS),
       json_long ''parse_unsupported'' (stat_sum H CA_STAT_PARSE_UNSUPPORTED),
       json_long ''classifier_conflicts'' (stat_sum H CA_STAT_CLASSIFIER_CONFLICTS),
       json_long ''packet_app_allow_verdicts'' (stat_sum H CA_STAT_PACKET_APP_ALLOW_VERDICTS),
       json_long ''packet_app_deny_verdicts'' (stat_sum H CA_STAT_PACKET_APP_DENY_VERDICTS),
       json_num ''app_mark_mask'' CA_APP_MARK_MASK,
       json_int ''max_packets_inspected'' (unat (cfg_max_packets_inspected config)),
       json_num ''max_bytes_examined'' (cfg_max_bytes_examined config),
       json_num ''max_classification_age_ms'' (cfg_max_classification_age_ms config),
       json_num ''max_pending_entries'' (cfg_max_pending_entries config),
       json_num ''max_new_classifications_per_second'' (cfg_max_new_classifications_per_second config),
       json_num ''per_subject_new_classification_rate'' (cfg_per_subject_new_classification_rate config)] @ [NL]"

text \<open>\<open>None\<close> is a count that does not end; otherwise the exit code and the output.\<close>

definition ca_bpf_print_status :: "host \<Rightarrow> sys \<Rightarrow> ctl \<Rightarrow> (int \<times> string) option" where
  "ca_bpf_print_status H S st =
     (let S = sys_at H S st; m = cs_maps st in
      if ca_bpf_open_map S ''ca_config'' \<noteq> 0 then Some (1, [])
      else case ca_bpf_lookup_config S m of
        Inl e \<Rightarrow> Some (1, [])
      | Inr config \<Rightarrow>
          if ca_bpf_open_map S ''ca_mark_schema'' \<noteq> 0 then Some (1, [])
          else case ho_schema_lookup H (m_mark_schema m) of
            Inl e \<Rightarrow> Some (1, [])
          | Inr schema \<Rightarrow>
              let b = (cfg_active_slot config \<noteq> 0); sl = get_slot b m in
              if (\<exists>name \<in> set (slot_names b @ [''ca_flows'', ''ca_runtime'', ''ca_stats'']).
                    ca_bpf_open_map S name \<noteq> 0) \<or> ho_cpus H \<le> 0 then Some (1, [])
              else let runtime = (case ho_runtime_lookup H (m_runtime m) of None \<Rightarrow> 0 | Some w \<Rightarrow> w) in
                if \<not> ho_calloc H then Some (1, [])
                else do {
                  subjects \<leftarrow> count_map_entries (sy_subject S) (sl_subject sl);
                  unique \<leftarrow> count_unique_subjects (sy_subject S) (sl_subject sl);
                  policies \<leftarrow> count_map_entries (sy_policy S) (sl_policy sl);
                  ports \<leftarrow> count_map_entries (sy_port S) (sl_port sl);
                  prefixes4 \<leftarrow> count_map_entries (sy_ipv4 S) (sl_ipv4 sl);
                  prefixes6 \<leftarrow> count_map_entries (sy_ipv6 S) (sl_ipv6 sl);
                  flows \<leftarrow> count_map_entries (sy_flows S) (m_flows m);
                  Some (0, status_line H schema config runtime
                    \<lparr>sc_subjects = subjects, sc_unique = unique, sc_policies = policies, sc_ports = ports,
                     sc_prefixes4 = prefixes4, sc_prefixes6 = prefixes6, sc_flows = flows\<rparr>)
                })"

section \<open>What the counts are\<close>

lemma count_entries:
  assumes "walk_ok ops ks" and "dom m \<subseteq> set ks"
  shows "count_map_entries ops m = Some (card (dom m))"
proof -
  have fold: "fold (\<lambda>key count. count + 1) xs n = n + length xs" for xs :: "'a list" and n :: nat
    by (induction xs arbitrary: n) simp_all
  have "distinct (present m ks)" using assms(1) by (simp add: walk_ok_def)
  then have "length (present m ks) = card (dom m)"
    using distinct_card set_present_keys [OF assms(2)] by metis
  then show ?thesis
    unfolding count_map_entries_def follow_keys_fold [OF assms] fold by simp
qed

text \<open>The array holds the ids found so far, each once; with room for every subject none is lost.\<close>

lemma note_subject_fold:
  assumes "distinct vs"
  shows "length vs + length ks \<le> CA_MAX_SUBJECTS \<Longrightarrow>
    distinct (fold (note_subject m) ks vs) \<and> set (fold (note_subject m) ks vs) = set vs \<union> {v. \<exists>k \<in> set ks. m k = Some v}"
  using assms
proof (induction ks arbitrary: vs)
  case Nil
  then show ?case by simp
next
  case (Cons k ks)
  let ?vs = "note_subject m k vs"
  have "distinct ?vs \<and> length ?vs \<le> length vs + 1 \<and> set ?vs = set vs \<union> {v. m k = Some v}"
    using Cons.prems by (auto simp: note_subject_def split: option.split)
  then show ?case using Cons.IH [of ?vs] Cons.prems by auto
qed

lemma count_subjects:
  assumes walk: "walk_ok ops ks" "dom m \<subseteq> set ks" and room: "card (dom m) \<le> CA_MAX_SUBJECTS"
  shows "count_unique_subjects ops m = Some (card (ran m))"
proof -
  let ?ps = "present m ks"
  have ps: "set ?ps = dom m" by (rule set_present_keys [OF walk(2)])
  have "distinct ?ps" using walk(1) by (simp add: walk_ok_def)
  then have "length ?ps = card (dom m)" using distinct_card ps by metis
  then have "distinct (fold (note_subject m) ?ps []) \<and>
      set (fold (note_subject m) ?ps []) = {} \<union> {v. \<exists>k \<in> set ?ps. m k = Some v}"
    using note_subject_fold [of "[]" ?ps m] room by simp
  moreover have "{v. \<exists>k \<in> set ?ps. m k = Some v} = ran m" unfolding ps by (auto simp: ran_def)
  ultimately have "length (fold (note_subject m) ?ps []) = card (ran m)" using distinct_card by fastforce
  then show ?thesis unfolding count_unique_subjects_def follow_keys_fold [OF walk] by simp
qed

section \<open>What health means\<close>

lemma interface_healthyD:
  "tc_ok H \<Longrightarrow> interface_healthy H f own name \<Longrightarrow>
    ho_if_nametoindex H name \<noteq> 0 \<and> f (ho_if_nametoindex H name, CA_TC_HANDLE, CA_TC_PRIORITY) = Some own"
  using query_Inr by (fastforce simp: interface_healthy_def Let_def split: sum.splits if_splits)

lemma verify_visitD:
  assumes "tc_ok H" and "verify_visit H f own keep v" and "f (place v) = Some own"
  shows "kept keep v"
proof -
  obtain i name h p where v: "v = ((i, name), (h, p))" by (metis prod.exhaust)
  show ?thesis
  proof (cases "ca_bpf_tc_query_program H f i h p")
    case (Inl e)
    then show ?thesis using assms query_Inl [OF assms(1) Inl] by (simp add: verify_visit_def v place_def)
  next
    case (Inr q)
    then show ?thesis
      using assms query_Inr [OF assms(1) Inr] by (simp add: verify_visit_def v place_def kept_def coordinates_def)
  qed
qed
text \<open>
  What a zero exit of the verification promises: the pinned program and the current schema, an enabled
  configuration with the generations asked for, our filter on every interface listed, and no filter of
  ours anywhere else.
\<close>

definition deployed :: "host \<Rightarrow> u32 \<Rightarrow> u32 \<Rightarrow> string list \<Rightarrow> ctl \<Rightarrow> u32 \<Rightarrow> ca_config \<Rightarrow> bool" where
  "deployed H policy_generation classifier_generation names st own config \<longleftrightarrow>
     cs_program st = Some own \<and> m_mark_schema (cs_maps st) 0 = Some CA_BPF_SCHEMA_VERSION \<and>
     m_config (cs_maps st) 0 = Some config \<and> cfg_enabled config \<noteq> 0 \<and>
     cfg_app_policy_generation config = policy_generation \<and>
     cfg_classifier_generation config = classifier_generation \<and>
     (\<forall>name \<in> set names. ho_if_nametoindex H name \<noteq> 0 \<and>
        cs_filters st (ho_if_nametoindex H name, CA_TC_HANDLE, CA_TC_PRIORITY) = Some own) \<and>
     (\<exists>ifs. ho_if_nameindex H = Some ifs \<and> (\<forall>(i, name) \<in> set ifs.
        cs_filters st (i, 1, 1) \<noteq> Some own \<and>
        (name \<notin> set names \<longrightarrow> cs_filters st (i, CA_TC_HANDLE, CA_TC_PRIORITY) \<noteq> Some own)))"

lemma verify_interfacesD:
  assumes "tc_ok H" and "ca_bpf_tc_verify_program_interfaces H f own names = 0"
  shows "\<exists>ifs. ho_if_nameindex H = Some ifs \<and> (\<forall>(i, name) \<in> set ifs.
    f (i, 1, 1) \<noteq> Some own \<and> (name \<notin> set names \<longrightarrow> f (i, CA_TC_HANDLE, CA_TC_PRIORITY) \<noteq> Some own))"
proof -
  obtain ifs where ifs: "ho_if_nameindex H = Some ifs" and all: "list_all (verify_visit H f own names) (visits ifs)"
    using assms(2) by (auto simp: ca_bpf_tc_verify_program_interfaces_def split: option.splits if_splits)
  have "kept names ((i, name), c)" if "(i, name) \<in> set ifs" "c \<in> {(CA_TC_HANDLE, CA_TC_PRIORITY), (1, 1)}"
    "f (i, c) = Some own" for i name c
  proof -
    have "((i, name), c) \<in> set (visits ifs)" using that visits_set [of i name "fst c" "snd c"] by simp
    then have "verify_visit H f own names ((i, name), c)" using all by (simp add: list_all_iff)
    from verify_visitD [OF assms(1) this] that(3) show ?thesis by (simp add: place_def)
  qed
  then show ?thesis using ifs by (fastforce simp: kept_def keep_interface_def)
qed

lemma available_schema:
  assumes "pins_ok H" and "ca_bpf_object_available H S st"
  shows "m_mark_schema (cs_maps st) 0 = Some CA_BPF_SCHEMA_VERSION"
proof -
  obtain v where "ho_schema_lookup H (m_mark_schema (cs_maps st)) = Inr v" "v = CA_BPF_SCHEMA_VERSION"
    using assms(2) by (auto simp: ca_bpf_object_available_def split: sum.splits if_splits)
  with assms(1) show ?thesis unfolding pins_ok_def by blast
qed

lemma healthy_deployed:
  assumes host: "host_ok H" and look: "lookup_ok S"
    and run: "ca_bpf_verify_health H S policy_generation classifier_generation names st = 0"
  shows "\<exists>own config. deployed H policy_generation classifier_generation names st own config"
proof -
  have tc: "tc_ok H" and pins: "pins_ok H" using host by (simp_all add: host_ok_def)
  obtain own where p: "get_program H st = Inr own"
    using run by (auto simp: ca_bpf_verify_health_def split: sum.splits if_splits)
  obtain config where c: "ca_bpf_lookup_config (sys_at H S st) (cs_maps st) = Inr config"
    using run p by (auto simp: ca_bpf_verify_health_def split: sum.splits if_splits)
  obtain q where q: "ca_bpf_program_id_from_fd H own = Inr q"
    using run p c by (auto simp: ca_bpf_verify_health_def split: sum.splits if_splits)
  have own: "q = own" by (rule program_id [OF q])
  note facts = run p c q own
  have av: "ca_bpf_object_available H S st"
    and cfg: "cfg_enabled config \<noteq> 0" "cfg_app_policy_generation config = policy_generation"
      "cfg_classifier_generation config = classifier_generation"
    and each: "list_all (interface_healthy H (cs_filters st) own) names"
    and verify: "ca_bpf_tc_verify_program_interfaces H (cs_filters st) own names = 0"
    using facts by (simp_all add: ca_bpf_verify_health_def split: if_splits)
  have "case sy_lookup_config S (m_config (cs_maps st)) 0 of Inr c \<Rightarrow> m_config (cs_maps st) 0 = Some c
      | Inl e \<Rightarrow> e \<noteq> 0 \<and> (e = ENOENT \<longrightarrow> m_config (cs_maps st) 0 = None)"
    using look unfolding lookup_ok_def by blast
  then have "m_config (cs_maps st) 0 = Some config"
    using c by (simp add: ca_bpf_lookup_config_def sys_at_def)
  then have "deployed H policy_generation classifier_generation names st own config"
    unfolding deployed_def
    using get_program_Inr [OF p] available_schema [OF pins av] cfg verify_interfacesD [OF tc verify]
      each interface_healthyD [OF tc] by (auto simp: list_all_iff)
  then show ?thesis by blast
qed

end
