(* ===== verification/Bpfctl.thy ===== *)
theory Bpfctl
  imports Health Datapath_Properties
begin

text \<open>
  \<^verbatim>\<open>src/client-access-bpfctl.c\<close>: the commands of the controller.  A command takes the state
  and gives its exit code, its standard output and the state it leaves; \<open>None\<close> is a command that does
  not return.  Messages on standard error are left out.
\<close>

type_synonym command = "ctl \<Rightarrow> (int \<times> string \<times> ctl) option"

abbreviation (input) CA_BPF_DEFAULT_OBJECT :: string where
  "CA_BPF_DEFAULT_OBJECT \<equiv> ''/usr/lib/bpf/client-access-bpf.o''"

section \<open>The commands\<close>

definition parse_u32_argument :: "libc \<Rightarrow> string \<Rightarrow> u32 option" where
  "parse_u32_argument L text =
     (let (parsed, end_text, err) = strtoul (lc_einval_on_empty L) text
      in if err \<or> end_text \<noteq> [] \<or> parsed > ucast UINT32_MAX then None else Some (ucast parsed))"

definition with_object_lock :: "host \<Rightarrow> sys \<Rightarrow> string \<Rightarrow> bool \<Rightarrow> command" where
  "with_object_lock H S path replace st =
     (if \<not> ca_bpf_update_lock S then Some (1, [], st)
      else let (ret, st') = ca_bpf_object_load H S path replace st in Some (ret, [], st'))"

definition unload_backend :: "host \<Rightarrow> sys \<Rightarrow> command" where
  "unload_backend H S st =
     (if \<not> ca_bpf_update_lock S then Some (1, [], st)
      else let (ret, maps) = ca_bpf_backend_disable_unlocked (sys_at H S st) (cs_maps st);
               st1 = st\<lparr>cs_maps := maps\<rparr> in
        if ret \<noteq> 0 then Some (ret, [], st1)
        else let (ret, st2) = ca_bpf_tc_detach_all H st1 in
          if ret \<noteq> 0 then Some (ret, [], st2) else Some (ret, [], ca_bpf_object_unlink H st2))"

definition with_tc_lock :: "host \<Rightarrow> sys \<Rightarrow> string \<Rightarrow> bool \<Rightarrow> command" where
  "with_tc_lock H S ifname attach st =
     (if \<not> ca_bpf_update_lock S then Some (1, [], st)
      else let (ret, st') = ca_bpf_tc_action H ifname attach st in Some (ret, [], st'))"

definition prune_with_lock :: "host \<Rightarrow> sys \<Rightarrow> string list \<Rightarrow> command" where
  "prune_with_lock H S keep_names st =
     (if \<not> ca_bpf_update_lock S then Some (1, [], st)
      else let (ret, st') = ca_bpf_tc_prune H keep_names st in Some (ret, [], st'))"

definition health_with_lock :: "host \<Rightarrow> sys \<Rightarrow> u32 \<Rightarrow> u32 \<Rightarrow> string list \<Rightarrow> command" where
  "health_with_lock H S policy_generation classifier_generation interfaces st =
     (if \<not> ca_bpf_update_lock S then Some (1, [], st)
      else let ret = ca_bpf_verify_health H S policy_generation classifier_generation interfaces st in
        if ret \<noteq> 0 then Some (ret, [], st)
        else do { (ret, out) \<leftarrow> ca_bpf_print_status H S st; Some (ret, out, st) })"

definition simple_with_lock :: "sys \<Rightarrow> (ctl \<Rightarrow> (int \<times> string) option) \<Rightarrow> command" where
  "simple_with_lock S operation st =
     (if \<not> ca_bpf_update_lock S then Some (1, [], st)
      else do { (ret, out) \<leftarrow> operation st; Some (ret, out, st) })"

definition gc_with_lock :: "host \<Rightarrow> sys \<Rightarrow> u64 \<Rightarrow> command" where
  "gc_with_lock H S idle st =
     (if \<not> ca_bpf_update_lock S then Some (1, [], st)
      else do {
        (ret, out, maps) \<leftarrow> ca_bpf_gc_flows (sys_at H S st) (ho_clock H) idle (cs_maps st);
        Some (ret, out, st\<lparr>cs_maps := maps\<rparr>) })"

text \<open>\<open>argv\<close> includes the name of the program; \<open>stdin\<close> is the text \<^verbatim>\<open>sync\<close> reads.\<close>

definition bpfctl_main :: "host \<Rightarrow> sys \<Rightarrow> libc \<Rightarrow> string \<Rightarrow> string list \<Rightarrow> command" where
  "bpfctl_main H S L stdin argv st =
     (let argc = length argv;
          object = (if argc > 2 then argv ! 2 else CA_BPF_DEFAULT_OBJECT);
          invalid = Some (2, [], st)
      in if argc < 2 then invalid
      else if argv ! 1 = ''ensure'' then with_object_lock H S object False st
      else if argv ! 1 = ''load'' then with_object_lock H S object True st
      else if argv ! 1 = ''disable'' \<and> argc = 2
      then let (ret, maps) = ca_bpf_backend_disable (sys_at H S st) (cs_maps st) in Some (ret, [], st\<lparr>cs_maps := maps\<rparr>)
      else if argv ! 1 = ''unload'' then unload_backend H S st
      else if argv ! 1 = ''attach'' \<and> argc = 3 then with_tc_lock H S (argv ! 2) True st
      else if argv ! 1 = ''detach'' \<and> argc = 3 then with_tc_lock H S (argv ! 2) False st
      else if argv ! 1 = ''prune'' then prune_with_lock H S (drop 2 argv) st
      else if argv ! 1 = ''sync'' \<and> argc = 2
      then do { (ret, maps) \<leftarrow> ca_bpf_snapshot_sync (sys_at H S st) L stdin (cs_maps st); Some (ret, [], st\<lparr>cs_maps := maps\<rparr>) }
      else if argv ! 1 = ''generations'' \<and> argc = 2
      then simple_with_lock S (\<lambda>st. Some (ca_bpf_print_generations (sys_at H S st) (cs_maps st))) st
      else if argv ! 1 = ''health'' \<and> argc \<ge> 5
      then (case (parse_u32_argument L (argv ! 2), parse_u32_argument L (argv ! 3)) of
              (Some policy_generation, Some classifier_generation) \<Rightarrow>
                health_with_lock H S policy_generation classifier_generation (drop 4 argv) st
            | _ \<Rightarrow> invalid)
      else if argv ! 1 = ''status'' \<and> argc = 2 then simple_with_lock S (ca_bpf_print_status H S) st
      else if argv ! 1 = ''gc''
      then if argc = 3
           then let (idle, end_text, err) = strtoul (lc_einval_on_empty L) (argv ! 2) in
             if err \<or> end_text \<noteq> [] \<or> idle < 1 \<or> idle > 86400 then invalid else gc_with_lock H S idle st
           else if argc \<noteq> 2 then invalid
           else gc_with_lock H S 300 st
      else invalid)"

section \<open>The contract of a command\<close>

text \<open>
  A command of the controller changes nothing while another one holds the lock, and it takes away or
  installs filters of the pinned program only.
\<close>

definition filters_respected :: "ctl \<Rightarrow> ctl \<Rightarrow> bool" where
  "filters_respected st st' \<longleftrightarrow>
     (case cs_program st of
        None \<Rightarrow> cs_filters st' = cs_filters st
      | Some own \<Rightarrow> spares own (cs_filters st) (cs_filters st'))"

lemma filters_respected_same: "cs_filters st' = cs_filters st \<Longrightarrow> filters_respected st st'"
  by (simp add: filters_respected_def split: option.split)

locale locked_command =
  fixes S :: sys and run body :: command
  assumes busy: "\<not> ca_bpf_update_lock S \<Longrightarrow> run st = Some (1, [], st)"
    and locked: "ca_bpf_update_lock S \<Longrightarrow> run st = body st"
begin

lemma success: "run st = Some (0, out, st') \<Longrightarrow> body st = Some (0, out, st')"
  using busy locked by (cases "ca_bpf_update_lock S") simp_all

lemma outcome:
  "run st = Some (ret, out, st') \<Longrightarrow> body st = Some (ret, out, st') \<or> ret = 1 \<and> out = [] \<and> st' = st"
  using busy locked by (cases "ca_bpf_update_lock S") simp_all

end

locale sparing_command = locked_command +
  fixes H :: host
  assumes body_spares: "tc_ok H \<Longrightarrow> body st = Some (ret, out, st') \<Longrightarrow> filters_respected st st'"
begin

lemma run_spares: "tc_ok H \<Longrightarrow> run st = Some (ret, out, st') \<Longrightarrow> filters_respected st st'"
  using outcome body_spares filters_respected_same by metis

end

lemma prune_respects: "tc_ok H \<Longrightarrow> ca_bpf_tc_prune H keep st = (ret, st') \<Longrightarrow> filters_respected st st'"
  using prune_spec [of H keep st ret st'] filters_respected_same [of st st']
  by (auto simp: filters_respected_def split: option.splits)

lemma disable_unlocked_filters:
  "filters_respected st (st\<lparr>cs_maps := m\<rparr>)" "filters_respected st st"
  by (simp_all add: filters_respected_same)

interpretation object_lock: sparing_command S "with_object_lock H S path replace"
    "\<lambda>st. case ca_bpf_object_load H S path replace st of (ret, st') \<Rightarrow> Some (ret, [], st')" H for S H path replace
proof unfold_locales
  fix st ret out st'
  assume ok: "tc_ok H" and run: "(case ca_bpf_object_load H S path replace st of (ret, st') \<Rightarrow> Some (ret, [], st')) = Some (ret, out, st')"
  then have "ca_bpf_object_load H S path replace st = (ret, st')" by (simp split: prod.splits)
  from load_spares [OF ok this] show "filters_respected st st'" by (simp add: filters_respected_def)
qed (simp_all add: with_object_lock_def)

interpretation tc_lock: sparing_command S "with_tc_lock H S ifname attach"
    "\<lambda>st. case ca_bpf_tc_action H ifname attach st of (ret, st') \<Rightarrow> Some (ret, [], st')" H for S H ifname attach
proof unfold_locales
  fix st ret out st'
  assume ok: "tc_ok H" and run: "(case ca_bpf_tc_action H ifname attach st of (ret, st') \<Rightarrow> Some (ret, [], st')) = Some (ret, out, st')"
  then have "ca_bpf_tc_action H ifname attach st = (ret, st')" by (simp split: prod.splits)
  from action_spec [OF ok this] show "filters_respected st st'"
    by (auto simp: filters_respected_def split: option.splits)
qed (simp_all add: with_tc_lock_def)

interpretation prune_lock: sparing_command S "prune_with_lock H S keep"
    "\<lambda>st. case ca_bpf_tc_prune H keep st of (ret, st') \<Rightarrow> Some (ret, [], st')" H for S H keep
proof unfold_locales
  fix st ret out st'
  assume ok: "tc_ok H" and run: "(case ca_bpf_tc_prune H keep st of (ret, st') \<Rightarrow> Some (ret, [], st')) = Some (ret, out, st')"
  then have "ca_bpf_tc_prune H keep st = (ret, st')" by (simp split: prod.splits)
  with ok show "filters_respected st st'" by (rule prune_respects)
qed (simp_all add: prune_with_lock_def)

interpretation simple_lock: sparing_command S "simple_with_lock S operation"
    "\<lambda>st. do { (ret, out) \<leftarrow> operation st; Some (ret, out, st) }" H for S H operation
  by unfold_locales (auto simp: simple_with_lock_def filters_respected_same split: Option.bind_splits)

interpretation health_lock: sparing_command S "health_with_lock H S policy_generation classifier_generation names"
    "\<lambda>st. let ret = ca_bpf_verify_health H S policy_generation classifier_generation names st in
       if ret \<noteq> 0 then Some (ret, [], st)
       else do { (ret, out) \<leftarrow> ca_bpf_print_status H S st; Some (ret, out, st) }" H
    for S H policy_generation classifier_generation names
  by unfold_locales (auto simp: health_with_lock_def filters_respected_same Let_def split: Option.bind_splits if_splits)

interpretation gc_lock: sparing_command S "gc_with_lock H S idle"
    "\<lambda>st. do {
       (ret, out, maps) \<leftarrow> ca_bpf_gc_flows (sys_at H S st) (ho_clock H) idle (cs_maps st);
       Some (ret, out, st\<lparr>cs_maps := maps\<rparr>) }" H for S H idle
  by unfold_locales (auto simp: gc_with_lock_def filters_respected_same split: Option.bind_splits)

lemma unload_respects:
  assumes ok: "tc_ok H" and p: "ca_bpf_tc_detach_all H (st\<lparr>cs_maps := m\<rparr>) = (ret, st')"
  shows "filters_respected st st'"
proof -
  have "filters_respected (st\<lparr>cs_maps := m\<rparr>) st'"
    using p by (intro prune_respects [OF ok, of "[]"]) (simp add: ca_bpf_tc_detach_all_def)
  then show ?thesis by (cases "cs_program st") (simp_all add: filters_respected_def)
qed

interpretation unload_lock: sparing_command S "unload_backend H S"
    "\<lambda>st. let (ret, maps) = ca_bpf_backend_disable_unlocked (sys_at H S st) (cs_maps st);
               st1 = st\<lparr>cs_maps := maps\<rparr> in
        if ret \<noteq> 0 then Some (ret, [], st1)
        else let (ret, st2) = ca_bpf_tc_detach_all H st1 in
          if ret \<noteq> 0 then Some (ret, [], st2) else Some (ret, [], ca_bpf_object_unlink H st2)" H for S H
proof unfold_locales
  fix st ret out st'
  assume ok: "tc_ok H" and run: "(let (ret, maps) = ca_bpf_backend_disable_unlocked (sys_at H S st) (cs_maps st);
               st1 = st\<lparr>cs_maps := maps\<rparr> in
        if ret \<noteq> 0 then Some (ret, [], st1)
        else let (ret, st2) = ca_bpf_tc_detach_all H st1 in
          if ret \<noteq> 0 then Some (ret, [], st2) else Some (ret, [], ca_bpf_object_unlink H st2)) = Some (ret, out, st')"
  obtain r maps where d: "ca_bpf_backend_disable_unlocked (sys_at H S st) (cs_maps st) = (r, maps)" by fastforce
  obtain r2 st2 where t: "ca_bpf_tc_detach_all H (st\<lparr>cs_maps := maps\<rparr>) = (r2, st2)" by fastforce
  have "cs_filters st' = cs_filters st \<or> cs_filters st' = cs_filters st2"
    using run d t by (auto simp: Let_def split: if_splits)
  moreover have "filters_respected st st2" by (rule unload_respects [OF ok t])
  ultimately show "filters_respected st st'" by (auto simp: filters_respected_def split: option.splits)
qed (simp_all add: unload_backend_def Let_def)

section \<open>Commands as a whole\<close>

lemma main_respects:
  assumes ok: "tc_ok H" and run: "bpfctl_main H S L stdin argv st = Some (ret, out, st')"
  shows "filters_respected st st'"
  using run unfolding bpfctl_main_def Let_def
  by (auto simp: filters_respected_same split: if_splits option.splits prod.splits Option.bind_splits
      intro: object_lock.run_spares [OF ok] tc_lock.run_spares [OF ok] prune_lock.run_spares [OF ok]
        simple_lock.run_spares [OF ok] health_lock.run_spares [OF ok] gc_lock.run_spares [OF ok]
        unload_lock.run_spares [OF ok])

text \<open>
  C7 foreign_filters_kept: whatever the command, its arguments and the calls that fail, the only
  filters the controller takes away or installs are those of the program that was pinned when the
  command started; every other filter of the host, at any coordinate, stays as it was.
\<close>

theorem foreign_filters_kept:
  assumes "tc_ok H" and "bpfctl_main H S L stdin argv st = Some (ret, out, st')"
    and "cs_filters st' c \<noteq> cs_filters st c"
  shows "\<exists>own. cs_program st = Some own \<and> {cs_filters st c, cs_filters st' c} = {None, Some own}"
proof -
  have "filters_respected st st'" using assms(1,2) by (rule main_respects)
  with assms(3) obtain own where own: "cs_program st = Some own" "spares own (cs_filters st) (cs_filters st')"
    by (cases "cs_program st") (simp_all add: filters_respected_def)
  then have "cs_filters st c \<in> {None, Some own}" "cs_filters st' c \<in> {None, Some own}"
    using assms(3) unfolding spares_def by blast+
  with own(1) assms(3) show ?thesis by auto
qed

lemma disable_unpinned:
  assumes "pins_ok H" and "''/sys/fs/bpf/client_access/ca_config'' \<notin> cs_pins st"
  shows "snd (ca_bpf_backend_disable_unlocked (sys_at H S st) m) = m"
proof -
  have "ca_bpf_open_map (sys_at H S st) ''ca_config'' \<noteq> 0"
    using assms unfolding pins_ok_def by (simp add: ca_bpf_open_map_def ca_bpf_pin_path_def sys_at_def)
  then show ?thesis by (simp add: ca_bpf_backend_disable_unlocked_def)
qed

lemma disable_off:
  assumes pins: "pins_ok H" and look: "lookup_ok S" and upd: "map_update_ok (sy_config S)"
    and pinned: "''/sys/fs/bpf/client_access/ca_config'' \<in> cs_pins st"
    and run: "ca_bpf_backend_disable_unlocked (sys_at H S st) m = (0, m')"
  shows "m_config m' 0 = None \<or> (\<exists>c. m_config m' 0 = Some c \<and> cfg_enabled c = 0)"
proof -
  let ?S = "sys_at H S st" and ?path = "''/sys/fs/bpf/client_access/ca_config''"
  have "ca_bpf_open_map ?S ''ca_config'' = ho_obj_get H True ?path"
    using pinned by (simp add: ca_bpf_open_map_def ca_bpf_pin_path_def sys_at_def)
  moreover have "ho_obj_get H True ?path \<noteq> ENOENT" using pins unfolding pins_ok_def by blast
  ultimately have op: "ca_bpf_open_map ?S ''ca_config'' = 0"
    using run by (auto simp: ca_bpf_backend_disable_unlocked_def split: if_splits)
  have law: "case sy_lookup_config S (m_config m) 0 of Inr c \<Rightarrow> m_config m 0 = Some c
      | Inl e \<Rightarrow> e \<noteq> 0 \<and> (e = ENOENT \<longrightarrow> m_config m 0 = None)"
    using look unfolding lookup_ok_def by blast
  have lk: "ca_bpf_lookup_config ?S m = sy_lookup_config S (m_config m) 0"
    by (simp add: ca_bpf_lookup_config_def sys_at_def)
  show ?thesis
  proof (cases "sy_lookup_config S (m_config m) 0")
    case (Inl e)
    then have "e = ENOENT" "m' = m"
      using run op lk by (auto simp: ca_bpf_backend_disable_unlocked_def split: if_splits)
    with law Inl show ?thesis by simp
  next
    case (Inr c)
    obtain e x where u: "mo_update (sy_config S) (m_config m) 0 (c\<lparr>cfg_enabled := 0\<rparr>) BPF_ANY = (e, x)" by fastforce
    then have e: "e = 0" "m' = m\<lparr>m_config := x\<rparr>"
      using run op lk Inr by (auto simp: ca_bpf_backend_disable_unlocked_def split: if_splits)
    then have "x = (m_config m)(0 \<mapsto> c\<lparr>cfg_enabled := 0\<rparr>)" using map_update_success [OF upd] u by blast
    with e show ?thesis by simp
  qed
qed

lemma prune_maps: "tc_ok H \<Longrightarrow> ca_bpf_tc_prune H keep st = (ret, st') \<Longrightarrow> cs_maps st' = cs_maps st"
  using prune_spec [of H keep st ret st'] by auto


text \<open>
  C17 healthy_enforcing: when \<^verbatim>\<open>health\<close> exits with zero, the program is pinned with the current
  schema, the configuration is enabled with the generations asked for, every interface listed has our
  filter, and no filter of ours is anywhere else; the command itself changes nothing.
\<close>

theorem healthy_enforcing:
  assumes host: "host_ok H" and look: "lookup_ok S"
    and args: "parse_u32_argument L policy = Some pg" "parse_u32_argument L classifier = Some cg" "names \<noteq> []"
    and run: "bpfctl_main H S L stdin ([prog, ''health'', policy, classifier] @ names) st = Some (0, out, st')"
  shows "st' = st \<and> (\<exists>own config. deployed H pg cg names st own config)"
proof -
  have "health_with_lock H S pg cg names st = Some (0, out, st')"
    using run args by (cases names) (simp_all add: bpfctl_main_def)
  from health_lock.success [OF this] have "ca_bpf_verify_health H S pg cg names st = 0" "st' = st"
    by (auto simp: Let_def split: if_splits Option.bind_splits)
  with healthy_deployed [OF host look] show ?thesis by blast
qed

end
