(* ===== verification/Sfo_Index.thy ===== *)
theory Sfo_Index
  imports Bpf_Types
begin

text \<open>
  The candidate index of \<^verbatim>\<open>sfo/client-access-sfoctl.c\<close>: the flows to revoke, an FNV-1a hash
  over their 5-tuple, and the bucket chains that find the flows of a conntrack entry.

  A conntrack entry is an object of libnetfilter_conntrack.  The tool reads it through getters,
  so it is the record of its attributes, \<open>None\<close> where an attribute is not set; an address is its
  bytes in memory.  A getter for a number gives 0 for an attribute that is not set, the pointer
  getter gives \<^verbatim>\<open>NULL\<close>, and reading through it is the fault \<open>None\<close>.
\<close>

section \<open>Conntrack entries\<close>

record nf_conntrack =
  ct_l3proto :: "u8 option"
  ct_l4proto :: "u8 option"
  ct_port_src :: "u16 option"
  ct_port_dst :: "u16 option"
  ct_ipv4_src :: "u8 list option"
  ct_ipv4_dst :: "u8 list option"
  ct_ipv6_src :: "u8 list option"
  ct_ipv6_dst :: "u8 list option"
  ct_status_attr :: "u32 option"

abbreviation (input) AF_INET_U8 :: u8 where "AF_INET_U8 \<equiv> 2"
abbreviation (input) AF_INET6_U8 :: u8 where "AF_INET6_U8 \<equiv> 10"
abbreviation (input) IPPROTO_TCP :: u8 where "IPPROTO_TCP \<equiv> 6"
abbreviation (input) IPPROTO_UDP :: u8 where "IPPROTO_UDP \<equiv> 17"
abbreviation (input) ETH_P_IP :: u16 where "ETH_P_IP \<equiv> 0x0800"
abbreviation (input) ETH_P_IPV6 :: u16 where "ETH_P_IPV6 \<equiv> 0x86DD"

definition ct_has :: "'a option \<Rightarrow> bool" where "ct_has x \<longleftrightarrow> x \<noteq> None"

definition nfct_num :: "'a::zero option \<Rightarrow> 'a" where
  "nfct_num x = (case x of None \<Rightarrow> 0 | Some v \<Rightarrow> v)"

definition nfct_ipv4 :: "u8 list option \<Rightarrow> u8 list" where
  "nfct_ipv4 x = (case x of None \<Rightarrow> replicate 4 0 | Some v \<Rightarrow> v)"

lemma nfct_Some [simp]: "nfct_num (Some v) = v" "nfct_ipv4 (Some w) = w" "ct_has (Some u)" "\<not> ct_has None"
  by (simp_all add: nfct_num_def nfct_ipv4_def ct_has_def)

section \<open>Candidates\<close>

text \<open>
  \<open>cs_items\<close> are the \<^verbatim>\<open>count\<close> items in use of the array of \<open>cs_capacity\<close>; \<open>cs_buckets\<close> is
  \<open>None\<close> while the pointer is \<^verbatim>\<open>NULL\<close>.
\<close>

record ca_candidate =
  cd_key :: ca_flow_key
  cd_state :: ca_flow_state
  cd_next :: u32
  cd_present :: bool

record ca_candidates =
  cs_items :: "ca_candidate list"
  cs_capacity :: nat
  cs_buckets :: "u32 list option"
  cs_bucket_count :: nat
  cs_overflow :: bool

section \<open>Hashing\<close>

definition supported_flow :: "ca_flow_key \<Rightarrow> bool" where
  "supported_flow key \<longleftrightarrow>
     (let family = bpf_ntohs (fk_eth_proto key)
      in (family = ETH_P_IP \<or> family = ETH_P_IPV6) \<and>
         (fk_ip_proto key = IPPROTO_TCP \<or> fk_ip_proto key = IPPROTO_UDP))"

definition hash_bytes :: "u32 \<Rightarrow> u8 list \<Rightarrow> u32" where
  "hash_bytes hash bytes = foldl (\<lambda>h b. (h XOR ucast b) * 16777619) hash bytes"

text \<open>The two bytes of a 16-bit word in memory.\<close>

definition u16_bytes :: "u16 \<Rightarrow> u8 list" where "u16_bytes w = [ucast w, ucast (drop_bit 8 w)]"

definition candidate_hash :: "ca_flow_key \<Rightarrow> u32" where
  "candidate_hash key =
     (let family = (if bpf_ntohs (fk_eth_proto key) = ETH_P_IP then 4 else 6);
          hash = hash_bytes 2166136261 [family];
          hash = hash_bytes hash [fk_ip_proto key];
          hash = hash_bytes hash (u16_bytes (fk_src_port key));
          hash = hash_bytes hash (u16_bytes (fk_dst_port key))
      in if family = (4 :: u8) then hash_bytes (hash_bytes hash (fk_v4_src key)) (fk_v4_dst key)
         else hash_bytes (hash_bytes hash (fk_v6_src key)) (fk_v6_dst key))"

definition conntrack_hash :: "nf_conntrack \<Rightarrow> u32 option" where
  "conntrack_hash ct =
     (let family = (if nfct_num (ct_l3proto ct) = AF_INET_U8 then 4 else 6);
          hash = hash_bytes 2166136261 [family];
          hash = hash_bytes hash [nfct_num (ct_l4proto ct)];
          hash = hash_bytes hash (u16_bytes (nfct_num (ct_port_src ct)));
          hash = hash_bytes hash (u16_bytes (nfct_num (ct_port_dst ct)))
      in if family = (4 :: u8)
         then Some (hash_bytes (hash_bytes hash (nfct_ipv4 (ct_ipv4_src ct))) (nfct_ipv4 (ct_ipv4_dst ct)))
         else do {
           src \<leftarrow> ct_ipv6_src ct;
           dst \<leftarrow> ct_ipv6_dst ct;
           Some (hash_bytes (hash_bytes hash src) dst)
         })"

section \<open>Tuples\<close>

definition tuple_matches :: "ca_flow_key \<Rightarrow> nf_conntrack \<Rightarrow> bool" where
  "tuple_matches key ct =
     (if \<not> ct_has (ct_l3proto ct) \<or> \<not> ct_has (ct_l4proto ct) \<or>
         \<not> ct_has (ct_port_src ct) \<or> \<not> ct_has (ct_port_dst ct) then False
      else let family = nfct_num (ct_l3proto ct) in
        if nfct_num (ct_l4proto ct) \<noteq> fk_ip_proto key \<or> nfct_num (ct_port_src ct) \<noteq> fk_src_port key \<or>
           nfct_num (ct_port_dst ct) \<noteq> fk_dst_port key then False
        else if bpf_ntohs (fk_eth_proto key) = ETH_P_IP
        then family = AF_INET_U8 \<and> ct_has (ct_ipv4_src ct) \<and> ct_has (ct_ipv4_dst ct) \<and>
             nfct_ipv4 (ct_ipv4_src ct) = fk_v4_src key \<and> nfct_ipv4 (ct_ipv4_dst ct) = fk_v4_dst key
        else family = AF_INET6_U8 \<and> ct_has (ct_ipv6_src ct) \<and> ct_has (ct_ipv6_dst ct) \<and>
             the (ct_ipv6_src ct) = fk_v6_src key \<and> the (ct_ipv6_dst ct) = fk_v6_dst key)"

definition supported_conntrack_tuple :: "nf_conntrack \<Rightarrow> bool" where
  "supported_conntrack_tuple ct =
     (if \<not> ct_has (ct_l3proto ct) \<or> \<not> ct_has (ct_l4proto ct) \<or>
         \<not> ct_has (ct_port_src ct) \<or> \<not> ct_has (ct_port_dst ct) then False
      else let family = nfct_num (ct_l3proto ct); protocol = nfct_num (ct_l4proto ct) in
        if protocol \<noteq> IPPROTO_TCP \<and> protocol \<noteq> IPPROTO_UDP then False
        else if family = AF_INET_U8 then ct_has (ct_ipv4_src ct) \<and> ct_has (ct_ipv4_dst ct)
        else family = AF_INET6_U8 \<and> ct_has (ct_ipv6_src ct) \<and> ct_has (ct_ipv6_dst ct))"

text \<open>A flow and an entry it matches have one hash.\<close>

lemma matching_hash:
  assumes "tuple_matches key ct"
  shows "conntrack_hash ct = Some (candidate_hash key)"
  using assms
  by (auto simp: tuple_matches_def conntrack_hash_def candidate_hash_def Let_def ct_has_def nfct_num_def
      nfct_ipv4_def split: if_splits option.splits)

lemma conntrack_hash_defined: "supported_conntrack_tuple ct \<Longrightarrow> defined (conntrack_hash ct)"
  by (auto simp: supported_conntrack_tuple_def conntrack_hash_def ct_has_def Let_def split: if_splits)

lemma matching_supported:
  "tuple_matches key ct \<Longrightarrow> supported_flow key \<Longrightarrow> supported_conntrack_tuple ct"
  by (auto simp: tuple_matches_def supported_flow_def supported_conntrack_tuple_def Let_def split: if_splits)

section \<open>Building the index\<close>

text \<open>The size of the bucket array: \<open>None\<close> would be a loop that does not end.\<close>

partial_function (option) bucket_loop :: "nat \<Rightarrow> nat \<Rightarrow> nat option" where
  "bucket_loop capacity buckets =
     (if buckets < capacity * 2 then bucket_loop capacity (buckets * 2) else Some buckets)"

text \<open>\<^verbatim>\<open>hash & (buckets - 1U)\<close>, in the 64 bits of a \<^verbatim>\<open>size_t\<close>.\<close>

definition bucket_of :: "u32 \<Rightarrow> nat \<Rightarrow> nat" where
  "bucket_of hash buckets = unat (ucast hash AND (of_nat buckets - 1) :: u64)"

primrec index_loop :: "nat \<Rightarrow> nat list \<Rightarrow> ca_candidate list \<times> u32 list \<Rightarrow> (ca_candidate list \<times> u32 list) option" where
  "index_loop buckets [] st = Some st"
| "index_loop buckets (i # is) st =
     (let (items, bs) = st; bucket = bucket_of (candidate_hash (cd_key (items ! i))) buckets
      in if i \<ge> length items \<or> bucket \<ge> length bs then None
         else index_loop buckets is
           (items[i := (items ! i)\<lparr>cd_next := bs ! bucket\<rparr>], bs[bucket := of_nat i]))"

definition index_candidates :: "bool \<Rightarrow> ca_candidates \<Rightarrow> (int \<times> ca_candidates) option" where
  "index_candidates malloc cset = do {
     buckets \<leftarrow> bucket_loop (cs_capacity cset) 1;
     if \<not> malloc then Some (-1, cset)
     else do {
       (items, bs) \<leftarrow> index_loop buckets [0..<length (cs_items cset)] (cs_items cset, replicate buckets UINT32_MAX);
       Some (0, cset\<lparr>cs_items := items, cs_buckets := Some bs, cs_bucket_count := buckets\<rparr>)
     }
   }"

section \<open>Searching a bucket\<close>

text \<open>
  The loop of the scan callback over one chain: marks the items that match and tells whether there
  was one.  \<open>None\<close> is a read outside the array or a chain without end.
\<close>

partial_function (option) mark_chain ::
    "nf_conntrack \<Rightarrow> u32 \<Rightarrow> ca_candidate list \<Rightarrow> bool \<Rightarrow> (ca_candidate list \<times> bool) option" where
  "mark_chain ct i items matched =
     (if i = UINT32_MAX then Some (items, matched)
      else if unat i \<ge> length items then None
      else if \<not> tuple_matches (cd_key (items ! unat i)) ct
      then mark_chain ct (cd_next (items ! unat i)) items matched
      else mark_chain ct (cd_next (items ! unat i))
             (items[unat i := (items ! unat i)\<lparr>cd_present := True\<rparr>]) True)"

text \<open>A chain in memory as the list of its indices.\<close>

primrec linked :: "ca_candidate list \<Rightarrow> u32 \<Rightarrow> nat list \<Rightarrow> bool" where
  "linked items s [] \<longleftrightarrow> s = UINT32_MAX"
| "linked items s (i # is) \<longleftrightarrow>
     s \<noteq> UINT32_MAX \<and> unat s = i \<and> i < length items \<and> linked items (cd_next (items ! i)) is"

lemma linked_update:
  assumes "length items' = length items" and "\<And>i. i \<in> set is \<Longrightarrow> cd_next (items' ! i) = cd_next (items ! i)"
  shows "linked items' s is = linked items s is"
  using assms by (induction "is" arbitrary: s) auto

definition set_present :: "nf_conntrack \<Rightarrow> ca_candidate \<Rightarrow> ca_candidate" where
  "set_present ct it = (if tuple_matches (cd_key it) ct then it\<lparr>cd_present := True\<rparr> else it)"

lemma set_present_fields [simp]:
  "cd_key (set_present ct it) = cd_key it" "cd_next (set_present ct it) = cd_next it"
  "cd_state (set_present ct it) = cd_state it"
  by (simp_all add: set_present_def)

lemma mark_chain_linked:
  "linked items s is \<Longrightarrow> distinct is \<Longrightarrow>
    mark_chain ct s items matched =
      Some (fold (\<lambda>i its. its[i := set_present ct (its ! i)]) is items,
            matched \<or> (\<exists>i \<in> set is. tuple_matches (cd_key (items ! i)) ct))"
proof (induction "is" arbitrary: s items matched)
  case Nil
  then show ?case by (subst mark_chain.simps) simp
next
  case (Cons i "is")
  let ?its = "items[i := set_present ct (items ! i)]"
  have "linked ?its (cd_next (items ! i)) is"
    using Cons.prems by (subst linked_update [where items = items]) (auto simp: nth_list_update)
  note IH = Cons.IH [OF this]
  have same: "(\<exists>j \<in> set is. tuple_matches (cd_key (?its ! j)) ct) = (\<exists>j \<in> set is. tuple_matches (cd_key (items ! j)) ct)"
    using Cons.prems by (auto simp: nth_list_update)
  show ?case
  proof (cases "tuple_matches (cd_key (items ! i)) ct")
    case True
    then have "?its = items[i := (items ! i)\<lparr>cd_present := True\<rparr>]" by (simp add: set_present_def)
    with True Cons.prems IH [of True] show ?thesis by (subst mark_chain.simps) simp
  next
    case False
    then have "?its = items" by (simp add: set_present_def)
    with False Cons.prems IH [of matched] same show ?thesis by (subst mark_chain.simps) simp
  qed
qed

lemma fold_marks:
  assumes "distinct is" and "\<forall>i \<in> set is. i < length items"
  shows "length (fold (\<lambda>i its. its[i := f (its ! i)]) is items) = length items"
    and "j < length items \<Longrightarrow>
      fold (\<lambda>i its. its[i := f (its ! i)]) is items ! j = (if j \<in> set is then f (items ! j) else items ! j)"
  using assms by (induction "is" arbitrary: items) (auto simp: nth_list_update)


section \<open>The index is complete\<close>

lemma bucket_loop_power: "\<exists>j. bucket_loop capacity (2 ^ k) = Some (2 ^ j) \<and> capacity * 2 \<le> 2 ^ j"
proof (induction "capacity * 2 - 2 ^ k" arbitrary: k rule: less_induct)
  case less
  show ?case
  proof (cases "(2 :: nat) ^ k < capacity * 2")
    case True
    have "(0 :: nat) < 2 ^ k" by simp
    with True have "capacity * 2 - 2 ^ Suc k < capacity * 2 - 2 ^ k" by (intro diff_less_mono2) auto
    from less [OF this] True show ?thesis by (subst bucket_loop.simps) (simp add: mult.commute)
  next
    case False
    then show ?thesis by (subst bucket_loop.simps) auto
  qed
qed

lemma bucket_of_less: "bucket_of hash (2 ^ j) < 2 ^ j"
proof -
  have "(of_nat (2 ^ j) - 1 :: u64) = mask j" by (simp add: mask_eq_exp_minus_1)
  then have "bucket_of hash (2 ^ j) = unat (take_bit j (ucast hash :: u64))"
    by (simp add: bucket_of_def take_bit_eq_mask)
  then show ?thesis by (simp add: unsigned_take_bit_eq)
qed

text \<open>The indices below \<open>n\<close> whose key hashes to bucket \<open>b\<close>, the last one first.\<close>

definition bucket_indices :: "nat \<Rightarrow> ca_candidate list \<Rightarrow> nat \<Rightarrow> nat \<Rightarrow> nat list" where
  "bucket_indices buckets items n b =
     rev (filter (\<lambda>i. bucket_of (candidate_hash (cd_key (items ! i))) buckets = b) [0..<n])"

definition indexed :: "ca_candidate list \<Rightarrow> nat \<Rightarrow> u32 list \<Rightarrow> nat \<Rightarrow> bool" where
  "indexed items buckets bs n \<longleftrightarrow> length bs = buckets \<and>
     (\<forall>b < buckets. linked items (bs ! b) (bucket_indices buckets items n b))"

lemma bucket_indices_distinct: "distinct (bucket_indices buckets items n b)"
  by (simp add: bucket_indices_def)

lemma bucket_indices_set:
  "i \<in> set (bucket_indices buckets items n b) \<longleftrightarrow>
     i < n \<and> bucket_of (candidate_hash (cd_key (items ! i))) buckets = b"
  by (auto simp: bucket_indices_def)

lemma bucket_indices_Suc:
  "bucket_indices buckets items (Suc n) b =
     (if bucket_of (candidate_hash (cd_key (items ! n))) buckets = b then [n] else []) @ bucket_indices buckets items n b"
  by (simp add: bucket_indices_def)

lemma bucket_indices_keys:
  "map cd_key items' = map cd_key items \<Longrightarrow> n \<le> length items \<Longrightarrow>
    bucket_indices buckets items' n b = bucket_indices buckets items n b"
  unfolding bucket_indices_def
  by (rule arg_cong [where f = rev], rule filter_cong)
    (auto, (metis length_map nth_map order_less_le_trans)+)

lemma index_step_indexed:
  assumes ix: "indexed items buckets bs n" and n: "n < length items" "length items < 2 ^ 32 - 1"
    and b: "b = bucket_of (candidate_hash (cd_key (items ! n))) buckets" "b < buckets"
  shows "indexed (items[n := (items ! n)\<lparr>cd_next := bs ! b\<rparr>]) buckets (bs[b := of_nat n]) (Suc n)"
proof -
  let ?its = "items[n := (items ! n)\<lparr>cd_next := bs ! b\<rparr>]"
  have keys: "map cd_key ?its = map cd_key items"
    using n(1) by (intro nth_equalityI) (auto simp: nth_list_update)
  have bi: "bucket_indices buckets ?its m c = bucket_indices buckets items m c" if "m \<le> length items" for m c
    using bucket_indices_keys [OF keys that] .
  have old: "linked ?its (bs ! c) (bucket_indices buckets items n c)" if "c < buckets" for c
    using ix that
    by (subst linked_update [where items = items]) (auto simp: indexed_def bucket_indices_set nth_list_update)
  have "of_nat n \<noteq> UINT32_MAX"
  proof
    assume "of_nat n = UINT32_MAX"
    then have "unat (of_nat n :: u32) = unat UINT32_MAX" by (rule arg_cong)
    with n show False by simp
  qed
  moreover have "unat (of_nat n :: u32) = n" using n by simp
  ultimately have new: "linked ?its (of_nat n) (n # bucket_indices buckets items n b)"
    using old [OF b(2)] n by simp
  have len: "length bs = buckets" using ix by (simp add: indexed_def)
  show ?thesis
    unfolding indexed_def
  proof (intro conjI allI impI)
    fix c assume "c < buckets"
    then show "linked ?its (bs[b := of_nat n] ! c) (bucket_indices buckets ?its (Suc n) c)"
      using old [of c] new n b len bi [of "Suc n" c]
      by (cases "c = b") (simp_all add: bucket_indices_Suc nth_list_update)
  qed (simp add: len)
qed

lemma index_loop_indexed:
  assumes "indexed items buckets bs n" and "length items < 2 ^ 32 - 1" and "n + k \<le> length items"
    and lt: "\<And>h. bucket_of h buckets < buckets"
  shows "\<exists>items' bs'. index_loop buckets [n..<n + k] (items, bs) = Some (items', bs') \<and>
    indexed items' buckets bs' (n + k) \<and> length items' = length items \<and>
    (\<forall>i < length items. \<exists>x. items' ! i = (items ! i)\<lparr>cd_next := x\<rparr>)"
  using assms(1-3)
proof (induction k arbitrary: items bs n)
  case 0
  have "\<exists>x. it = it\<lparr>cd_next := x\<rparr>" for it :: ca_candidate
    by (rule exI [of _ "cd_next it"]) simp
  with 0 show ?case by auto
next
  case (Suc k)
  let ?b = "bucket_of (candidate_hash (cd_key (items ! n))) buckets"
  let ?its = "items[n := (items ! n)\<lparr>cd_next := bs ! ?b\<rparr>]"
  have n: "n < length items" "n < n + Suc k" using Suc.prems by simp_all
  have "indexed ?its buckets (bs[?b := of_nat n]) (Suc n)"
    using Suc.prems(1) n(1) Suc.prems(2) refl lt by (rule index_step_indexed)
  moreover have "length ?its < 2 ^ 32 - 1" "Suc n + k \<le> length ?its" using Suc.prems by simp_all
  ultimately obtain items' bs' where
    IH: "index_loop buckets [Suc n..<Suc n + k] (?its, bs[?b := of_nat n]) = Some (items', bs')"
      "indexed items' buckets bs' (Suc n + k)" "length items' = length ?its"
      "\<forall>i < length ?its. \<exists>x. items' ! i = (?its ! i)\<lparr>cd_next := x\<rparr>"
    using Suc.IH by blast
  have "\<exists>x. items' ! i = (items ! i)\<lparr>cd_next := x\<rparr>" if i: "i < length items" for i
    using IH(4) i by (cases "i = n") (auto simp: nth_list_update dest!: spec [of _ i])
  moreover have "index_loop buckets [n..<n + Suc k] (items, bs) = Some (items', bs')"
  proof -
    have "[n..<n + Suc k] = n # [Suc n..<Suc n + k]" using n(2) by (simp add: upt_conv_Cons del: upt_Suc)
    moreover have "length bs = buckets" using Suc.prems(1) by (simp add: indexed_def)
    ultimately show ?thesis
      using n(1) lt [of "candidate_hash (cd_key (items ! n))"] IH(1) by (simp add: Let_def del: upt_Suc)
  qed
  ultimately show ?case using IH by auto
qed

text \<open>What a built index promises its users.\<close>

definition index_wf :: "ca_candidates \<Rightarrow> bool" where
  "index_wf cset \<longleftrightarrow>
     (case cs_buckets cset of
        None \<Rightarrow> cs_items cset = []
      | Some bs \<Rightarrow> (\<exists>j. cs_bucket_count cset = 2 ^ j) \<and>
          indexed (cs_items cset) (cs_bucket_count cset) bs (length (cs_items cset)))"

lemma index_candidates_total:
  assumes "length (cs_items cset) < 2 ^ 32 - 1"
  obtains (nomem) "index_candidates malloc cset = Some (-1, cset)" "\<not> malloc"
  | (built) cset' where "index_candidates malloc cset = Some (0, cset')" "index_wf cset'" "cs_buckets cset' \<noteq> None"
      "length (cs_items cset') = length (cs_items cset)"
      "\<forall>i < length (cs_items cset). \<exists>x. cs_items cset' ! i = (cs_items cset ! i)\<lparr>cd_next := x\<rparr>"
      "cs_capacity cset' = cs_capacity cset" "cs_overflow cset' = cs_overflow cset" "malloc"
proof -
  obtain j where j: "bucket_loop (cs_capacity cset) (2 ^ 0) = Some (2 ^ j)"
    using bucket_loop_power by blast
  let ?n = "length (cs_items cset)"
  have "indexed (cs_items cset) (2 ^ j) (replicate (2 ^ j) UINT32_MAX) 0"
    by (simp add: indexed_def bucket_indices_def)
  from index_loop_indexed [OF this assms, of ?n] obtain items bs where
    l: "index_loop (2 ^ j) [0..<?n] (cs_items cset, replicate (2 ^ j) UINT32_MAX) = Some (items, bs)"
      "indexed items (2 ^ j) bs ?n" "length items = ?n"
      "\<forall>i < ?n. \<exists>x. items ! i = (cs_items cset ! i)\<lparr>cd_next := x\<rparr>"
    using bucket_of_less by auto
  show thesis
  proof (cases malloc)
    case True
    then have run: "index_candidates malloc cset =
        Some (0, cset\<lparr>cs_items := items, cs_buckets := Some bs, cs_bucket_count := 2 ^ j\<rparr>)"
      using j l(1) by (simp add: index_candidates_def)
    from l True show thesis by (intro built [OF run]) (auto simp: index_wf_def)
  next
    case False
    then show thesis using j by (intro nomem) (simp_all add: index_candidates_def)
  qed
qed


section \<open>Searching one bucket is searching everything\<close>

text \<open>
  What a hash index needs of its two hash functions: a key and a probe that belong together have the
  same hash.  Then the bucket of the probe holds every key it can hit.
\<close>

locale hash_index =
  fixes key_hash :: "'k \<Rightarrow> 'h" and probe_hash :: "'q \<Rightarrow> 'h option" and hits :: "'k \<Rightarrow> 'q \<Rightarrow> bool"
  assumes hits_hash: "hits k q \<Longrightarrow> probe_hash q = Some (key_hash k)"
begin

lemma hit_bucket: "hits k q \<Longrightarrow> probe_hash q = Some h \<Longrightarrow> place (key_hash k) = place h"
  using hits_hash by simp

lemma search_complete:
  assumes "probe_hash q = Some h" and "\<And>i. i \<in> I \<longleftrightarrow> i \<in> A \<and> place (key_hash (key i)) = place h"
  shows "(\<exists>i \<in> I. hits (key i) q) \<longleftrightarrow> (\<exists>i \<in> A. hits (key i) q)"
  using assms hit_bucket by blast

lemma search_marks:
  assumes "probe_hash q = Some h" and "i \<in> A" and "i \<notin> I"
    and "\<And>i. i \<in> I \<longleftrightarrow> i \<in> A \<and> place (key_hash (key i)) = place h"
  shows "\<not> hits (key i) q"
  using assms hit_bucket by blast

end

interpretation tuples: hash_index candidate_hash conntrack_hash tuple_matches
  by unfold_locales (rule matching_hash)

text \<open>The entry belongs to some candidate.\<close>

definition matched_by :: "ca_candidates \<Rightarrow> nf_conntrack \<Rightarrow> bool" where
  "matched_by cset ct \<longleftrightarrow> (\<exists>it \<in> set (cs_items cset). tuple_matches (cd_key it) ct)"

lemma index_search:
  assumes wf: "index_wf cset" and bs: "cs_buckets cset = Some bs" and h: "conntrack_hash ct = Some h"
  shows "bucket_of h (cs_bucket_count cset) < length bs \<and>
    mark_chain ct (bs ! bucket_of h (cs_bucket_count cset)) (cs_items cset) False =
      Some (map (set_present ct) (cs_items cset), matched_by cset ct)"
proof -
  let ?items = "cs_items cset" and ?n = "cs_bucket_count cset"
  let ?b = "bucket_of h ?n"
  let ?is = "bucket_indices ?n ?items (length ?items) ?b"
  obtain j where j: "?n = 2 ^ j" and ix: "indexed ?items ?n bs (length ?items)"
    using wf bs by (auto simp: index_wf_def)
  have b: "?b < ?n" unfolding j by (rule bucket_of_less)
  have mem: "i \<in> set ?is \<longleftrightarrow> i \<in> {..<length ?items} \<and>
      bucket_of (candidate_hash (cd_key (?items ! i))) ?n = ?b" for i
    by (simp add: bucket_indices_set)
  have "mark_chain ct (bs ! ?b) ?items False =
      Some (fold (\<lambda>i its. its[i := set_present ct (its ! i)]) ?is ?items,
            False \<or> (\<exists>i \<in> set ?is. tuple_matches (cd_key (?items ! i)) ct))"
    using ix b by (intro mark_chain_linked bucket_indices_distinct) (simp add: indexed_def)
  moreover have "fold (\<lambda>i its. its[i := set_present ct (its ! i)]) ?is ?items = map (set_present ct) ?items"
  proof (rule nth_equalityI)
    have valid: "\<forall>i \<in> set ?is. i < length ?items" using mem by simp
    note marks = fold_marks [OF bucket_indices_distinct valid, where f = "set_present ct"]
    show "length (fold (\<lambda>i its. its[i := set_present ct (its ! i)]) ?is ?items) = length (map (set_present ct) ?items)"
      using marks(1) by simp
    fix i assume "i < length (fold (\<lambda>i its. its[i := set_present ct (its ! i)]) ?is ?items)"
    then have i: "i < length ?items" using marks(1) by simp
    show "fold (\<lambda>i its. its[i := set_present ct (its ! i)]) ?is ?items ! i = map (set_present ct) ?items ! i"
    proof (cases "i \<in> set ?is")
      case False
      then have "\<not> tuple_matches (cd_key (?items ! i)) ct"
        using i mem by (intro tuples.search_marks [OF h, of i "{..<length ?items}" "set ?is" "\<lambda>x. bucket_of x ?n"]) simp_all
      with False i marks(2) [OF i] show ?thesis by (simp add: set_present_def)
    qed (use i marks(2) [OF i] in simp)
  qed
  moreover have "(\<exists>i \<in> set ?is. tuple_matches (cd_key (?items ! i)) ct) = matched_by cset ct"
    using tuples.search_complete [OF h mem] by (auto simp: matched_by_def set_conv_nth)
  ultimately show ?thesis using ix b by (simp add: indexed_def)
qed

text \<open>Changing only what the chains do not read keeps the index.\<close>

lemma index_wf_map:
  assumes wf: "index_wf cset" and keep: "\<And>it. cd_key (f it) = cd_key it" "\<And>it. cd_next (f it) = cd_next it"
  shows "index_wf (cset\<lparr>cs_items := map f (cs_items cset)\<rparr>)"
proof (cases "cs_buckets cset")
  case None
  with wf show ?thesis by (simp add: index_wf_def)
next
  case (Some bs)
  let ?items = "cs_items cset" and ?n = "cs_bucket_count cset"
  have keys: "map cd_key (map f ?items) = map cd_key ?items" using keep(1) by simp
  have "linked (map f ?items) s (bucket_indices ?n (map f ?items) (length ?items) b) =
      linked ?items s (bucket_indices ?n ?items (length ?items) b)" for s b
    unfolding bucket_indices_keys [OF keys order_refl]
    by (rule linked_update) (simp_all add: bucket_indices_set keep)
  then have "indexed (map f ?items) ?n bs (length ?items)"
    using wf Some by (auto simp: index_wf_def indexed_def)
  with wf Some show ?thesis by (simp add: index_wf_def)
qed

end
