(* ===== verification/Sfo_Scan.thy ===== *)
theory Sfo_Scan
  imports Sfo_Index Map_Walk Libc
begin

text \<open>
  The three passes of \<^verbatim>\<open>sfo/client-access-sfoctl.c\<close>: collecting the candidate flows from
  the flow map, scanning a dump of the conntrack table, and destroying conntrack entries.

  The answers of the kernel and of libnetfilter_conntrack are the record \<open>sfo_env\<close>.  A call that is
  repeated is a function of the number of its repetition, so the table may change in any way between
  two dumps: \<open>sv_dump p\<close> is the status and the entries of the dump of pass \<open>p\<close>,
  \<open>sv_destroy p i\<close> the status of destroying the \<open>i\<close>-th entry of the list of pass \<open>p\<close>.
\<close>

section \<open>The environment\<close>

datatype clock_site = Clock_Start | Clock_Pass nat | Clock_End | Clock_Out

record sfo_env =
  sv_calloc_items :: bool
  sv_calloc_matches :: bool
  sv_malloc_buckets :: bool
  sv_obj_get :: "nat \<Rightarrow> bool"
  sv_flows :: "(ca_flow_key, ca_flow_state) map_ops"
  sv_meanwhile :: "(ca_flow_key \<rightharpoonup> ca_flow_state) \<Rightarrow> (ca_flow_key \<rightharpoonup> ca_flow_state)"
  sv_clock :: "clock_site \<Rightarrow> (u64 \<times> u64) option"
  sv_scan_open :: "nat \<Rightarrow> bool"
  sv_register :: "nat \<Rightarrow> int"
  sv_dump :: "nat \<Rightarrow> int \<times> nf_conntrack list"
  sv_clone :: "nat \<Rightarrow> u32 \<Rightarrow> bool"
  sv_delete_open :: "nat \<Rightarrow> bool"
  sv_destroy :: "nat \<Rightarrow> nat \<Rightarrow> int"
  sv_einval_on_empty :: bool

abbreviation (input) CA_SFO_MAX_CANDIDATES :: nat where "CA_SFO_MAX_CANDIDATES \<equiv> 4096"
abbreviation (input) CA_SFO_MAX_CONNTRACK_SNAPSHOT :: u32 where "CA_SFO_MAX_CONNTRACK_SNAPSHOT \<equiv> 32768"
abbreviation (input) IPS_OFFLOAD :: u32 where "IPS_OFFLOAD \<equiv> 0x4000"
abbreviation (input) IPS_HW_OFFLOAD :: u32 where "IPS_HW_OFFLOAD \<equiv> 0x8000"

section \<open>Collecting candidates\<close>

definition collect_body ::
    "(ca_flow_key \<rightharpoonup> ca_flow_state) \<Rightarrow> bool \<Rightarrow> u32 \<Rightarrow> bool \<Rightarrow> u16 \<Rightarrow> ca_flow_key \<Rightarrow> ca_candidates \<Rightarrow> ca_candidates \<times> bool" where
  "collect_body m have_subject subject_id have_class class_id key cset =
     (case m key of
        None \<Rightarrow> (cset, False)
      | Some state \<Rightarrow>
          if (\<not> have_subject \<or> fk_subject_id key = subject_id) \<and> supported_flow key \<and>
             (\<not> have_class \<or> fs_class_id state = class_id)
          then if length (cs_items cset) \<ge> cs_capacity cset
               then (cset\<lparr>cs_overflow := True\<rparr>, True)
               else (cset\<lparr>cs_items := cs_items cset @
                      [\<lparr>cd_key = key, cd_state = state, cd_next = 0, cd_present = False\<rparr>]\<rparr>, False)
          else (cset, False))"

definition collect_candidates ::
    "sfo_env \<Rightarrow> (ca_flow_key \<rightharpoonup> ca_flow_state) \<Rightarrow> ca_candidates \<Rightarrow> bool \<Rightarrow> u32 \<Rightarrow> bool \<Rightarrow> u16 \<Rightarrow> (int \<times> ca_candidates) option" where
  "collect_candidates E m cset have_subject subject_id have_class class_id =
     (if \<not> sv_obj_get E 0 then Some (-1, cset)
      else case mo_next_key (sv_flows E) m None of
        Inl e \<Rightarrow> Some (if e = ENOENT then 0 else -1, cset)
      | Inr key \<Rightarrow> do {
          cset' \<leftarrow> each_key (\<lambda>_ k. mo_next_key (sv_flows E) m (Some k))
                    (collect_body m have_subject subject_id have_class class_id) key cset;
          if cs_overflow cset' then Some (- E2BIG, cset') else index_candidates (sv_malloc_buckets E) cset'
        })"

section \<open>The scan callback\<close>

record ca_ct_list =
  cl_items :: "nf_conntrack list"
  cl_capacity :: nat
  cl_overflow :: bool

record ca_scan =
  sc_candidates :: "ca_candidates option"
  sc_matches :: "ca_ct_list option"
  sc_entries :: u32
  sc_software_offloaded :: u32
  sc_hardware_offloaded :: u32
  sc_snapshot_overflow :: bool
  sc_offloaded_only :: bool

definition zero_scan :: ca_scan where
  "zero_scan = \<lparr>sc_candidates = None, sc_matches = None, sc_entries = 0, sc_software_offloaded = 0,
     sc_hardware_offloaded = 0, sc_snapshot_overflow = False, sc_offloaded_only = False\<rparr>"

definition ct_status :: "nf_conntrack \<Rightarrow> u32" where
  "ct_status ct = (if ct_has (ct_status_attr ct) then nfct_num (ct_status_attr ct) else 0)"

text \<open>\<open>clone\<close>: whether \<^verbatim>\<open>nfct_clone\<close> found memory.\<close>

definition append_ct :: "bool \<Rightarrow> ca_ct_list \<Rightarrow> nf_conntrack \<Rightarrow> int \<times> ca_ct_list" where
  "append_ct clone cts ct =
     (if length (cl_items cts) \<ge> cl_capacity cts then (-1, cts\<lparr>cl_overflow := True\<rparr>)
      else if \<not> clone then (-1, cts\<lparr>cl_overflow := True\<rparr>)
      else (0, cts\<lparr>cl_items := cl_items cts @ [ct]\<rparr>))"

datatype cb_result = NFCT_CB_STOP | NFCT_CB_CONTINUE

text \<open>Appending to the list of matches, when the scan has one, and the verdict of the callback.\<close>

definition scan_append :: "bool \<Rightarrow> nf_conntrack \<Rightarrow> ca_scan \<Rightarrow> ca_scan" where
  "scan_append clone ct scan =
     (case sc_matches scan of None \<Rightarrow> scan
      | Some cts \<Rightarrow> scan\<lparr>sc_matches := Some (snd (append_ct clone cts ct))\<rparr>)"

definition scan_verdict :: "ca_scan \<Rightarrow> cb_result" where
  "scan_verdict scan =
     (case sc_matches scan of None \<Rightarrow> NFCT_CB_CONTINUE
      | Some cts \<Rightarrow> if cl_overflow cts then NFCT_CB_STOP else NFCT_CB_CONTINUE)"

text \<open>The counters of the callback, before it looks at the tuple.\<close>

definition scan_count :: "u32 \<Rightarrow> ca_scan \<Rightarrow> ca_scan" where
  "scan_count status scan =
     (let scan1 = (if status AND IPS_HW_OFFLOAD \<noteq> 0
                   then scan\<lparr>sc_hardware_offloaded := sc_hardware_offloaded scan + 1\<rparr> else scan)
      in if status AND IPS_OFFLOAD \<noteq> 0
         then scan1\<lparr>sc_software_offloaded := sc_software_offloaded scan1 + 1\<rparr> else scan1)"

definition scan_cb :: "(u32 \<Rightarrow> bool) \<Rightarrow> nf_conntrack \<Rightarrow> ca_scan \<Rightarrow> (cb_result \<times> ca_scan) option" where
  "scan_cb clone ct scan0 =
     (let status = ct_status ct;
          scan1 = scan0\<lparr>sc_entries := sc_entries scan0 + 1\<rparr>
      in if sc_entries scan1 > CA_SFO_MAX_CONNTRACK_SNAPSHOT
         then Some (NFCT_CB_STOP, scan1\<lparr>sc_snapshot_overflow := True\<rparr>)
         else let scan = scan_count status scan1 in
           if sc_offloaded_only scan
           then let scan' = (if status AND IPS_OFFLOAD \<noteq> 0 \<and> status AND IPS_HW_OFFLOAD = 0
                             then scan_append (clone (sc_entries scan)) ct scan else scan)
                in Some (scan_verdict scan', scan')
           else case sc_candidates scan of
             None \<Rightarrow> Some (NFCT_CB_CONTINUE, scan)
           | Some cset \<Rightarrow>
               if cs_items cset = [] then Some (NFCT_CB_CONTINUE, scan)
               else if \<not> supported_conntrack_tuple ct \<or> cs_buckets cset = None
               then Some (NFCT_CB_CONTINUE, scan)
               else do {
                 hash \<leftarrow> conntrack_hash ct;
                 bs \<leftarrow> cs_buckets cset;
                 let bucket = bucket_of hash (cs_bucket_count cset);
                 if bucket \<ge> length bs then None
                 else do {
                   (items, matched) \<leftarrow> mark_chain ct (bs ! bucket) (cs_items cset) False;
                   let scan' = scan\<lparr>sc_candidates := Some (cset\<lparr>cs_items := items\<rparr>)\<rparr>;
                   let scan'' = (if matched then scan_append (clone (sc_entries scan)) ct scan' else scan');
                   Some (scan_verdict scan'', scan'')
                 }
               })"

section \<open>A dump\<close>

text \<open>The library calls back for each entry until the callback says stop.\<close>

primrec dump_entries :: "(u32 \<Rightarrow> bool) \<Rightarrow> nf_conntrack list \<Rightarrow> ca_scan \<Rightarrow> ca_scan option" where
  "dump_entries clone [] scan = Some scan"
| "dump_entries clone (ct # cts) scan = do {
     (verdict, scan') \<leftarrow> scan_cb clone ct scan;
     if verdict = NFCT_CB_STOP then Some scan' else dump_entries clone cts scan'
   }"

definition conntrack_scan :: "sfo_env \<Rightarrow> nat \<Rightarrow> ca_scan \<Rightarrow> (int \<times> ca_scan) option" where
  "conntrack_scan E pass scan =
     (if \<not> sv_scan_open E pass then Some (-1, scan)
      else if sv_register E pass \<noteq> 0 then Some (-1, scan)
      else do {
        scan' \<leftarrow> dump_entries (sv_clone E pass) (snd (sv_dump E pass)) scan;
        Some (fst (sv_dump E pass), scan')
      })"

section \<open>Linear reference\<close>

text \<open>
  The callback without the index: every candidate is compared with the entry.  \<open>scan_ok\<close>: the index
  is built and the list has not overflowed, which would have ended the dump.
\<close>

definition scan_ok :: "ca_scan \<Rightarrow> bool" where
  "scan_ok scan \<longleftrightarrow> (\<forall>cset. sc_candidates scan = Some cset \<longrightarrow> index_wf cset) \<and>
     (\<forall>cts. sc_matches scan = Some cts \<longrightarrow> \<not> cl_overflow cts)"

definition mark_all :: "nf_conntrack \<Rightarrow> ca_candidates \<Rightarrow> ca_candidates" where
  "mark_all ct cset =
     (if supported_conntrack_tuple ct then cset\<lparr>cs_items := map (set_present ct) (cs_items cset)\<rparr> else cset)"

text \<open>Whether a scan is after this entry.\<close>

definition wanted :: "ca_scan \<Rightarrow> nf_conntrack \<Rightarrow> bool" where
  "wanted scan ct \<longleftrightarrow>
     (if sc_offloaded_only scan
      then ct_status ct AND IPS_OFFLOAD \<noteq> 0 \<and> ct_status ct AND IPS_HW_OFFLOAD = 0
      else supported_conntrack_tuple ct \<and> (\<exists>cset. sc_candidates scan = Some cset \<and> matched_by cset ct))"

definition scan_linear :: "(u32 \<Rightarrow> bool) \<Rightarrow> nf_conntrack \<Rightarrow> ca_scan \<Rightarrow> cb_result \<times> ca_scan" where
  "scan_linear clone ct scan0 =
     (let scan1 = scan0\<lparr>sc_entries := sc_entries scan0 + 1\<rparr>
      in if sc_entries scan1 > CA_SFO_MAX_CONNTRACK_SNAPSHOT
         then (NFCT_CB_STOP, scan1\<lparr>sc_snapshot_overflow := True\<rparr>)
         else let scan2 = scan_count (ct_status ct) scan1;
                  scan3 = (if sc_offloaded_only scan2 then scan2
                           else scan2\<lparr>sc_candidates := map_option (mark_all ct) (sc_candidates scan2)\<rparr>);
                  scan4 = (if wanted scan0 ct then scan_append (clone (sc_entries scan1)) ct scan3 else scan3)
              in (scan_verdict scan4, scan4))"

lemma scan_count_fields [simp]:
  "sc_candidates (scan_count st scan) = sc_candidates scan" "sc_matches (scan_count st scan) = sc_matches scan"
  "sc_entries (scan_count st scan) = sc_entries scan" "sc_offloaded_only (scan_count st scan) = sc_offloaded_only scan"
  "sc_snapshot_overflow (scan_count st scan) = sc_snapshot_overflow scan"
  by (simp_all add: scan_count_def Let_def)

lemma scan_verdict_matches:
  "sc_matches scan = sc_matches scan' \<Longrightarrow> scan_verdict scan = scan_verdict scan'"
  by (simp add: scan_verdict_def)

lemma scan_ok_verdict: "scan_ok scan \<Longrightarrow> sc_matches scan' = sc_matches scan \<Longrightarrow> scan_verdict scan' = NFCT_CB_CONTINUE"
  by (auto simp: scan_ok_def scan_verdict_def split: option.split)

lemma scan_candidates_self: "sc_candidates scan = x \<Longrightarrow> scan\<lparr>sc_candidates := x\<rparr> = scan"
  by (cases scan) simp

lemma mark_all_empty: "cs_items cset = [] \<Longrightarrow> mark_all ct cset = cset"
  by (cases cset) (simp add: mark_all_def)

lemma index_wf_buckets: "index_wf cset \<Longrightarrow> cs_items cset \<noteq> [] \<Longrightarrow> \<exists>bs. cs_buckets cset = Some bs"
  by (auto simp: index_wf_def split: option.splits)

lemma scan_cb_linear:
  assumes ok: "scan_ok scan0"
  shows "scan_cb clone ct scan0 = Some (scan_linear clone ct scan0)"
proof -
  let ?s1 = "scan0\<lparr>sc_entries := sc_entries scan0 + 1\<rparr>"
  let ?s2 = "scan_count (ct_status ct) ?s1"
  have cont: "scan_verdict ?s2 = NFCT_CB_CONTINUE" by (rule scan_ok_verdict [OF ok]) simp
  show ?thesis
  proof (cases "sc_entries ?s1 > CA_SFO_MAX_CONNTRACK_SNAPSHOT \<or> sc_offloaded_only scan0")
    case True
    then show ?thesis by (auto simp: scan_cb_def scan_linear_def wanted_def Let_def)
  next
    case False
    show ?thesis
    proof (cases "sc_candidates scan0")
      case None
      then show ?thesis
        using False cont by (simp add: scan_cb_def scan_linear_def wanted_def Let_def scan_candidates_self)
    next
      case (Some cset)
      have wf: "index_wf cset" using ok Some by (simp add: scan_ok_def)
      show ?thesis
      proof (cases "cs_items cset = [] \<or> \<not> supported_conntrack_tuple ct")
        case True
        then have "mark_all ct cset = cset" "\<not> wanted scan0 ct"
          using False Some by (auto simp: mark_all_empty wanted_def matched_by_def) (simp add: mark_all_def)
        then show ?thesis
          using False Some True cont
          by (auto simp: scan_cb_def scan_linear_def Let_def scan_candidates_self)
      next
        case work: False
        obtain bs where bs: "cs_buckets cset = Some bs" using index_wf_buckets [OF wf] work by blast
        obtain h where h: "conntrack_hash ct = Some h"
          using conntrack_hash_defined work by (auto simp: defined_def)
        from index_search [OF wf bs h] have
          b: "\<not> length bs \<le> bucket_of h (cs_bucket_count cset)" and
          m: "mark_chain ct (bs ! bucket_of h (cs_bucket_count cset)) (cs_items cset) False =
            Some (map (set_present ct) (cs_items cset), matched_by cset ct)" by simp_all
        have w: "wanted scan0 ct = matched_by cset ct" using False Some work by (simp add: wanted_def)
        show ?thesis
          using False Some work bs h b m
          by (simp add: scan_cb_def scan_linear_def Let_def w mark_all_def)
      qed
    qed
  qed
qed

end
