(* ===== verification/Sfo_Dump.thy ===== *)
theory Sfo_Dump
  imports Sfo_Scan
begin

text \<open>
  What a whole pass gives: a clean scan has compared every entry of the dump with every candidate, and
  a successful collection has found every flow of the map that was asked for.
\<close>

section \<open>Clean scans\<close>

definition clean :: "ca_scan \<Rightarrow> bool" where
  "clean scan \<longleftrightarrow> \<not> sc_snapshot_overflow scan \<and> (\<forall>cts. sc_matches scan = Some cts \<longrightarrow> \<not> cl_overflow cts)"

definition hw_offloaded :: "nf_conntrack \<Rightarrow> bool" where
  "hw_offloaded ct \<longleftrightarrow> ct_status ct AND IPS_HW_OFFLOAD \<noteq> 0"

definition sw_offloaded :: "nf_conntrack \<Rightarrow> bool" where
  "sw_offloaded ct \<longleftrightarrow> ct_status ct AND IPS_OFFLOAD \<noteq> 0"

text \<open>The entry is the conntrack entry of the flow.\<close>

definition entry_of :: "ca_flow_key \<Rightarrow> nf_conntrack \<Rightarrow> bool" where
  "entry_of key ct \<longleftrightarrow> supported_conntrack_tuple ct \<and> tuple_matches key ct"

definition set_seen :: "nf_conntrack list \<Rightarrow> ca_candidate \<Rightarrow> ca_candidate" where
  "set_seen cts it = it\<lparr>cd_present := (cd_present it \<or> (\<exists>ct \<in> set cts. entry_of (cd_key it) ct))\<rparr>"

definition see :: "nf_conntrack list \<Rightarrow> ca_candidates \<Rightarrow> ca_candidates" where
  "see cts cset = cset\<lparr>cs_items := map (set_seen cts) (cs_items cset)\<rparr>"

definition add_matches :: "nf_conntrack list \<Rightarrow> ca_ct_list \<Rightarrow> ca_ct_list" where
  "add_matches new cts = cts\<lparr>cl_items := cl_items cts @ new\<rparr>"

lemma see_Nil: "see [] cset = cset"
proof -
  have "set_seen [] = (\<lambda>it. it)" by (simp add: set_seen_def fun_eq_iff)
  then show ?thesis by (simp add: see_def)
qed

lemma see_Cons: "see (ct # cts) cset = see cts (mark_all ct cset)"
proof -
  have "set_seen (ct # cts) it = set_seen cts (if supported_conntrack_tuple ct then set_present ct it else it)" for it
    by (cases it) (auto simp: set_seen_def set_present_def entry_of_def)
  then show ?thesis by (auto simp: see_def mark_all_def)
qed

lemma mark_all_keys: "map cd_key (cs_items (mark_all ct cset)) = map cd_key (cs_items cset)"
  by (simp add: mark_all_def)

lemma matched_by_keys:
  assumes "map cd_key (cs_items c) = map cd_key (cs_items c')"
  shows "matched_by c ct = matched_by c' ct"
proof -
  have "matched_by x ct \<longleftrightarrow> (\<exists>k \<in> set (map cd_key (cs_items x)). tuple_matches k ct)" for x
    by (simp add: matched_by_def)
  then show ?thesis using assms by (simp only:)
qed

lemma mark_all_wf: "index_wf cset \<Longrightarrow> index_wf (mark_all ct cset)"
  using index_wf_map [of cset "set_present ct"] by (simp add: mark_all_def)

text \<open>A step that goes on.\<close>

lemma scan_linear_continue:
  assumes ok: "scan_ok scan" and go: "fst (scan_linear clone ct scan) = NFCT_CB_CONTINUE"
  defines "scan' \<equiv> snd (scan_linear clone ct scan)"
  shows "scan_ok scan' \<and> wanted scan' = wanted scan \<and> sc_offloaded_only scan' = sc_offloaded_only scan \<and>
    sc_entries scan' = sc_entries scan + 1 \<and> sc_entries scan + 1 \<le> CA_SFO_MAX_CONNTRACK_SNAPSHOT \<and>
    sc_hardware_offloaded scan' = sc_hardware_offloaded scan + (if hw_offloaded ct then 1 else 0) \<and>
    sc_software_offloaded scan' = sc_software_offloaded scan + (if sw_offloaded ct then 1 else 0) \<and>
    sc_candidates scan' = (if sc_offloaded_only scan then sc_candidates scan
      else map_option (mark_all ct) (sc_candidates scan)) \<and>
    sc_matches scan' = map_option (add_matches (if wanted scan ct then [ct] else [])) (sc_matches scan)"
proof -
  let ?s1 = "scan\<lparr>sc_entries := sc_entries scan + 1\<rparr>"
  let ?s2 = "scan_count (ct_status ct) ?s1"
  let ?s3 = "if sc_offloaded_only scan then ?s2
    else ?s2\<lparr>sc_candidates := map_option (mark_all ct) (sc_candidates scan)\<rparr>"
  let ?s4 = "if wanted scan ct then scan_append (clone (sc_entries ?s1)) ct ?s3 else ?s3"
  have limit: "sc_entries scan + 1 \<le> CA_SFO_MAX_CONNTRACK_SNAPSHOT"
    using go by (simp add: scan_linear_def Let_def split: if_splits)
  then have "\<not> CA_SFO_MAX_CONNTRACK_SNAPSHOT < sc_entries ?s1" by (simp add: not_less)
  then have "scan_linear clone ct scan = (scan_verdict ?s4, ?s4)"
    unfolding scan_linear_def Let_def by (simp del: if_split)
  then have s': "scan' = ?s4" "scan_verdict ?s4 = NFCT_CB_CONTINUE"
    using go by (simp_all add: scan'_def del: if_split)
  have m: "sc_matches ?s4 = map_option (add_matches (if wanted scan ct then [ct] else [])) (sc_matches scan)"
    and quiet: "\<And>cts. sc_matches ?s4 = Some cts \<Longrightarrow> \<not> cl_overflow cts"
    using s'(2)
    by (auto simp: scan_verdict_def scan_append_def append_ct_def add_matches_def split: option.splits if_splits)
  have c: "sc_candidates ?s4 = (if sc_offloaded_only scan then sc_candidates scan
      else map_option (mark_all ct) (sc_candidates scan))"
    by (simp add: scan_append_def split: option.split)
  have o: "sc_offloaded_only ?s4 = sc_offloaded_only scan"
    by (simp add: scan_append_def split: option.split)
  have "wanted t = wanted scan" if "sc_offloaded_only t = sc_offloaded_only scan"
      "sc_candidates t = (if sc_offloaded_only scan then sc_candidates scan
         else map_option (mark_all ct) (sc_candidates scan))" for t
    using that by (auto simp: fun_eq_iff wanted_def matched_by_keys [OF mark_all_keys])
  from this [OF o c] have "wanted ?s4 = wanted scan" .
  moreover have "scan_ok ?s4"
    using ok quiet by (auto simp: scan_ok_def c intro: mark_all_wf)
  moreover have "sc_entries ?s4 = sc_entries scan + 1"
    "sc_hardware_offloaded ?s4 = sc_hardware_offloaded scan + (if hw_offloaded ct then 1 else 0)"
    "sc_software_offloaded ?s4 = sc_software_offloaded scan + (if sw_offloaded ct then 1 else 0)"
    by (simp_all add: scan_append_def scan_count_def Let_def hw_offloaded_def sw_offloaded_def split: option.split)
  ultimately show ?thesis using limit m c o by (simp add: s')
qed

lemma scan_linear_stop:
  assumes "scan_ok scan" and "fst (scan_linear clone ct scan) = NFCT_CB_STOP"
  shows "\<not> clean (snd (scan_linear clone ct scan))"
  using assms by (auto simp: scan_linear_def Let_def clean_def scan_verdict_def split: if_splits option.splits)

text \<open>A whole dump: it never faults, and when it is clean every entry was seen.\<close>

lemma dump_spec:
  assumes "scan_ok scan"
  obtains s where "dump_entries clone cts scan = Some s"
    and "clean s \<Longrightarrow>
      sc_entries s = sc_entries scan + of_nat (length cts) \<and>
      sc_hardware_offloaded s = sc_hardware_offloaded scan + of_nat (length (filter hw_offloaded cts)) \<and>
      sc_software_offloaded s = sc_software_offloaded scan + of_nat (length (filter sw_offloaded cts)) \<and>
      sc_candidates s = (if sc_offloaded_only scan then sc_candidates scan else map_option (see cts) (sc_candidates scan)) \<and>
      sc_matches s = map_option (add_matches (filter (wanted scan) cts)) (sc_matches scan) \<and>
      (sc_entries scan \<le> CA_SFO_MAX_CONNTRACK_SNAPSHOT \<longrightarrow> unat (sc_entries scan) + length cts \<le> 32768)"
proof -
  let ?spec = "\<lambda>scan cts s. clean s \<longrightarrow>
      sc_entries s = sc_entries scan + of_nat (length cts) \<and>
      sc_hardware_offloaded s = sc_hardware_offloaded scan + of_nat (length (filter hw_offloaded cts)) \<and>
      sc_software_offloaded s = sc_software_offloaded scan + of_nat (length (filter sw_offloaded cts)) \<and>
      sc_candidates s = (if sc_offloaded_only scan then sc_candidates scan else map_option (see cts) (sc_candidates scan)) \<and>
      sc_matches s = map_option (add_matches (filter (wanted scan) cts)) (sc_matches scan) \<and>
      (sc_entries scan \<le> CA_SFO_MAX_CONNTRACK_SNAPSHOT \<longrightarrow> unat (sc_entries scan) + length cts \<le> 32768)"
  have "\<exists>s. dump_entries clone cts scan = Some s \<and> ?spec scan cts s"
    using assms
  proof (induction cts arbitrary: scan)
    case Nil
    have "map_option (see []) x = x" for x by (cases x) (simp_all add: see_Nil)
    moreover have "map_option (add_matches []) y = y" for y by (cases y) (simp_all add: add_matches_def)
    ultimately show ?case by (auto simp: word_le_nat_alt)
  next
    case (Cons ct cts)
    let ?s = "snd (scan_linear clone ct scan)"
    have cb: "scan_cb clone ct scan = Some (scan_linear clone ct scan)" by (rule scan_cb_linear [OF Cons.prems])
    show ?case
    proof (cases "fst (scan_linear clone ct scan)")
      case NFCT_CB_STOP
      with cb scan_linear_stop [OF Cons.prems NFCT_CB_STOP] show ?thesis
        by (auto simp: split_beta)
    next
      case NFCT_CB_CONTINUE
      note step = scan_linear_continue [OF Cons.prems NFCT_CB_CONTINUE]
      obtain s where s: "dump_entries clone cts ?s = Some s" and spec: "?spec ?s cts s"
        using Cons.IH [of ?s] step by blast
      have run: "dump_entries clone (ct # cts) scan = Some s"
        using cb s NFCT_CB_CONTINUE by (simp add: split_beta)
      have adds: "map_option (add_matches xs) (map_option (add_matches ys) y) = map_option (add_matches (ys @ xs)) y" for xs ys y
        by (cases y) (simp_all add: add_matches_def)
      have sees: "map_option (see (ct # cts)) x = map_option (see cts) (map_option (mark_all ct) x)" for x
        by (cases x) (simp_all add: see_Cons)
      have "?spec scan (ct # cts) s"
      proof (intro impI)
        assume c: "clean s"
        have len: "unat (sc_entries scan) + length (ct # cts) \<le> 32768"
          if "sc_entries scan \<le> CA_SFO_MAX_CONNTRACK_SNAPSHOT"
        proof -
          have "unat (sc_entries scan + 1) = unat (sc_entries scan) + 1"
            using that by (subst unat_add_lem [THEN iffD1]) (simp_all add: word_le_nat_alt)
          with spec c step show ?thesis by simp
        qed
        from spec c step len show "sc_entries s = sc_entries scan + of_nat (length (ct # cts)) \<and>
          sc_hardware_offloaded s = sc_hardware_offloaded scan + of_nat (length (filter hw_offloaded (ct # cts))) \<and>
          sc_software_offloaded s = sc_software_offloaded scan + of_nat (length (filter sw_offloaded (ct # cts))) \<and>
          sc_candidates s = (if sc_offloaded_only scan then sc_candidates scan
            else map_option (see (ct # cts)) (sc_candidates scan)) \<and>
          sc_matches s = map_option (add_matches (filter (wanted scan) (ct # cts))) (sc_matches scan) \<and>
          (sc_entries scan \<le> CA_SFO_MAX_CONNTRACK_SNAPSHOT \<longrightarrow> unat (sc_entries scan) + length (ct # cts) \<le> 32768)"
          by (cases "hw_offloaded ct"; cases "sw_offloaded ct"; cases "wanted scan ct"; cases "sc_offloaded_only scan";
              simp add: sees adds del: option.map_comp)
      qed
      with run show ?thesis by blast
    qed
  qed
  then show thesis using that by blast
qed


section \<open>Collection\<close>

text \<open>The flows a command asks for.\<close>

definition selected :: "bool \<Rightarrow> u32 \<Rightarrow> bool \<Rightarrow> u16 \<Rightarrow> (ca_flow_key \<rightharpoonup> ca_flow_state) \<Rightarrow> ca_flow_key \<Rightarrow> bool" where
  "selected have_subject subject_id have_class class_id m key \<longleftrightarrow>
     (case m key of None \<Rightarrow> False
      | Some state \<Rightarrow> (\<not> have_subject \<or> fk_subject_id key = subject_id) \<and> supported_flow key \<and>
          (\<not> have_class \<or> fs_class_id state = class_id))"

definition candidate :: "(ca_flow_key \<rightharpoonup> ca_flow_state) \<Rightarrow> ca_flow_key \<Rightarrow> ca_candidate" where
  "candidate m key = \<lparr>cd_key = key, cd_state = the (m key), cd_next = 0, cd_present = False\<rparr>"

definition empty_set :: "nat \<Rightarrow> ca_candidates" where
  "empty_set capacity = \<lparr>cs_items = [], cs_capacity = capacity, cs_buckets = None, cs_bucket_count = 0,
     cs_overflow = False\<rparr>"

lemma collect_fold:
  fixes m hs sid hc cid
  assumes "length (cs_items cset) \<le> cs_capacity cset"
  defines "sel \<equiv> selected hs sid hc cid m"
  shows "if length (cs_items cset) + length (filter sel ks) \<le> cs_capacity cset
    then walk_fold (collect_body m hs sid hc cid) ks cset =
      cset\<lparr>cs_items := cs_items cset @ map (candidate m) (filter sel ks)\<rparr>
    else cs_overflow (walk_fold (collect_body m hs sid hc cid) ks cset)"
  using assms(1)
proof (induction ks arbitrary: cset)
  case Nil
  then show ?case by simp
next
  case (Cons k ks)
  show ?case
  proof (cases "sel k")
    case False
    then have "collect_body m hs sid hc cid k cset = (cset, False)"
      by (auto simp: sel_def selected_def collect_body_def split: option.split)
    with Cons False show ?thesis by simp
  next
    case True
    then have b: "collect_body m hs sid hc cid k cset =
        (if length (cs_items cset) \<ge> cs_capacity cset then (cset\<lparr>cs_overflow := True\<rparr>, True)
         else (cset\<lparr>cs_items := cs_items cset @ [candidate m k]\<rparr>, False))"
      by (auto simp: sel_def selected_def collect_body_def candidate_def split: option.splits)
    show ?thesis
    proof (cases "length (cs_items cset) \<ge> cs_capacity cset")
      case True
      with b \<open>sel k\<close> show ?thesis by simp
    next
      case False
      with b \<open>sel k\<close> Cons.IH [of "cset\<lparr>cs_items := cs_items cset @ [candidate m k]\<rparr>"] show ?thesis by simp
    qed
  qed
qed

text \<open>Collection returns, and when it succeeds the candidates are the selected flows, indexed.\<close>

definition collected :: "(ca_flow_key \<Rightarrow> bool) \<Rightarrow> (ca_flow_key \<rightharpoonup> ca_flow_state) \<Rightarrow> ca_flow_key list \<Rightarrow> ca_candidates \<Rightarrow> bool" where
  "collected sel m ks cset \<longleftrightarrow> index_wf cset \<and> length (cs_items cset) \<le> cs_capacity cset \<and>
     map (\<lambda>it. (cd_key it, cd_state it, cd_present it)) (cs_items cset) =
       map (\<lambda>k. (k, the (m k), False)) (filter sel (present m ks))"

lemma collect_spec:
  assumes walk: "walk_ok (sv_flows E) ks" "dom m \<subseteq> set ks" and cap: "cap < 2 ^ 32 - 1"
  obtains r cset where "collect_candidates E m (empty_set cap) hs sid hc cid = Some (r, cset)"
    "r = 0 \<Longrightarrow> collected (selected hs sid hc cid m) m ks cset \<and> cs_capacity cset = cap"
proof -
  let ?sel = "selected hs sid hc cid m" and ?ps = "present m ks"
  let ?body = "collect_body m hs sid hc cid"
  let ?run = "collect_candidates E m (empty_set cap) hs sid hc cid"
  have e: "cs_items (empty_set cap) = []" "cs_capacity (empty_set cap) = cap" "cs_overflow (empty_set cap) = False"
    "cs_buckets (empty_set cap) = None"
    by (simp_all add: empty_set_def)
  have "\<exists>r cset. ?run = Some (r, cset) \<and> (r = 0 \<longrightarrow> collected ?sel m ks cset \<and> cs_capacity cset = cap)"
  proof (cases "sv_obj_get E 0")
    case False
    then show ?thesis by (simp add: collect_candidates_def)
  next
    case open0: True
    show ?thesis
    proof (cases ?ps)
      case Nil
      then have "?run = Some (0, empty_set cap)"
        using open0 walk_first [OF walk] by (simp add: collect_candidates_def)
      with Nil e show ?thesis by (simp add: collected_def index_wf_def)
    next
      case (Cons k post)
      have "each_key (\<lambda>s k. mo_next_key (sv_flows E) m (Some k)) ?body k (empty_set cap) =
          Some (walk_fold ?body (k # post) (empty_set cap))"
        by (rule each_key_const [OF walk Cons])
      then have run: "?run = (let cset = walk_fold ?body (k # post) (empty_set cap)
          in if cs_overflow cset then Some (- E2BIG, cset) else index_candidates (sv_malloc_buckets E) cset)"
        using open0 walk_first [OF walk] Cons by (simp add: collect_candidates_def Let_def)
      note fold = collect_fold [of "empty_set cap" hs sid hc cid m "k # post", unfolded e]
      show ?thesis
      proof (cases "length (filter ?sel (k # post)) \<le> cap")
        case False
        with fold have "cs_overflow (walk_fold ?body (k # post) (empty_set cap))" by simp
        with run show ?thesis by (simp add: Let_def)
      next
        case True
        let ?cset = "(empty_set cap)\<lparr>cs_items := map (candidate m) (filter ?sel (k # post))\<rparr>"
        have "walk_fold ?body (k # post) (empty_set cap) = ?cset" using fold True by simp
        with run e(3) have run': "?run = index_candidates (sv_malloc_buckets E) ?cset" by (simp add: Let_def)
        have len: "length (cs_items ?cset) < 2 ^ 32 - 1" using True cap by simp
        from len show ?thesis
        proof (cases rule: index_candidates_total [where malloc = "sv_malloc_buckets E"])
          case nomem
          with run' show ?thesis by simp
        next
          case (built cset')
          let ?view = "\<lambda>it. (cd_key it, cd_state it, cd_present it)"
          have "map ?view (cs_items cset') = map ?view (cs_items ?cset)"
            using built(4,5) by (intro nth_equalityI) (auto dest!: spec)
          then have "map ?view (cs_items cset') = map (\<lambda>k. (k, the (m k), False)) (filter ?sel (k # post))"
            by (simp add: candidate_def comp_def del: filter.simps)
          then have view: "map ?view (cs_items cset') = map (\<lambda>k. (k, the (m k), False)) (filter ?sel ?ps)"
            unfolding Cons .
          have "length (cs_items cset') \<le> cap" using built(4) True by simp
          with built view run' e(2) show ?thesis by (simp add: collected_def)
        qed
      qed
    qed
  qed
  then show thesis using that by blast
qed

end
