(* ===== verification/Sfo_Run.thy ===== *)
theory Sfo_Run
  imports Sfo_Dump
begin

text \<open>
  The commands of \<^verbatim>\<open>sfo/client-access-sfoctl.c\<close>: status, revoke, gc and baseline, with the
  result they print and the argument parser.  A command returns its exit code, the result record if it
  prints one, and what it did: \<open>run_revoke\<close> and \<open>run_baseline\<close> the conntrack entries they asked
  to destroy, \<open>run_gc\<close> the flow map it leaves.  \<open>None\<close> is a fault or a loop that does not end.
\<close>

abbreviation (input) CA_SFO_MAX_FALLBACK_EVICTIONS :: nat where "CA_SFO_MAX_FALLBACK_EVICTIONS \<equiv> 4096"
abbreviation (input) CA_SFO_MAX_VERIFICATION_PASSES :: nat where "CA_SFO_MAX_VERIFICATION_PASSES \<equiv> 3"
abbreviation (input) CA_SFO_DEFAULT_DEADLINE_MS :: u32 where "CA_SFO_DEFAULT_DEADLINE_MS \<equiv> 2000"
abbreviation (input) CA_SFO_MAX_DEADLINE_MS :: u32 where "CA_SFO_MAX_DEADLINE_MS \<equiv> 10000"

section \<open>Results\<close>

record ca_result =
  rs_result :: string
  rs_correlation_health :: string
  rs_tracked_flows :: u32
  rs_candidates :: u32
  rs_conntrack_entries :: u32
  rs_software_offloaded :: u32
  rs_hardware_offloaded :: u32
  rs_delete_attempts :: u32
  rs_delete_successes :: u32
  rs_already_absent :: u32
  rs_verification_failures :: u32
  rs_verification_passes :: u32
  rs_remaining :: u32
  rs_fallback_evictions :: u32
  rs_gc_reclaimed :: u32
  rs_latency_ms :: u64
  rs_deadline_exceeded :: bool
  rs_fallback_used :: bool

definition start_result :: "string \<Rightarrow> bool \<Rightarrow> ca_result" where
  "start_result res fallback = \<lparr>rs_result = res, rs_correlation_health = ''HEALTHY'',
     rs_tracked_flows = 0, rs_candidates = 0, rs_conntrack_entries = 0, rs_software_offloaded = 0,
     rs_hardware_offloaded = 0, rs_delete_attempts = 0, rs_delete_successes = 0, rs_already_absent = 0,
     rs_verification_failures = 0, rs_verification_passes = 0, rs_remaining = 0, rs_fallback_evictions = 0,
     rs_gc_reclaimed = 0, rs_latency_ms = 0, rs_deadline_exceeded = False, rs_fallback_used = fallback\<rparr>"

definition print_result :: "ca_result \<Rightarrow> string" where
  "print_result r = json_object [
     json_str ''result'' (rs_result r), json_str ''correlation_health'' (rs_correlation_health r),
     json_num ''tracked_flow_count'' (rs_tracked_flows r), json_num ''candidate_count'' (rs_candidates r),
     json_num ''conntrack_entries'' (rs_conntrack_entries r),
     json_num ''software_offloaded_flow_count'' (rs_software_offloaded r),
     json_num ''hardware_offloaded_flow_count'' (rs_hardware_offloaded r),
     json_num ''delete_attempts'' (rs_delete_attempts r), json_num ''delete_successes'' (rs_delete_successes r),
     json_num ''already_absent'' (rs_already_absent r),
     json_num ''verification_failures'' (rs_verification_failures r),
     json_num ''verification_passes'' (rs_verification_passes r), json_num ''remaining'' (rs_remaining r),
     json_field ''fallback_used'' (json_bool (rs_fallback_used r)),
     json_num ''fallback_evictions'' (rs_fallback_evictions r), json_num ''gc_reclaimed'' (rs_gc_reclaimed r),
     json_field ''revocation_latency_ms'' (dec (unat (rs_latency_ms r))),
     json_field ''deadline_exceeded'' (json_bool (rs_deadline_exceeded r)),
     json_field ''limits'' (json_object [
       json_num ''max_tracked_flow_records'' (of_nat CA_MAX_FLOWS),
       json_num ''max_revocation_candidates'' (of_nat CA_SFO_MAX_CANDIDATES),
       json_num ''max_verification_passes'' (of_nat CA_SFO_MAX_VERIFICATION_PASSES),
       json_num ''max_conntrack_snapshot'' CA_SFO_MAX_CONNTRACK_SNAPSHOT,
       json_num ''max_revocation_deadline_ms'' CA_SFO_MAX_DEADLINE_MS,
       json_num ''max_broader_fallback_scope'' (of_nat CA_SFO_MAX_FALLBACK_EVICTIONS)])] @ [NL]"

definition exit_code :: "ca_result \<Rightarrow> int" where
  "exit_code r = (if rs_result r \<noteq> ''COMPLETE'' then 1 else 0)"

definition monotonic_ms :: "sfo_env \<Rightarrow> clock_site \<Rightarrow> u64" where
  "monotonic_ms E site = (case sv_clock E site of None \<Rightarrow> 0 | Some (sec, nsec) \<Rightarrow> sec * 1000 + nsec div 1000000)"

section \<open>Destroying entries\<close>

text \<open>The status, the result, and the entries whose destruction was asked for.\<close>

primrec delete_loop :: "sfo_env \<Rightarrow> nat \<Rightarrow> nat \<Rightarrow> nf_conntrack list \<Rightarrow> ca_result \<Rightarrow> int \<times> ca_result \<times> nf_conntrack list" where
  "delete_loop E pass i [] r = (0, r, [])"
| "delete_loop E pass i (ct # cts) r =
     (let r1 = r\<lparr>rs_delete_attempts := rs_delete_attempts r + 1\<rparr>;
          go = (\<lambda>r2. let (e, r3, log) = delete_loop E pass (i + 1) cts r2 in (e, r3, ct # log))
      in if sv_destroy E pass i = 0 then go (r1\<lparr>rs_delete_successes := rs_delete_successes r1 + 1\<rparr>)
         else if sv_destroy E pass i = ENOENT then go (r1\<lparr>rs_already_absent := rs_already_absent r1 + 1\<rparr>)
         else (-1, r1, [ct]))"

definition delete_conntracks :: "sfo_env \<Rightarrow> nat \<Rightarrow> ca_ct_list \<Rightarrow> ca_result \<Rightarrow> int \<times> ca_result \<times> nf_conntrack list" where
  "delete_conntracks E pass cts r =
     (if \<not> sv_delete_open E pass then (-1, r, []) else delete_loop E pass 0 (cl_items cts) r)"

section \<open>status\<close>

definition degraded :: "ca_result \<Rightarrow> ca_result" where
  "degraded r = r\<lparr>rs_correlation_health := ''DEGRADED''\<rparr>"

definition failure :: "ca_result \<Rightarrow> ca_result" where
  "failure r = r\<lparr>rs_verification_failures := rs_verification_failures r + 1\<rparr>"

definition take_counts :: "ca_scan \<Rightarrow> ca_result \<Rightarrow> ca_result" where
  "take_counts scan r = r\<lparr>rs_conntrack_entries := sc_entries scan,
     rs_software_offloaded := sc_software_offloaded scan, rs_hardware_offloaded := sc_hardware_offloaded scan\<rparr>"

text \<open>Counting the flows; without the map the result is a failure.\<close>

definition status_count :: "sfo_env \<Rightarrow> (ca_flow_key \<rightharpoonup> ca_flow_state) \<Rightarrow> ca_result \<Rightarrow> (nat \<times> ca_result) option" where
  "status_count E m r =
     (if \<not> sv_obj_get E 0 then Some (0, r\<lparr>rs_result := ''FAILED'', rs_correlation_health := ''UNKNOWN''\<rparr>)
      else case mo_next_key (sv_flows E) m None of
        Inl e \<Rightarrow> Some (0, r)
      | Inr key \<Rightarrow> do {
          count \<leftarrow> each_key (\<lambda>_ k. mo_next_key (sv_flows E) m (Some k))
            (\<lambda>k n. (if m k \<noteq> None then n + 1 else n, False)) key 0;
          Some (count, r)
        })"

definition run_status :: "sfo_env \<Rightarrow> (ca_flow_key \<rightharpoonup> ca_flow_state) \<Rightarrow> (int \<times> ca_result option) option" where
  "run_status E m =
     (if \<not> sv_calloc_items E then Some (1, None)
      else do {
        (count, r) \<leftarrow> status_count E m (start_result ''COMPLETE'' False);
        let r = r\<lparr>rs_candidates := of_nat count, rs_tracked_flows := of_nat count\<rparr>;
        (ret, scan) \<leftarrow> conntrack_scan E 0 zero_scan;
        let r = (if ret \<noteq> 0 \<or> sc_snapshot_overflow scan then failure (degraded (r\<lparr>rs_result := ''FAILED''\<rparr>)) else r);
        let r = take_counts scan r;
        let r = (if sc_hardware_offloaded scan \<noteq> 0 then degraded (r\<lparr>rs_result := ''FAILED''\<rparr>) else r);
        Some (exit_code r, Some r)
      })"

section \<open>revoke\<close>

type_synonym revoke_state = "ca_candidates \<times> ca_result \<times> nf_conntrack list"

text \<open>One verification pass; the flag says that the loop is left.\<close>

definition revoke_pass :: "sfo_env \<Rightarrow> u32 \<Rightarrow> u64 \<Rightarrow> nat \<Rightarrow> revoke_state \<Rightarrow> (revoke_state \<times> bool) option" where
  "revoke_pass E deadline_ms start pass st =
     (let (cset, r, log) = st;
          cset = cset\<lparr>cs_items := map (\<lambda>it. it\<lparr>cd_present := False\<rparr>) (cs_items cset)\<rparr>;
          r = r\<lparr>rs_verification_passes := rs_verification_passes r + 1\<rparr>
      in do {
        (ret, scan) \<leftarrow> conntrack_scan E pass (zero_scan\<lparr>sc_candidates := Some cset,
          sc_matches := Some \<lparr>cl_items = [], cl_capacity = CA_SFO_MAX_CANDIDATES, cl_overflow = False\<rparr>\<rparr>);
        cset \<leftarrow> sc_candidates scan;
        cts \<leftarrow> sc_matches scan;
        if ret \<noteq> 0 \<or> sc_snapshot_overflow scan \<or> cl_overflow cts
        then Some ((cset, degraded (failure r), log), True)
        else let r = (take_counts scan r)\<lparr>rs_remaining := of_nat (length (cl_items cts))\<rparr> in
          if sc_hardware_offloaded scan \<noteq> 0 then Some ((cset, degraded r, log), True)
          else if cl_items cts = [] then Some ((cset, r\<lparr>rs_result := ''COMPLETE''\<rparr>, log), True)
          else let (e, r, destroyed) = delete_conntracks E pass cts r in
            if e \<noteq> 0 then Some ((cset, failure r, log @ destroyed), True)
            else Some ((cset, r, log @ destroyed),
                       monotonic_ms E (Clock_Pass pass) - start \<ge> ucast deadline_ms)
      })"

primrec run_passes :: "(nat \<Rightarrow> 's \<Rightarrow> ('s \<times> bool) option) \<Rightarrow> nat list \<Rightarrow> 's \<Rightarrow> 's option" where
  "run_passes pass [] st = Some st"
| "run_passes pass (p # ps) st = do {
     (st', left) \<leftarrow> pass p st;
     if left then Some st' else run_passes pass ps st'
   }"

definition check_deadline :: "sfo_env \<Rightarrow> u32 \<Rightarrow> u64 \<Rightarrow> ca_result \<Rightarrow> ca_result" where
  "check_deadline E deadline_ms start r =
     (let r = r\<lparr>rs_latency_ms := monotonic_ms E Clock_End - start\<rparr>;
          r = r\<lparr>rs_deadline_exceeded := rs_latency_ms r > ucast deadline_ms \<or>
                  (rs_result r \<noteq> ''COMPLETE'' \<and> rs_remaining r \<noteq> 0)\<rparr>
      in if rs_deadline_exceeded r then degraded (r\<lparr>rs_result := ''FAILED''\<rparr>) else r)"

definition revoke_out :: "sfo_env \<Rightarrow> u64 \<Rightarrow> ca_result \<Rightarrow> ca_result" where
  "revoke_out E start r =
     (if rs_latency_ms r = 0 then r\<lparr>rs_latency_ms := monotonic_ms E Clock_Out - start\<rparr> else r)"

definition run_revoke ::
    "sfo_env \<Rightarrow> (ca_flow_key \<rightharpoonup> ca_flow_state) \<Rightarrow> u32 \<Rightarrow> bool \<Rightarrow> u16 \<Rightarrow> u32 \<Rightarrow>
      (int \<times> ca_result option \<times> nf_conntrack list) option" where
  "run_revoke E m subject_id have_class class_id deadline_ms =
     (let r = start_result ''FAILED'' False;
          start = monotonic_ms E Clock_Start;
          out = (\<lambda>r log. let r = revoke_out E start r in Some (exit_code r, Some r, log))
      in if \<not> sv_calloc_items E \<or> \<not> sv_calloc_matches E then out (failure (degraded r)) []
      else do {
        (ret, cset) \<leftarrow> collect_candidates E m (empty_set CA_SFO_MAX_CANDIDATES) True subject_id have_class class_id;
        if ret \<noteq> 0 then out (failure (degraded r)) []
        else do {
          (cset, r, log) \<leftarrow> run_passes (revoke_pass E deadline_ms start) [0..<CA_SFO_MAX_VERIFICATION_PASSES]
            (cset, r\<lparr>rs_candidates := of_nat (length (cs_items cset))\<rparr>, []);
          out (check_deadline E deadline_ms start r) log
        }
      })"

section \<open>gc\<close>

text \<open>The deletions: whether the loop came to its end, the map and the result.\<close>

primrec gc_loop ::
    "sfo_env \<Rightarrow> u64 \<Rightarrow> ca_candidate list \<Rightarrow> (ca_flow_key \<rightharpoonup> ca_flow_state) \<Rightarrow> ca_result \<Rightarrow>
      bool \<times> (ca_flow_key \<rightharpoonup> ca_flow_state) \<times> ca_result" where
  "gc_loop E cutoff [] m r = (True, m, r)"
| "gc_loop E cutoff (it # its) m r =
     (if cd_present it \<or> fs_last_seen_ns (cd_state it) \<ge> cutoff then gc_loop E cutoff its m r
      else let (e, m') = mo_delete (sv_flows E) m (cd_key it) in
        if e = 0 then gc_loop E cutoff its m' (r\<lparr>rs_gc_reclaimed := rs_gc_reclaimed r + 1\<rparr>)
        else if e \<noteq> ENOENT then (False, m', failure (degraded r))
        else gc_loop E cutoff its m' r)"

definition gc_cutoff :: "u64 \<times> u64 \<Rightarrow> u32 \<Rightarrow> u64" where
  "gc_cutoff now idle_seconds =
     (let cutoff = fst now * 1000000000 + snd now; idle = ucast idle_seconds * 1000000000
      in if cutoff > idle then cutoff - idle else 0)"

definition run_gc ::
    "sfo_env \<Rightarrow> (ca_flow_key \<rightharpoonup> ca_flow_state) \<Rightarrow> u32 \<Rightarrow>
      (int \<times> ca_result option \<times> (ca_flow_key \<rightharpoonup> ca_flow_state)) option" where
  "run_gc E m idle_seconds =
     (let r = start_result ''FAILED'' False;
          out = (\<lambda>r m. Some (exit_code r, Some r, m))
      in if \<not> sv_calloc_items E then out (failure (degraded r)) m
      else do {
        (ret, cset) \<leftarrow> collect_candidates E m (empty_set CA_MAX_FLOWS) False 0 False 0;
        if ret \<noteq> 0 then out (failure (degraded r)) m
        else case sv_clock E Clock_Start of
          None \<Rightarrow> out (failure (degraded r)) m
        | Some now \<Rightarrow>
            let r = r\<lparr>rs_candidates := of_nat (length (cs_items cset)),
                      rs_tracked_flows := of_nat (length (cs_items cset))\<rparr>
            in do {
              (ret, scan) \<leftarrow> conntrack_scan E 0 (zero_scan\<lparr>sc_candidates := Some cset\<rparr>);
              cset \<leftarrow> sc_candidates scan;
              if ret \<noteq> 0 \<or> sc_snapshot_overflow scan then out (failure (degraded r)) m
              else let r = take_counts scan r in
                if sc_hardware_offloaded scan \<noteq> 0 then out (degraded r) m
                else if \<not> sv_obj_get E 1 then out (failure (degraded r)) m
                else let (whole, m', r) = gc_loop E (gc_cutoff now idle_seconds) (cs_items cset) (sv_meanwhile E m) r
                     in out (if whole then r\<lparr>rs_result := ''COMPLETE''\<rparr> else r) m'
            }
      })"

section \<open>baseline\<close>

definition baseline_pass :: "sfo_env \<Rightarrow> u32 \<Rightarrow> u64 \<Rightarrow> nat \<Rightarrow> ca_result \<times> nf_conntrack list \<Rightarrow>
    ((ca_result \<times> nf_conntrack list) \<times> bool) option" where
  "baseline_pass E deadline_ms start pass st =
     (let (r, log) = st;
          r = r\<lparr>rs_verification_passes := rs_verification_passes r + 1\<rparr>
      in do {
        (ret, scan) \<leftarrow> conntrack_scan E pass (zero_scan\<lparr>sc_offloaded_only := True,
          sc_matches := Some \<lparr>cl_items = [], cl_capacity = CA_SFO_MAX_FALLBACK_EVICTIONS, cl_overflow = False\<rparr>\<rparr>);
        cts \<leftarrow> sc_matches scan;
        if ret \<noteq> 0 \<or> sc_snapshot_overflow scan \<or> cl_overflow cts
        then Some ((degraded (failure r), log), True)
        else let r = (take_counts scan r)\<lparr>rs_remaining := of_nat (length (cl_items cts))\<rparr> in
          if sc_hardware_offloaded scan \<noteq> 0 then Some ((degraded r, log), True)
          else if cl_items cts = [] then Some ((r\<lparr>rs_result := ''COMPLETE''\<rparr>, log), True)
          else let r = r\<lparr>rs_fallback_evictions := rs_fallback_evictions r + of_nat (length (cl_items cts))\<rparr>;
                   (e, r, destroyed) = delete_conntracks E pass cts r in
            if e \<noteq> 0 then Some ((failure r, log @ destroyed), True)
            else Some ((r, log @ destroyed), monotonic_ms E (Clock_Pass pass) - start \<ge> ucast deadline_ms)
      })"

definition run_baseline :: "sfo_env \<Rightarrow> u32 \<Rightarrow> (int \<times> ca_result option \<times> nf_conntrack list) option" where
  "run_baseline E deadline_ms =
     (let r = start_result ''FAILED'' True;
          start = monotonic_ms E Clock_Start
      in if \<not> sv_calloc_matches E then Some (1, None, [])
      else do {
        (r, log) \<leftarrow> run_passes (baseline_pass E deadline_ms start) [0..<CA_SFO_MAX_VERIFICATION_PASSES] (r, []);
        let r = check_deadline E deadline_ms start r;
        Some (exit_code r, Some r, log)
      })"

section \<open>The command line\<close>

definition parse_u32 :: "sfo_env \<Rightarrow> string \<Rightarrow> u32 \<Rightarrow> u32 \<Rightarrow> u32 option" where
  "parse_u32 E text minimum maximum =
     (let (parsed, end_text, err) = strtoul (sv_einval_on_empty E) text
      in if err \<or> end_text \<noteq> [] \<or> parsed < ucast minimum \<or> parsed > ucast maximum then None
         else Some (ucast parsed))"

text \<open>Exit code, standard output, the flow map afterwards and the entries destroyed.\<close>

definition printed :: "ca_result option \<Rightarrow> string" where
  "printed r = (case r of None \<Rightarrow> [] | Some r \<Rightarrow> print_result r)"

definition sfo_main :: "sfo_env \<Rightarrow> (ca_flow_key \<rightharpoonup> ca_flow_state) \<Rightarrow> string list \<Rightarrow>
    (int \<times> string \<times> (ca_flow_key \<rightharpoonup> ca_flow_state) \<times> nf_conntrack list) option" where
  "sfo_main E m argv =
     (let argc = length argv; invalid = Some (2, [], m, []) in
      if argc = 2 \<and> argv ! 1 = ''status''
      then do { (c, r) \<leftarrow> run_status E m; Some (c, printed r, m, []) }
      else if (argc = 2 \<or> argc = 3) \<and> argv ! 1 = ''baseline''
      then (case (if argc = 3 then parse_u32 E (argv ! 2) 1 CA_SFO_MAX_DEADLINE_MS
                  else Some CA_SFO_DEFAULT_DEADLINE_MS) of
              None \<Rightarrow> invalid
            | Some deadline_ms \<Rightarrow> do { (c, r, log) \<leftarrow> run_baseline E deadline_ms; Some (c, printed r, m, log) })
      else if argc = 3 \<and> argv ! 1 = ''gc''
      then (case parse_u32 E (argv ! 2) 1 86400 of
              None \<Rightarrow> invalid
            | Some idle_seconds \<Rightarrow> do { (c, r, m') \<leftarrow> run_gc E m idle_seconds; Some (c, printed r, m', []) })
      else if (argc = 4 \<or> argc = 5) \<and> argv ! 1 = ''revoke''
      then (case parse_u32 E (argv ! 2) 1 UINT32_MAX of
              None \<Rightarrow> invalid
            | Some subject_id \<Rightarrow>
                let have_class = (argv ! 3 \<noteq> ''-'') in
                case (if have_class then parse_u32 E (argv ! 3) 0 65535 else Some 0) of
                  None \<Rightarrow> invalid
                | Some class_id \<Rightarrow>
                    (case (if argc = 5 then parse_u32 E (argv ! 4) 1 CA_SFO_MAX_DEADLINE_MS
                           else Some CA_SFO_DEFAULT_DEADLINE_MS) of
                       None \<Rightarrow> invalid
                     | Some deadline_ms \<Rightarrow> do {
                         (c, r, log) \<leftarrow> run_revoke E m subject_id have_class (ucast class_id) deadline_ms;
                         Some (c, printed r, m, log) }))
      else invalid)"

end
