(* ===== verification/Sfo_Passes.thy ===== *)
theory Sfo_Passes
  imports Sfo_Run
begin

text \<open>
  What one pass of a command does, from what a dump gives: lemmas about \<open>conntrack_scan\<close>,
  \<open>delete_conntracks\<close>, \<open>revoke_pass\<close> and \<open>baseline_pass\<close>, and the induction over the passes.
\<close>

section \<open>Scans\<close>

lemma scan_linear_shape:
  defines "f \<equiv> \<lambda>clone ct scan. snd (scan_linear clone ct scan)"
  shows "sc_candidates (f clone ct scan) = None \<longleftrightarrow> sc_candidates scan = None"
    and "sc_matches (f clone ct scan) = None \<longleftrightarrow> sc_matches scan = None"
  by (simp_all add: f_def scan_linear_def Let_def scan_append_def split: option.split)

lemma dump_shape:
  assumes "scan_ok scan" and "dump_entries clone cts scan = Some s"
  shows "(sc_candidates s = None \<longleftrightarrow> sc_candidates scan = None) \<and> (sc_matches s = None \<longleftrightarrow> sc_matches scan = None)"
  using assms
proof (induction cts arbitrary: scan)
  case (Cons ct cts)
  let ?s = "snd (scan_linear clone ct scan)"
  have cb: "scan_cb clone ct scan = Some (scan_linear clone ct scan)" by (rule scan_cb_linear [OF Cons.prems(1)])
  show ?case
  proof (cases "fst (scan_linear clone ct scan)")
    case NFCT_CB_STOP
    with cb Cons.prems(2) have "s = ?s" by (simp add: split_beta)
    then show ?thesis by (simp add: scan_linear_shape)
  next
    case NFCT_CB_CONTINUE
    with cb Cons.prems(2) have "dump_entries clone cts ?s = Some s" by (simp add: split_beta)
    moreover have "scan_ok ?s" using scan_linear_continue [OF Cons.prems(1) NFCT_CB_CONTINUE] by simp
    ultimately have "(sc_candidates s = None \<longleftrightarrow> sc_candidates ?s = None) \<and> (sc_matches s = None \<longleftrightarrow> sc_matches ?s = None)"
      using Cons.IH by blast
    then show ?thesis by (simp only: scan_linear_shape)
  qed
qed simp

lemma count_zero:
  assumes "length cts \<le> 32768"
  shows "(of_nat (length (filter P cts)) :: u32) = 0 \<longleftrightarrow> (\<forall>ct \<in> set cts. \<not> P ct)"
proof -
  have "length (filter P cts) \<le> 32768" by (rule order_trans [OF length_filter_le assms])
  then have "length (filter P cts) < 2 ^ 32" by simp
  then have "unat (of_nat (length (filter P cts)) :: u32) = length (filter P cts)" by (rule unat_of_nat_u32)
  moreover have "unat (of_nat (length (filter P cts)) :: u32) = 0 \<longleftrightarrow> (of_nat (length (filter P cts)) :: u32) = 0"
    by (rule unsigned_eq_0_iff)
  ultimately have "(of_nat (length (filter P cts)) :: u32) = 0 \<longleftrightarrow> length (filter P cts) = 0" by (simp only:)
  then show ?thesis by (simp add: filter_empty_conv)
qed

text \<open>A scan from zero counters.\<close>

lemma conntrack_scan_spec:
  assumes "scan_ok scan" and zero: "sc_entries scan = 0" "sc_hardware_offloaded scan = 0"
  obtains ret s where "conntrack_scan E p scan = Some (ret, s)"
    "sc_candidates s = None \<longleftrightarrow> sc_candidates scan = None" "sc_matches s = None \<longleftrightarrow> sc_matches scan = None"
    "ret = 0 \<Longrightarrow> clean s \<Longrightarrow>
      fst (sv_dump E p) = 0 \<and>
      (sc_hardware_offloaded s = 0 \<longleftrightarrow> (\<forall>ct \<in> set (snd (sv_dump E p)). \<not> hw_offloaded ct)) \<and>
      sc_candidates s = (if sc_offloaded_only scan then sc_candidates scan
        else map_option (see (snd (sv_dump E p))) (sc_candidates scan)) \<and>
      sc_matches s = map_option (add_matches (filter (wanted scan) (snd (sv_dump E p)))) (sc_matches scan)"
proof (cases "\<not> sv_scan_open E p \<or> sv_register E p \<noteq> 0")
  case True
  then have "conntrack_scan E p scan = Some (-1, scan)" by (auto simp: conntrack_scan_def)
  then show thesis by (rule that) simp_all
next
  case False
  let ?cts = "snd (sv_dump E p)"
  from dump_spec [OF assms(1), of "sv_clone E p" ?cts] obtain s where
    s: "dump_entries (sv_clone E p) ?cts scan = Some s" and
    spec: "clean s \<Longrightarrow>
      sc_entries s = sc_entries scan + of_nat (length ?cts) \<and>
      sc_hardware_offloaded s = sc_hardware_offloaded scan + of_nat (length (filter hw_offloaded ?cts)) \<and>
      sc_software_offloaded s = sc_software_offloaded scan + of_nat (length (filter sw_offloaded ?cts)) \<and>
      sc_candidates s = (if sc_offloaded_only scan then sc_candidates scan else map_option (see ?cts) (sc_candidates scan)) \<and>
      sc_matches s = map_option (add_matches (filter (wanted scan) ?cts)) (sc_matches scan) \<and>
      (sc_entries scan \<le> CA_SFO_MAX_CONNTRACK_SNAPSHOT \<longrightarrow> unat (sc_entries scan) + length ?cts \<le> 32768)"
    by blast
  have run: "conntrack_scan E p scan = Some (fst (sv_dump E p), s)"
    using False s by (simp add: conntrack_scan_def)
  show thesis
  proof (rule that [OF run])
    assume ret: "fst (sv_dump E p) = 0" and c: "clean s"
    have "length ?cts \<le> 32768" using spec [OF c] zero by simp
    from ret spec [OF c] zero count_zero [OF this, of hw_offloaded] show "fst (sv_dump E p) = 0 \<and>
      (sc_hardware_offloaded s = 0 \<longleftrightarrow> (\<forall>ct \<in> set ?cts. \<not> hw_offloaded ct)) \<and>
      sc_candidates s = (if sc_offloaded_only scan then sc_candidates scan else map_option (see ?cts) (sc_candidates scan)) \<and>
      sc_matches s = map_option (add_matches (filter (wanted scan) ?cts)) (sc_matches scan)"
      by simp
  qed (use dump_shape [OF assms(1) s] in simp_all)
qed

section \<open>Deletions\<close>

lemma delete_log: "set (snd (snd (delete_conntracks E p cts r))) \<subseteq> set (cl_items cts)"
proof -
  have "set (snd (snd (delete_loop E p i xs r))) \<subseteq> set xs" for i xs r
    by (induction xs arbitrary: i r) (auto simp: Let_def split_beta)
  then show ?thesis by (simp add: delete_conntracks_def)
qed

lemma delete_result: "rs_result (fst (snd (delete_conntracks E p cts r))) = rs_result r"
proof -
  have "rs_result (fst (snd (delete_loop E p i xs r))) = rs_result r" for i xs r
    by (induction xs arbitrary: i r) (auto simp: Let_def split_beta)
  then show ?thesis by (simp add: delete_conntracks_def)
qed

text \<open>When the kernel destroys what it is asked to, or no longer has it, everything is asked for.\<close>

lemma delete_all:
  assumes "sv_delete_open E p" and "\<forall>i. sv_destroy E p i \<in> {0, ENOENT}"
  shows "fst (delete_conntracks E p cts r) = 0 \<and> snd (snd (delete_conntracks E p cts r)) = cl_items cts \<and>
    rs_delete_attempts (fst (snd (delete_conntracks E p cts r))) = rs_delete_attempts r + of_nat (length (cl_items cts))"
proof -
  have "fst (delete_loop E p i xs r) = 0 \<and> snd (snd (delete_loop E p i xs r)) = xs \<and>
      rs_delete_attempts (fst (snd (delete_loop E p i xs r))) = rs_delete_attempts r + of_nat (length xs)" for i xs r
    using assms(2) by (induction xs arbitrary: i r) (auto simp: Let_def split_beta)
  with assms(1) show ?thesis by (simp add: delete_conntracks_def)
qed

section \<open>A revocation pass\<close>

text \<open>Some candidate key has this entry.\<close>

definition hits_any :: "ca_flow_key set \<Rightarrow> nf_conntrack \<Rightarrow> bool" where
  "hits_any keys ct \<longleftrightarrow> (\<exists>k \<in> keys. entry_of k ct)"

abbreviation cset_keys :: "ca_candidates \<Rightarrow> ca_flow_key set" where
  "cset_keys cset \<equiv> cd_key ` set (cs_items cset)"

text \<open>A dump of pass \<open>p\<close> that shows no entry of a candidate and no hardware offload.\<close>

definition quiet_dump :: "sfo_env \<Rightarrow> nat \<Rightarrow> (nf_conntrack \<Rightarrow> bool) \<Rightarrow> bool" where
  "quiet_dump E p hit \<longleftrightarrow> fst (sv_dump E p) = 0 \<and>
     (\<forall>ct \<in> set (snd (sv_dump E p)). \<not> hit ct \<and> \<not> hw_offloaded ct)"

definition revoke_scan :: "ca_candidates \<Rightarrow> ca_scan" where
  "revoke_scan cset = zero_scan\<lparr>sc_candidates := Some (cset\<lparr>cs_items := map (\<lambda>it. it\<lparr>cd_present := False\<rparr>) (cs_items cset)\<rparr>),
     sc_matches := Some \<lparr>cl_items = [], cl_capacity = CA_SFO_MAX_CANDIDATES, cl_overflow = False\<rparr>\<rparr>"

lemma revoke_scan_ok: "index_wf cset \<Longrightarrow> scan_ok (revoke_scan cset)"
  using index_wf_map [of cset "\<lambda>it. it\<lparr>cd_present := False\<rparr>"] by (simp add: scan_ok_def revoke_scan_def)

lemma revoke_scan_wanted: "wanted (revoke_scan cset) = hits_any (cset_keys cset)"
  by (auto simp: fun_eq_iff wanted_def revoke_scan_def zero_scan_def hits_any_def matched_by_def entry_of_def)

lemma see_keys: "cset_keys (see cts cset) = cset_keys cset"
  by (auto simp: see_def set_seen_def image_image)

lemma see_wf: "index_wf cset \<Longrightarrow> index_wf (see cts cset)"
  unfolding see_def by (rule index_wf_map) (simp_all add: set_seen_def)

lemma result_fields [simp]:
  "rs_result (degraded r) = rs_result r" "rs_result (failure r) = rs_result r" "rs_result (take_counts scan r) = rs_result r"
  "rs_remaining (degraded r) = rs_remaining r"
  by (simp_all add: degraded_def failure_def take_counts_def)

lemma revoke_pass_cases:
  assumes wf: "index_wf cset"
  obtains cset' r' log' left where
    "revoke_pass E deadline start p (cset, r, log) = Some ((cset', r', log'), left)"
    "\<not> left \<Longrightarrow> index_wf cset' \<and> cset_keys cset' = cset_keys cset \<and> rs_result r' = rs_result r"
    "\<exists>destroyed. log' = log @ destroyed \<and>
      set destroyed \<subseteq> {ct \<in> set (snd (sv_dump E p)). hits_any (cset_keys cset) ct}"
    "rs_result r' \<noteq> rs_result r \<Longrightarrow> quiet_dump E p (hits_any (cset_keys cset))"
proof -
  let ?scan = "revoke_scan cset" and ?cts = "snd (sv_dump E p)" and ?hit = "hits_any (cset_keys cset)"
  have z: "sc_entries ?scan = 0" "sc_hardware_offloaded ?scan = 0" "sc_offloaded_only ?scan = False"
    "sc_candidates ?scan = Some (cset\<lparr>cs_items := map (\<lambda>it. it\<lparr>cd_present := False\<rparr>) (cs_items cset)\<rparr>)"
    "sc_matches ?scan = Some \<lparr>cl_items = [], cl_capacity = CA_SFO_MAX_CANDIDATES, cl_overflow = False\<rparr>"
    by (simp_all add: revoke_scan_def zero_scan_def)
  let ?cset0 = "cset\<lparr>cs_items := map (\<lambda>it. it\<lparr>cd_present := False\<rparr>) (cs_items cset)\<rparr>"
  have wf0: "index_wf ?cset0" using index_wf_map [OF wf, of "\<lambda>it. it\<lparr>cd_present := False\<rparr>"] by simp
  have keys0: "cset_keys ?cset0 = cset_keys cset" by (simp add: image_image)
  from conntrack_scan_spec [OF revoke_scan_ok [OF wf] z(1,2), of E p] obtain ret s where
    run: "conntrack_scan E p ?scan = Some (ret, s)" and
    shape: "sc_candidates s = None \<longleftrightarrow> sc_candidates ?scan = None" "sc_matches s = None \<longleftrightarrow> sc_matches ?scan = None" and
    good: "ret = 0 \<Longrightarrow> clean s \<Longrightarrow> fst (sv_dump E p) = 0 \<and>
      (sc_hardware_offloaded s = 0 \<longleftrightarrow> (\<forall>ct \<in> set ?cts. \<not> hw_offloaded ct)) \<and>
      sc_candidates s = (if sc_offloaded_only ?scan then sc_candidates ?scan else map_option (see ?cts) (sc_candidates ?scan)) \<and>
      sc_matches s = map_option (add_matches (filter (wanted ?scan) ?cts)) (sc_matches ?scan)"
    by blast
  obtain cset' cl where sc: "sc_candidates s = Some cset'" "sc_matches s = Some cl"
    using shape z(4,5) by (metis option.exhaust option.distinct(1))
  let ?r1 = "r\<lparr>rs_verification_passes := rs_verification_passes r + 1\<rparr>"
  let ?r2 = "(take_counts s ?r1)\<lparr>rs_remaining := of_nat (length (cl_items cl))\<rparr>"
  let ?d = "delete_conntracks E p cl ?r2"
  have body: "revoke_pass E deadline start p (cset, r, log) = Some (
      if ret \<noteq> 0 \<or> sc_snapshot_overflow s \<or> cl_overflow cl then ((cset', degraded (failure ?r1), log), True)
      else if sc_hardware_offloaded s \<noteq> 0 then ((cset', degraded ?r2, log), True)
      else if cl_items cl = [] then ((cset', ?r2\<lparr>rs_result := ''COMPLETE''\<rparr>, log), True)
      else if fst ?d \<noteq> 0 then ((cset', failure (fst (snd ?d)), log @ snd (snd ?d)), True)
      else ((cset', fst (snd ?d), log @ snd (snd ?d)), monotonic_ms E (Clock_Pass p) - start \<ge> ucast deadline))"
    using run sc by (simp add: revoke_pass_def revoke_scan_def Let_def split_beta)
  show thesis
  proof (cases "ret \<noteq> 0 \<or> sc_snapshot_overflow s \<or> cl_overflow cl")
    case True
    with body show thesis by (intro that [of cset' "degraded (failure ?r1)" log True]) simp_all
  next
    case ok: False
    then have "ret = 0" "clean s" using sc by (simp_all add: clean_def)
    from good [OF this] sc z(3-5) have g: "fst (sv_dump E p) = 0"
      "sc_hardware_offloaded s = 0 \<longleftrightarrow> (\<forall>ct \<in> set ?cts. \<not> hw_offloaded ct)"
      "cset' = see ?cts ?cset0" "cl_items cl = filter ?hit ?cts"
      by (simp_all add: add_matches_def revoke_scan_wanted)
    have c': "index_wf cset'" "cset_keys cset' = cset_keys cset"
      using see_wf [OF wf0] see_keys [of ?cts ?cset0] keys0 by (simp_all only: g(3))
    consider (hw) "sc_hardware_offloaded s \<noteq> 0" | (quiet) "sc_hardware_offloaded s = 0" "cl_items cl = []"
      | (del) "sc_hardware_offloaded s = 0" "cl_items cl \<noteq> []" by blast
    then show thesis
    proof cases
      case hw
      with ok body show thesis by (intro that [of cset' "degraded ?r2" log True]) simp_all
    next
      case quiet
      then have "quiet_dump E p ?hit" using g by (auto simp: quiet_dump_def filter_empty_conv)
      with quiet ok body show thesis
        by (intro that [of cset' "?r2\<lparr>rs_result := ''COMPLETE''\<rparr>" log True]) simp_all
    next
      case del
      have sub: "set (snd (snd ?d)) \<subseteq> {ct \<in> set ?cts. ?hit ct}"
        using delete_log [of E p cl ?r2] by (auto simp: g(4))
      have res: "rs_result (fst (snd ?d)) = rs_result r" by (simp add: delete_result)
      show thesis
      proof (cases "fst ?d = 0")
        case True
        with del ok body c' sub res show thesis
          by (intro that [of cset' "fst (snd ?d)" "log @ snd (snd ?d)"]) auto
      next
        case False
        with del ok body sub res show thesis
          by (intro that [of cset' "failure (fst (snd ?d))" "log @ snd (snd ?d)" True]) auto
      qed
    qed
  qed
qed


section \<open>All passes\<close>

lemma revoke_passes_cases:
  assumes "index_wf cset"
  obtains cset' r' log' where
    "run_passes (revoke_pass E deadline start) ps (cset, r, log) = Some (cset', r', log')"
    "\<exists>destroyed. log' = log @ destroyed \<and>
      (\<forall>ct \<in> set destroyed. \<exists>p \<in> set ps. ct \<in> set (snd (sv_dump E p)) \<and> hits_any (cset_keys cset) ct)"
    "rs_result r' \<noteq> rs_result r \<Longrightarrow> \<exists>p \<in> set ps. quiet_dump E p (hits_any (cset_keys cset))"
proof -
  have "\<exists>cset' r' log'. run_passes (revoke_pass E deadline start) ps (cset, r, log) = Some (cset', r', log') \<and>
      (\<exists>destroyed. log' = log @ destroyed \<and>
        (\<forall>ct \<in> set destroyed. \<exists>p \<in> set ps. ct \<in> set (snd (sv_dump E p)) \<and> hits_any (cset_keys cset) ct)) \<and>
      (rs_result r' \<noteq> rs_result r \<longrightarrow> (\<exists>p \<in> set ps. quiet_dump E p (hits_any (cset_keys cset))))"
    using assms
  proof (induction ps arbitrary: cset r log)
    case Nil
    then show ?case by simp
  next
    case (Cons p ps)
    obtain cset1 r1 log1 left where
      step: "revoke_pass E deadline start p (cset, r, log) = Some ((cset1, r1, log1), left)" and
      go: "\<not> left \<Longrightarrow> index_wf cset1 \<and> cset_keys cset1 = cset_keys cset \<and> rs_result r1 = rs_result r" and
      logs: "\<exists>destroyed. log1 = log @ destroyed \<and>
        set destroyed \<subseteq> {ct \<in> set (snd (sv_dump E p)). hits_any (cset_keys cset) ct}" and
      res: "rs_result r1 \<noteq> rs_result r \<Longrightarrow> quiet_dump E p (hits_any (cset_keys cset))"
      by (rule revoke_pass_cases [OF Cons.prems, of E deadline start p r log]) (rule that; assumption)
    show ?case
    proof (cases left)
      case True
      with step logs res show ?thesis by auto
    next
      case False
      with go have keys: "cset_keys cset1 = cset_keys cset" and r1: "rs_result r1 = rs_result r" and wf: "index_wf cset1"
        by simp_all
      note IH = Cons.IH [OF wf, of r1 log1, unfolded keys r1]
      from IH obtain cset' r' log' where all:
        "run_passes (revoke_pass E deadline start) ps (cset1, r1, log1) = Some (cset', r', log') \<and>
         (\<exists>destroyed. log' = log1 @ destroyed \<and>
          (\<forall>ct \<in> set destroyed. \<exists>p \<in> set ps. ct \<in> set (snd (sv_dump E p)) \<and> hits_any (cset_keys cset) ct)) \<and>
         (rs_result r' \<noteq> rs_result r \<longrightarrow> (\<exists>p \<in> set ps. quiet_dump E p (hits_any (cset_keys cset))))"
        by (elim exE) (rule that)
      note run = all [THEN conjunct1] and rest = all [THEN conjunct2, THEN conjunct1]
        and res' = all [THEN conjunct2, THEN conjunct2]
      obtain d1 where d1: "log1 = log @ d1" "set d1 \<subseteq> {ct \<in> set (snd (sv_dump E p)). hits_any (cset_keys cset) ct}"
        using logs by blast
      obtain d2 where d2: "log' = log1 @ d2"
        "\<forall>ct \<in> set d2. \<exists>p \<in> set ps. ct \<in> set (snd (sv_dump E p)) \<and> hits_any (cset_keys cset) ct"
        using rest by blast
      have "log' = log @ (d1 @ d2)" using d1(1) d2(1) by simp
      moreover have "\<forall>ct \<in> set (d1 @ d2). \<exists>q \<in> set (p # ps). ct \<in> set (snd (sv_dump E q)) \<and> hits_any (cset_keys cset) ct"
        using d1(2) d2(2) by auto
      moreover have "run_passes (revoke_pass E deadline start) (p # ps) (cset, r, log) = Some (cset', r', log')"
        using step False run by simp
      moreover have "rs_result r' \<noteq> rs_result r \<longrightarrow> (\<exists>q \<in> set (p # ps). quiet_dump E q (hits_any (cset_keys cset)))"
        using res' by auto
      ultimately show ?thesis by blast
    qed
  qed
  then show thesis using that by blast
qed

section \<open>A dump that fits\<close>

lemma dump_clean:
  assumes "scan_ok scan" and "\<not> sc_snapshot_overflow scan" and "\<And>n. clone n"
    and "unat (sc_entries scan) + length cts \<le> 32768"
    and "\<And>cl. sc_matches scan = Some cl \<Longrightarrow> length (cl_items cl) + length (filter (wanted scan) cts) \<le> cl_capacity cl"
  shows "\<exists>s. dump_entries clone cts scan = Some s \<and> clean s"
  using assms(1,2,4,5)
proof (induction cts arbitrary: scan)
  case Nil
  then show ?case by (auto simp: clean_def scan_ok_def)
next
  case (Cons ct cts)
  have "unat (sc_entries scan + 1) = unat (sc_entries scan) + 1"
    using Cons.prems(3) by (subst unat_add_lem [THEN iffD1]) simp_all
  then have le: "\<not> CA_SFO_MAX_CONNTRACK_SNAPSHOT < sc_entries scan + 1"
    and entries: "unat (sc_entries scan + 1) + length cts \<le> 32768"
    using Cons.prems(3) by (simp_all add: word_less_nat_alt)
  have quiet: "\<not> cl_overflow cl" if "sc_matches scan = Some cl" for cl
    using Cons.prems(1) that by (simp add: scan_ok_def)
  have room: "wanted scan ct \<Longrightarrow> sc_matches scan = Some cl \<Longrightarrow> length (cl_items cl) < cl_capacity cl" for cl
    using Cons.prems(4) [of cl] by simp
  have go: "fst (scan_linear clone ct scan) = NFCT_CB_CONTINUE"
    using le quiet room assms(3)
    by (auto simp: scan_linear_def Let_def scan_append_def append_ct_def scan_verdict_def split: option.splits)
  have over: "\<not> sc_snapshot_overflow (snd (scan_linear clone ct scan))"
    using le Cons.prems(2) by (auto simp: scan_linear_def Let_def scan_append_def split: option.split)
  note step = scan_linear_continue [OF Cons.prems(1) go]
  have "\<exists>s. dump_entries clone cts (snd (scan_linear clone ct scan)) = Some s \<and> clean s"
  proof (rule Cons.IH)
    show "length (cl_items cl) + length (filter (wanted (snd (scan_linear clone ct scan))) cts) \<le> cl_capacity cl"
      if "sc_matches (snd (scan_linear clone ct scan)) = Some cl" for cl
      using that step Cons.prems(4) by (auto simp: add_matches_def split: if_splits)
  qed (use step over entries in simp_all)
  then show ?case
    using scan_cb_linear [OF Cons.prems(1), of clone ct] go by (simp add: split_beta)
qed

text \<open>What a scan needs to come to its end.\<close>

definition scan_serves :: "sfo_env \<Rightarrow> nat \<Rightarrow> bool" where
  "scan_serves E p \<longleftrightarrow> sv_scan_open E p \<and> sv_register E p = 0 \<and> fst (sv_dump E p) = 0 \<and>
     (\<forall>n. sv_clone E p n) \<and> length (snd (sv_dump E p)) \<le> 32768 \<and>
     (\<forall>ct \<in> set (snd (sv_dump E p)). \<not> hw_offloaded ct)"

lemma served_scan:
  assumes "scan_serves E p" and ok: "scan_ok scan" and "\<not> sc_snapshot_overflow scan"
    and zero: "sc_entries scan = 0" "sc_hardware_offloaded scan = 0"
    and "\<And>cl. sc_matches scan = Some cl \<Longrightarrow>
      length (cl_items cl) + length (filter (wanted scan) (snd (sv_dump E p))) \<le> cl_capacity cl"
  obtains s where "conntrack_scan E p scan = Some (0, s)" "clean s" "sc_hardware_offloaded s = 0"
    "sc_candidates s = (if sc_offloaded_only scan then sc_candidates scan
       else map_option (see (snd (sv_dump E p))) (sc_candidates scan))"
    "sc_matches s = map_option (add_matches (filter (wanted scan) (snd (sv_dump E p)))) (sc_matches scan)"
proof -
  have e: "sv_scan_open E p" "sv_register E p = 0" "fst (sv_dump E p) = 0" "\<And>n. sv_clone E p n"
    "length (snd (sv_dump E p)) \<le> 32768" "\<forall>ct \<in> set (snd (sv_dump E p)). \<not> hw_offloaded ct"
    using assms(1) by (simp_all add: scan_serves_def)
  have "unat (sc_entries scan) + length (snd (sv_dump E p)) \<le> 32768" using e(5) zero by simp
  from dump_clean [where clone = "sv_clone E p", OF ok assms(3) e(4) this assms(6)] obtain s where
    s: "dump_entries (sv_clone E p) (snd (sv_dump E p)) scan = Some s" "clean s" by blast
  then have run: "conntrack_scan E p scan = Some (0, s)"
    using e by (simp add: conntrack_scan_def)
  from conntrack_scan_spec [OF ok zero, of E p] run s(2) e(6) show thesis
    by (metis (no_types, lifting) option.inject prod.inject that)
qed

end
