(* ===== verification/Sfo_Properties.thy ===== *)
theory Sfo_Properties
  imports Sfo_Passes
begin

text \<open>
  What the offload tool guarantees: the hash index finds what a linear search finds; a revocation
  destroys entries of the flows it was asked for and nothing else, reports success only after a dump
  that shows none of them, and succeeds when nothing interferes; garbage collection removes idle flows
  without a conntrack entry only; and every command returns.
\<close>

section \<open>The index\<close>

text \<open>
  C15 index_is_linear_scan: the scan callback, which hashes the entry and follows one bucket chain,
  does what comparing the entry with every candidate does: it marks the same candidates, appends the
  same entries and stops at the same time, without a read outside its arrays.
\<close>

theorem index_is_linear_scan:
  assumes "\<And>cset. sc_candidates scan = Some cset \<Longrightarrow> index_wf cset"
    and "\<And>cts. sc_matches scan = Some cts \<Longrightarrow> \<not> cl_overflow cts"
  shows "scan_cb clone ct scan = Some (scan_linear clone ct scan)"
  by (rule scan_cb_linear) (simp add: scan_ok_def assms)

section \<open>The candidates\<close>

lemma collected_keys:
  assumes "collected sel m ks cset" and "dom m \<subseteq> set ks" and "\<And>k. sel k \<Longrightarrow> m k \<noteq> None"
  shows "cset_keys cset = {k. sel k}"
proof -
  have "map fst (map (\<lambda>it. (cd_key it, cd_state it, cd_present it)) (cs_items cset)) =
      map fst (map (\<lambda>k. (k, the (m k), False)) (filter sel (present m ks)))"
    using assms(1) unfolding collected_def by simp
  then have "map cd_key (cs_items cset) = filter sel (present m ks)" by (simp add: comp_def)
  then have "cset_keys cset = set (filter sel (present m ks))" by (metis image_set)
  then show ?thesis using assms(2,3) by auto
qed

lemma selected_present: "selected hs sid hc cid m k \<Longrightarrow> m k \<noteq> None"
  by (auto simp: selected_def split: option.splits)

lemma selected_supported: "selected hs sid hc cid m k \<Longrightarrow> supported_flow k"
  by (auto simp: selected_def split: option.splits)

lemma entry_of_supported: "supported_flow k \<Longrightarrow> entry_of k ct \<longleftrightarrow> tuple_matches k ct"
  using matching_supported by (auto simp: entry_of_def)

lemma entry_of_selected: "selected hs sid hc cid m k \<Longrightarrow> entry_of k ct \<longleftrightarrow> tuple_matches k ct"
  using matching_supported selected_supported by (auto simp: entry_of_def)

lemma empty_limits: "CA_SFO_MAX_CANDIDATES < 2 ^ 32 - 1" "CA_MAX_FLOWS < 2 ^ 32 - 1"
  by simp_all

section \<open>Revocation\<close>

lemma check_deadline_complete:
  "rs_result (check_deadline E d start r) = ''COMPLETE'' \<Longrightarrow>
    rs_result r = ''COMPLETE'' \<and> \<not> rs_deadline_exceeded (check_deadline E d start r) \<and>
    monotonic_ms E Clock_End - start \<le> ucast d"
  by (auto simp: check_deadline_def Let_def not_less split: if_splits)

lemma revoke_out_fields [simp]:
  "rs_result (revoke_out E start r) = rs_result r" "rs_deadline_exceeded (revoke_out E start r) = rs_deadline_exceeded r"
  by (simp_all add: revoke_out_def)

lemma start_result_fields [simp]:
  "rs_result (start_result res fb) = res"
  by (simp add: start_result_def)

lemma exit_code_0: "exit_code r = 0 \<longleftrightarrow> rs_result r = ''COMPLETE''"
  by (simp add: exit_code_def)

text \<open>Everything the properties below need of a run.\<close>

lemma run_revoke_cases:
  fixes E :: sfo_env and subject_id hc cid m ks deadline
  assumes walk: "walk_ok (sv_flows E) ks" "dom m \<subseteq> set ks"
  defines "keys \<equiv> {k. selected True subject_id hc cid m k}"
  obtains r log where "run_revoke E m subject_id hc cid deadline = Some (exit_code r, Some r, log)"
    "\<forall>ct \<in> set log. \<exists>p < 3. ct \<in> set (snd (sv_dump E p)) \<and> hits_any keys ct"
    "rs_result r = ''COMPLETE'' \<Longrightarrow> \<not> rs_deadline_exceeded r \<and>
       monotonic_ms E Clock_End - monotonic_ms E Clock_Start \<le> ucast deadline \<and> (\<exists>p < 3. quiet_dump E p (hits_any keys))"
proof -
  let ?start = "monotonic_ms E Clock_Start" and ?r0 = "start_result ''FAILED'' False"
  let ?fail = "revoke_out E ?start (failure (degraded ?r0))"
  let ?run = "run_revoke E m subject_id hc cid deadline"
  note goal = that
  have failed: thesis if "?run = Some (exit_code ?fail, Some ?fail, [])"
    using that by (rule goal) (simp_all add: failure_def degraded_def)
  show thesis
  proof (cases "sv_calloc_items E \<and> sv_calloc_matches E")
    case False
    then show thesis by (intro failed) (auto simp: run_revoke_def Let_def)
  next
    case alloc: True
    obtain ret cset where
      coll: "collect_candidates E m (empty_set CA_SFO_MAX_CANDIDATES) True subject_id hc cid = Some (ret, cset)" and
      ok: "ret = 0 \<Longrightarrow> collected (selected True subject_id hc cid m) m ks cset \<and> cs_capacity cset = CA_SFO_MAX_CANDIDATES"
      by (rule collect_spec [OF walk empty_limits(1), of True subject_id hc cid]) (rule that; assumption)
    show thesis
    proof (cases "ret = 0")
      case False
      with alloc coll show thesis by (intro failed) (simp add: run_revoke_def Let_def)
    next
      case True
      with ok have col: "collected (selected True subject_id hc cid m) m ks cset" by simp
      have keys: "cset_keys cset = keys"
        unfolding keys_def by (rule collected_keys [OF col walk(2)], rule selected_present)
      have wf: "index_wf cset" using col by (simp add: collected_def)
      let ?r1 = "?r0\<lparr>rs_candidates := of_nat (length (cs_items cset))\<rparr>"
      obtain cset' r' log where
        run: "run_passes (revoke_pass E deadline ?start) [0..<3] (cset, ?r1, []) = Some (cset', r', log)" and
        logs: "\<exists>destroyed. log = [] @ destroyed \<and>
          (\<forall>ct \<in> set destroyed. \<exists>p \<in> set [0..<3]. ct \<in> set (snd (sv_dump E p)) \<and> hits_any (cset_keys cset) ct)" and
        res: "rs_result r' \<noteq> rs_result ?r1 \<Longrightarrow> \<exists>p \<in> set [0..<3]. quiet_dump E p (hits_any (cset_keys cset))"
        by (rule revoke_passes_cases [OF wf, of E deadline ?start "[0..<3]" ?r1 "[]"]) (rule that; assumption)
      let ?r = "revoke_out E ?start (check_deadline E deadline ?start r')"
      have "?run = Some (exit_code ?r, Some ?r, log)"
        using alloc coll True run by (simp add: run_revoke_def Let_def)
      then show thesis
      proof (rule goal)
        show "\<forall>ct \<in> set log. \<exists>p < 3. ct \<in> set (snd (sv_dump E p)) \<and> hits_any keys ct"
          using logs unfolding keys by (auto simp: atLeast0LessThan)
        assume "rs_result ?r = ''COMPLETE''"
        then have c: "rs_result r' = ''COMPLETE''" "\<not> rs_deadline_exceeded (check_deadline E deadline ?start r')"
          "monotonic_ms E Clock_End - ?start \<le> ucast deadline"
          using check_deadline_complete by auto
        then show "\<not> rs_deadline_exceeded ?r \<and> monotonic_ms E Clock_End - ?start \<le> ucast deadline \<and> (\<exists>p < 3. quiet_dump E p (hits_any keys))"
          using res unfolding keys by (auto simp: atLeast0LessThan)
      qed
    qed
  qed
qed

text \<open>
  C5 revoke_destroys_own_flows: every conntrack entry that a revocation asks the kernel to destroy was
  shown by a dump of that run and is the entry of a flow that the flow map records for the subject,
  and for the class if one was given.
\<close>

theorem revoke_destroys_own_flows:
  assumes "walk_ok (sv_flows E) ks" and "dom m \<subseteq> set ks"
    and run: "run_revoke E m subject_id have_class class_id deadline = Some (c, r, log)"
    and ct: "ct \<in> set log"
  shows "\<exists>k state. m k = Some state \<and> fk_subject_id k = subject_id \<and> (have_class \<longrightarrow> fs_class_id state = class_id) \<and>
    tuple_matches k ct \<and> (\<exists>p < 3. ct \<in> set (snd (sv_dump E p)))"
proof -
  obtain r' log' where "run_revoke E m subject_id have_class class_id deadline = Some (exit_code r', Some r', log')"
    "\<forall>ct \<in> set log'. \<exists>p < 3. ct \<in> set (snd (sv_dump E p)) \<and>
      hits_any {k. selected True subject_id have_class class_id m k} ct"
    by (rule run_revoke_cases [OF assms(1,2), of subject_id have_class class_id deadline]) (rule that; assumption)
  with run ct obtain p where "p < 3" "ct \<in> set (snd (sv_dump E p))"
    "hits_any {k. selected True subject_id have_class class_id m k} ct" by auto
  then show ?thesis
    by (auto simp: hits_any_def entry_of_def selected_def split: option.splits)
qed

text \<open>
  C12 revoke_complete_verified: a revocation exits with 0 only if one of its dumps was complete, showed
  no entry of any flow that the flow map records for the subject (and class), and showed no entry
  offloaded to hardware, whose packets the kernel does not see; and only if, by the clock, no more
  milliseconds than the deadline allows passed from its start to the end of its last pass.
\<close>

theorem revoke_complete_verified:
  assumes "walk_ok (sv_flows E) ks" and "dom m \<subseteq> set ks"
    and run: "run_revoke E m subject_id have_class class_id deadline = Some (0, r, log)"
  shows "\<exists>r'. r = Some r' \<and> \<not> rs_deadline_exceeded r' \<and>
    monotonic_ms E Clock_End - monotonic_ms E Clock_Start \<le> ucast deadline \<and>
    (\<exists>p < 3. fst (sv_dump E p) = 0 \<and>
      (\<forall>ct \<in> set (snd (sv_dump E p)). \<not> hw_offloaded ct \<and>
        (\<forall>k. selected True subject_id have_class class_id m k \<longrightarrow> \<not> tuple_matches k ct)))"
proof -
  let ?keys = "{k. selected True subject_id have_class class_id m k}"
  obtain r' log' where run': "run_revoke E m subject_id have_class class_id deadline = Some (exit_code r', Some r', log')" and
    ok: "rs_result r' = ''COMPLETE'' \<Longrightarrow> \<not> rs_deadline_exceeded r' \<and>
      monotonic_ms E Clock_End - monotonic_ms E Clock_Start \<le> ucast deadline \<and> (\<exists>p < 3. quiet_dump E p (hits_any ?keys))"
    by (rule run_revoke_cases [OF assms(1,2), of subject_id have_class class_id deadline]) (rule that; assumption)
  have r: "r = Some r'" "exit_code r' = 0" using run run' by simp_all
  obtain p where "p < 3" and q: "quiet_dump E p (hits_any ?keys)" and "\<not> rs_deadline_exceeded r'"
    "monotonic_ms E Clock_End - monotonic_ms E Clock_Start \<le> ucast deadline"
    using ok r(2) by (auto simp: exit_code_0)
  moreover have "\<not> tuple_matches k ct"
    if "ct \<in> set (snd (sv_dump E p))" "selected True subject_id have_class class_id m k" for ct k
    using q that entry_of_selected [OF that(2)] by (auto simp: quiet_dump_def hits_any_def)
  ultimately show ?thesis using r(1) q by (auto simp: quiet_dump_def)
qed


section \<open>A quiet system\<close>

text \<open>Pass \<open>p\<close> when everything it asks for works, and the dump fits.\<close>

lemma revoke_pass_served:
  assumes wf: "index_wf cset" and srv: "scan_serves E p"
    and room: "length (filter (hits_any (cset_keys cset)) (snd (sv_dump E p))) \<le> CA_SFO_MAX_CANDIDATES"
    and del: "sv_delete_open E p" "\<forall>i. sv_destroy E p i \<in> {0, ENOENT}"
  defines "hits \<equiv> filter (hits_any (cset_keys cset)) (snd (sv_dump E p))"
  shows "\<exists>cset' r'. index_wf cset' \<and> cset_keys cset' = cset_keys cset \<and>
    (if hits = [] then rs_result r' = ''COMPLETE'' \<and>
       revoke_pass E deadline start p (cset, r, log) = Some ((cset', r', log), True)
     else rs_result r' = rs_result r \<and>
       revoke_pass E deadline start p (cset, r, log) =
         Some ((cset', r', log @ hits), monotonic_ms E (Clock_Pass p) - start \<ge> ucast deadline))"
proof -
  let ?scan = "revoke_scan cset" and ?cts = "snd (sv_dump E p)"
  let ?cset0 = "cset\<lparr>cs_items := map (\<lambda>it. it\<lparr>cd_present := False\<rparr>) (cs_items cset)\<rparr>"
  have z: "sc_entries ?scan = 0" "sc_hardware_offloaded ?scan = 0" "sc_offloaded_only ?scan = False"
    "sc_candidates ?scan = Some ?cset0" "\<not> sc_snapshot_overflow ?scan"
    "sc_matches ?scan = Some \<lparr>cl_items = [], cl_capacity = CA_SFO_MAX_CANDIDATES, cl_overflow = False\<rparr>"
    by (simp_all add: revoke_scan_def zero_scan_def)
  have hits: "filter (wanted ?scan) ?cts = hits" by (simp add: hits_def revoke_scan_wanted)
  have "length (cl_items cl) + length (filter (wanted ?scan) ?cts) \<le> cl_capacity cl"
    if "sc_matches ?scan = Some cl" for cl
    using that z(6) room unfolding hits hits_def by auto
  from served_scan [OF srv revoke_scan_ok [OF wf] z(5,1,2) this] obtain s where
    run: "conntrack_scan E p ?scan = Some (0, s)" and c: "clean s" and hw: "sc_hardware_offloaded s = 0"
    and sc: "sc_candidates s = (if sc_offloaded_only ?scan then sc_candidates ?scan else map_option (see ?cts) (sc_candidates ?scan))"
    and sm: "sc_matches s = map_option (add_matches (filter (wanted ?scan) ?cts)) (sc_matches ?scan)"
    by blast
  let ?cset' = "see ?cts ?cset0"
  let ?cl = "\<lparr>cl_items = hits, cl_capacity = CA_SFO_MAX_CANDIDATES, cl_overflow = False\<rparr>"
  have sc': "sc_candidates s = Some ?cset'" using sc z(3,4) by simp
  have sm': "sc_matches s = Some ?cl" using sm z(6) hits by (simp add: add_matches_def)
  have wf': "index_wf ?cset'" "cset_keys ?cset' = cset_keys cset"
    using see_wf index_wf_map [OF wf, of "\<lambda>it. it\<lparr>cd_present := False\<rparr>"] see_keys [of ?cts ?cset0]
    by (simp_all add: image_image)
  let ?r1 = "(take_counts s (r\<lparr>rs_verification_passes := rs_verification_passes r + 1\<rparr>))\<lparr>
    rs_remaining := of_nat (length hits)\<rparr>"
  have body: "revoke_pass E deadline start p (cset, r, log) =
      (if hits = [] then Some ((?cset', ?r1\<lparr>rs_result := ''COMPLETE''\<rparr>, log), True)
       else (let (e, r, destroyed) = delete_conntracks E p ?cl ?r1 in
         if e \<noteq> 0 then Some ((?cset', failure r, log @ destroyed), True)
         else Some ((?cset', r, log @ destroyed), monotonic_ms E (Clock_Pass p) - start \<ge> ucast deadline)))"
    using run c hw sc' sm' by (simp add: revoke_pass_def revoke_scan_def clean_def Let_def)
  show ?thesis
  proof (cases "hits = []")
    case True
    with body wf' show ?thesis
      by (intro exI [of _ ?cset'] exI [of _ "?r1\<lparr>rs_result := ''COMPLETE''\<rparr>"]) simp
  next
    case False
    let ?d = "delete_conntracks E p ?cl ?r1"
    have "fst ?d = 0" "snd (snd ?d) = hits" using delete_all [OF del, of ?cl ?r1] by simp_all
    moreover have "rs_result (fst (snd ?d)) = rs_result r" by (simp add: delete_result)
    ultimately show ?thesis
      using False body wf' by (intro exI [of _ ?cset'] exI [of _ "fst (snd ?d)"]) (simp add: split_beta Let_def)
  qed
qed

text \<open>
  Nothing fails, nothing is offloaded to hardware, the tables fit, the clock stays within the deadline,
  and the second dump shows the first one without the entries of the flows, which were destroyed.
\<close>

definition quiet_system :: "sfo_env \<Rightarrow> ca_flow_key set \<Rightarrow> u32 \<Rightarrow> bool" where
  "quiet_system E keys deadline \<longleftrightarrow>
     sv_calloc_items E \<and> sv_calloc_matches E \<and> sv_malloc_buckets E \<and> sv_obj_get E 0 \<and>
     scan_serves E 0 \<and> scan_serves E 1 \<and>
     length (filter (hits_any keys) (snd (sv_dump E 0))) \<le> CA_SFO_MAX_CANDIDATES \<and>
     (\<forall>p. sv_delete_open E p \<and> (\<forall>i. sv_destroy E p i \<in> {0, ENOENT})) \<and>
     snd (sv_dump E 1) = filter (\<lambda>ct. \<not> hits_any keys ct) (snd (sv_dump E 0)) \<and>
     monotonic_ms E (Clock_Pass 0) - monotonic_ms E Clock_Start < ucast deadline \<and>
     monotonic_ms E Clock_End - monotonic_ms E Clock_Start \<le> ucast deadline"

lemma collect_success:
  assumes walk: "walk_ok (sv_flows E) ks" "dom m \<subseteq> set ks"
    and env: "sv_obj_get E 0" "sv_malloc_buckets E" and cap: "cap < 2 ^ 32 - 1"
    and fits: "length (filter (selected hs sid hc cid m) (present m ks)) \<le> cap"
  shows "\<exists>cset. collect_candidates E m (empty_set cap) hs sid hc cid = Some (0, cset)"
proof (cases "present m ks")
  case Nil
  then show ?thesis using env walk_first [OF walk] by (simp add: collect_candidates_def)
next
  case (Cons k post)
  let ?body = "collect_body m hs sid hc cid" and ?sel = "selected hs sid hc cid m"
  let ?cset = "(empty_set cap)\<lparr>cs_items := map (candidate m) (filter ?sel (k # post))\<rparr>"
  have e: "cs_items (empty_set cap) = []" "cs_capacity (empty_set cap) = cap" by (simp_all add: empty_set_def)
  have fits': "length (filter ?sel (k # post)) \<le> cap" using fits unfolding Cons .
  have "each_key (\<lambda>s k. mo_next_key (sv_flows E) m (Some k)) ?body k (empty_set cap) =
      Some (walk_fold ?body (k # post) (empty_set cap))"
    by (rule each_key_const [OF walk Cons])
  moreover have "walk_fold ?body (k # post) (empty_set cap) = ?cset"
    using collect_fold [of "empty_set cap" hs sid hc cid m "k # post", unfolded e] fits' by simp
  moreover have "\<not> cs_overflow ?cset" by (simp add: empty_set_def)
  ultimately have run: "collect_candidates E m (empty_set cap) hs sid hc cid = index_candidates True ?cset"
    using env walk_first [OF walk] Cons by (simp add: collect_candidates_def)
  have "length (cs_items ?cset) < 2 ^ 32 - 1" using fits' cap by simp
  then show ?thesis
    by (cases rule: index_candidates_total [where malloc = True]) (use run in simp_all)
qed

lemma quiet_run:
  assumes walk: "walk_ok (sv_flows E) ks" "dom m \<subseteq> set ks"
    and quiet: "quiet_system E {k. selected True subject_id have_class class_id m k} deadline"
    and fits: "length (filter (selected True subject_id have_class class_id m) (present m ks)) \<le> CA_SFO_MAX_CANDIDATES"
  shows "\<exists>r. run_revoke E m subject_id have_class class_id deadline = Some (0, Some r,
    filter (\<lambda>ct. \<exists>k. selected True subject_id have_class class_id m k \<and> tuple_matches k ct) (snd (sv_dump E 0)))"
proof -
  let ?sel = "selected True subject_id have_class class_id m"
  let ?keys = "{k. ?sel k}" and ?start = "monotonic_ms E Clock_Start"
  let ?hits = "filter (hits_any ?keys) (snd (sv_dump E 0))"
  have q: "sv_calloc_items E" "sv_calloc_matches E" "sv_malloc_buckets E" "sv_obj_get E 0"
    "scan_serves E 0" "scan_serves E 1" "length ?hits \<le> CA_SFO_MAX_CANDIDATES"
    "\<And>p. sv_delete_open E p" "\<And>p. \<forall>i. sv_destroy E p i \<in> {0, ENOENT}"
    "snd (sv_dump E 1) = filter (\<lambda>ct. \<not> hits_any ?keys ct) (snd (sv_dump E 0))"
    "monotonic_ms E (Clock_Pass 0) - ?start < ucast deadline" "monotonic_ms E Clock_End - ?start \<le> ucast deadline"
    using quiet by (auto simp: quiet_system_def)
  obtain cset where coll: "collect_candidates E m (empty_set CA_SFO_MAX_CANDIDATES) True subject_id have_class class_id = Some (0, cset)"
    using collect_success [OF walk q(4,3) empty_limits(1) fits] by blast
  then have col: "collected ?sel m ks cset"
    by (rule_tac collect_spec [OF walk empty_limits(1), of True subject_id have_class class_id]) simp
  have wf: "index_wf cset" using col by (simp add: collected_def)
  have keys: "cset_keys cset = ?keys" by (rule collected_keys [OF col walk(2)], rule selected_present)
  have hits: "hits_any ?keys ct = (\<exists>k. ?sel k \<and> tuple_matches k ct)" for ct
    using entry_of_selected by (auto simp: hits_any_def)
  let ?r0 = "(start_result ''FAILED'' False)\<lparr>rs_candidates := of_nat (length (cs_items cset))\<rparr>"
  have late: "\<not> monotonic_ms E (Clock_Pass 0) - ?start \<ge> ucast deadline" using q(11) by (simp add: not_le)
  have "\<exists>cset' r'. rs_result r' = ''COMPLETE'' \<and>
    run_passes (revoke_pass E deadline ?start) [0, 1, 2] (cset, ?r0, []) = Some (cset', r', ?hits)"
  proof -
    obtain cset1 r1 where p0: "index_wf cset1" "cset_keys cset1 = ?keys"
      "if ?hits = [] then rs_result r1 = ''COMPLETE'' \<and>
         revoke_pass E deadline ?start 0 (cset, ?r0, []) = Some ((cset1, r1, []), True)
       else rs_result r1 = rs_result ?r0 \<and>
         revoke_pass E deadline ?start 0 (cset, ?r0, []) = Some ((cset1, r1, [] @ ?hits), False)"
    proof -
      have room: "length (filter (hits_any (cset_keys cset)) (snd (sv_dump E 0))) \<le> CA_SFO_MAX_CANDIDATES"
        unfolding keys by (rule q(7))
      have lateF: "(monotonic_ms E (Clock_Pass 0) - ?start \<ge> ucast deadline) = False" using late by simp
      from revoke_pass_served [OF wf q(5) room q(8,9), of deadline ?start ?r0 "[]", unfolded keys lateF]
      show thesis by (elim exE conjE) (rule that)
    qed
    show ?thesis
    proof (cases "?hits = []")
      case True
      with p0(3) show ?thesis by (intro exI [of _ cset1] exI [of _ r1]) simp
    next
      case False
      have none: "filter (hits_any (cset_keys cset1)) (snd (sv_dump E 1)) = []"
        unfolding p0(2) q(10) by (simp add: filter_empty_conv)
      obtain cset2 r2 where "rs_result r2 = ''COMPLETE''"
        "revoke_pass E deadline ?start 1 (cset1, r1, ?hits) = Some ((cset2, r2, ?hits), True)"
      proof -
        have room: "length (filter (hits_any (cset_keys cset1)) (snd (sv_dump E 1))) \<le> CA_SFO_MAX_CANDIDATES"
          unfolding none by simp
        from revoke_pass_served [OF p0(1) q(6) room q(8,9), of deadline ?start r1 ?hits, unfolded none]
        show thesis using that by auto
      qed
      with p0(3) False show ?thesis by (intro exI [of _ cset2] exI [of _ r2]) simp
    qed
  qed
  then obtain cset' r' where done': "rs_result r' = ''COMPLETE''"
    "run_passes (revoke_pass E deadline ?start) [0, 1, 2] (cset, ?r0, []) = Some (cset', r', ?hits)" by blast
  let ?r = "revoke_out E ?start (check_deadline E deadline ?start r')"
  have "rs_result (check_deadline E deadline ?start r') = ''COMPLETE''"
    using done'(1) q(12) by (simp add: check_deadline_def Let_def not_less)
  moreover have "[0, 1, 2] = [0..<3]" by (simp add: upt_rec)
  note run3 = done'(2) [unfolded this]
  ultimately have "run_revoke E m subject_id have_class class_id deadline = Some (0, Some ?r, ?hits)"
    using q(1,2) coll run3 by (simp add: run_revoke_def Let_def exit_code_def del: run_passes.simps)
  then show ?thesis unfolding hits by blast
qed

text \<open>
  C25 quiet_revoke_succeeds: in a quiet system a revocation within its limits succeeds: it destroys
  exactly the entries of the subject's flows that the first dump shows, in the order of the dump, and
  exits with 0.
\<close>

theorem quiet_revoke_succeeds:
  assumes walk: "walk_ok (sv_flows E) ks" "dom m \<subseteq> set ks"
    and quiet: "quiet_system E {k. selected True subject_id have_class class_id m k} deadline"
    and fits: "length (filter (selected True subject_id have_class class_id m) (present m ks)) \<le> CA_SFO_MAX_CANDIDATES"
  shows "\<exists>r. run_revoke E m subject_id have_class class_id deadline = Some (0, Some r,
    filter (\<lambda>ct. \<exists>k. selected True subject_id have_class class_id m k \<and> tuple_matches k ct) (snd (sv_dump E 0)))"
  by (rule quiet_run [OF assms])

end
