(* ===== verification/Sfo_Housekeeping.thy ===== *)
theory Sfo_Housekeeping
  imports Sfo_Properties
begin

text \<open>
  The other commands of the offload tool: \<open>baseline\<close>, which evicts every software-offloaded entry,
  \<open>gc\<close>, which forgets idle TCP and UDP flows without a conntrack entry, and \<open>status\<close>; and the whole tool, which
  always returns.
\<close>

section \<open>baseline\<close>

definition baseline_scan :: ca_scan where
  "baseline_scan = zero_scan\<lparr>sc_offloaded_only := True,
     sc_matches := Some \<lparr>cl_items = [], cl_capacity = CA_SFO_MAX_FALLBACK_EVICTIONS, cl_overflow = False\<rparr>\<rparr>"

text \<open>Offloaded in software only.\<close>

definition evictable :: "nf_conntrack \<Rightarrow> bool" where
  "evictable ct \<longleftrightarrow> sw_offloaded ct \<and> \<not> hw_offloaded ct"

lemma baseline_wanted: "wanted baseline_scan = evictable"
  by (simp add: fun_eq_iff wanted_def baseline_scan_def evictable_def sw_offloaded_def hw_offloaded_def)

lemma baseline_pass_cases:
  obtains r' log' left where
    "baseline_pass E deadline start p (r, log) = Some ((r', log'), left)"
    "\<exists>destroyed. log' = log @ destroyed \<and> set destroyed \<subseteq> {ct \<in> set (snd (sv_dump E p)). evictable ct}"
    "rs_result r' \<noteq> rs_result r \<Longrightarrow> left \<and> quiet_dump E p evictable"
proof -
  let ?scan = baseline_scan and ?cts = "snd (sv_dump E p)"
  have z: "sc_entries ?scan = 0" "sc_hardware_offloaded ?scan = 0" "sc_candidates ?scan = None"
    "sc_matches ?scan = Some \<lparr>cl_items = [], cl_capacity = CA_SFO_MAX_FALLBACK_EVICTIONS, cl_overflow = False\<rparr>"
    by (simp_all add: baseline_scan_def zero_scan_def)
  have ok: "scan_ok ?scan" using z(3,4) by (simp add: scan_ok_def)
  obtain ret s where
    run: "conntrack_scan E p ?scan = Some (ret, s)" and
    shape0: "sc_candidates s = None \<longleftrightarrow> sc_candidates ?scan = None" and
    shape: "sc_matches s = None \<longleftrightarrow> sc_matches ?scan = None" and
    good: "ret = 0 \<Longrightarrow> clean s \<Longrightarrow> fst (sv_dump E p) = 0 \<and>
      (sc_hardware_offloaded s = 0 \<longleftrightarrow> (\<forall>ct \<in> set ?cts. \<not> hw_offloaded ct)) \<and>
      sc_candidates s = (if sc_offloaded_only ?scan then sc_candidates ?scan
        else map_option (see ?cts) (sc_candidates ?scan)) \<and>
      sc_matches s = map_option (add_matches (filter (wanted ?scan) ?cts)) (sc_matches ?scan)"
    by (rule conntrack_scan_spec [OF ok z(1,2), of E p]) (rule that; assumption)
  obtain cl where sc: "sc_matches s = Some cl" using shape z(4) by auto
  let ?r1 = "r\<lparr>rs_verification_passes := rs_verification_passes r + 1\<rparr>"
  let ?r2 = "(take_counts s ?r1)\<lparr>rs_remaining := of_nat (length (cl_items cl))\<rparr>"
  let ?r3 = "?r2\<lparr>rs_fallback_evictions := rs_fallback_evictions ?r2 + of_nat (length (cl_items cl))\<rparr>"
  let ?d = "delete_conntracks E p cl ?r3"
  have body: "baseline_pass E deadline start p (r, log) = Some (
      if ret \<noteq> 0 \<or> sc_snapshot_overflow s \<or> cl_overflow cl then ((degraded (failure ?r1), log), True)
      else if sc_hardware_offloaded s \<noteq> 0 then ((degraded ?r2, log), True)
      else if cl_items cl = [] then ((?r2\<lparr>rs_result := ''COMPLETE''\<rparr>, log), True)
      else if fst ?d \<noteq> 0 then ((failure (fst (snd ?d)), log @ snd (snd ?d)), True)
      else ((fst (snd ?d), log @ snd (snd ?d)), monotonic_ms E (Clock_Pass p) - start \<ge> ucast deadline))"
    using run sc by (simp add: baseline_pass_def baseline_scan_def Let_def split_beta)
  show thesis
  proof (cases "ret \<noteq> 0 \<or> sc_snapshot_overflow s \<or> cl_overflow cl")
    case True
    with body show thesis by (intro that [of "degraded (failure ?r1)" log True]) simp_all
  next
    case fine: False
    then have "ret = 0" "clean s" using sc by (simp_all add: clean_def)
    from good [OF this] sc z(4) have g: "fst (sv_dump E p) = 0"
      "sc_hardware_offloaded s = 0 \<longleftrightarrow> (\<forall>ct \<in> set ?cts. \<not> hw_offloaded ct)"
      "cl_items cl = filter evictable ?cts"
      by (simp_all add: add_matches_def baseline_wanted)
    consider (hw) "sc_hardware_offloaded s \<noteq> 0" | (quiet) "sc_hardware_offloaded s = 0" "cl_items cl = []"
      | (del) "sc_hardware_offloaded s = 0" "cl_items cl \<noteq> []" by blast
    then show thesis
    proof cases
      case hw
      with fine body show thesis by (intro that [of "degraded ?r2" log True]) simp_all
    next
      case quiet
      then have "quiet_dump E p evictable" using g by (auto simp: quiet_dump_def filter_empty_conv)
      with quiet fine body show thesis by (intro that [of "?r2\<lparr>rs_result := ''COMPLETE''\<rparr>" log True]) simp_all
    next
      case del
      have sub: "set (snd (snd ?d)) \<subseteq> {ct \<in> set ?cts. evictable ct}"
        using delete_log [of E p cl ?r3] by (auto simp: g(3))
      have res: "rs_result (fst (snd ?d)) = rs_result r" by (simp add: delete_result)
      show thesis
      proof (cases "fst ?d = 0")
        case True
        with del fine body sub res show thesis
          by (intro that [of "fst (snd ?d)" "log @ snd (snd ?d)"]) auto
      next
        case False
        with del fine body sub res show thesis
          by (intro that [of "failure (fst (snd ?d))" "log @ snd (snd ?d)" True]) auto
      qed
    qed
  qed
qed

lemma baseline_passes_cases:
  obtains r' log' where "run_passes (baseline_pass E deadline start) ps (r, log) = Some (r', log')"
    "\<exists>destroyed. log' = log @ destroyed \<and>
      (\<forall>ct \<in> set destroyed. \<exists>p \<in> set ps. ct \<in> set (snd (sv_dump E p)) \<and> evictable ct)"
    "rs_result r' \<noteq> rs_result r \<Longrightarrow> \<exists>p \<in> set ps. quiet_dump E p evictable"
proof -
  have "\<exists>r' log'. run_passes (baseline_pass E deadline start) ps (r, log) = Some (r', log') \<and>
      (\<exists>destroyed. log' = log @ destroyed \<and>
        (\<forall>ct \<in> set destroyed. \<exists>p \<in> set ps. ct \<in> set (snd (sv_dump E p)) \<and> evictable ct)) \<and>
      (rs_result r' \<noteq> rs_result r \<longrightarrow> (\<exists>p \<in> set ps. quiet_dump E p evictable))"
  proof (induction ps arbitrary: r log)
    case Nil
    then show ?case by simp
  next
    case (Cons p ps)
    obtain r1 log1 left where
      step: "baseline_pass E deadline start p (r, log) = Some ((r1, log1), left)" and
      logs: "\<exists>destroyed. log1 = log @ destroyed \<and> set destroyed \<subseteq> {ct \<in> set (snd (sv_dump E p)). evictable ct}" and
      res: "rs_result r1 \<noteq> rs_result r \<Longrightarrow> left \<and> quiet_dump E p evictable"
      by (rule baseline_pass_cases [of E deadline start p r log]) (rule that; assumption)
    show ?case
    proof (cases left)
      case True
      with step logs res show ?thesis by auto
    next
      case False
      with res have r1: "rs_result r1 = rs_result r" by blast
      from Cons.IH [of r1 log1, unfolded r1] obtain r' log' where all:
        "run_passes (baseline_pass E deadline start) ps (r1, log1) = Some (r', log') \<and>
         (\<exists>destroyed. log' = log1 @ destroyed \<and>
          (\<forall>ct \<in> set destroyed. \<exists>p \<in> set ps. ct \<in> set (snd (sv_dump E p)) \<and> evictable ct)) \<and>
         (rs_result r' \<noteq> rs_result r \<longrightarrow> (\<exists>p \<in> set ps. quiet_dump E p evictable))"
        by (elim exE) (rule that)
      obtain d1 where d1: "log1 = log @ d1" "set d1 \<subseteq> {ct \<in> set (snd (sv_dump E p)). evictable ct}"
        using logs by blast
      obtain d2 where d2: "log' = log1 @ d2"
        "\<forall>ct \<in> set d2. \<exists>p \<in> set ps. ct \<in> set (snd (sv_dump E p)) \<and> evictable ct"
        using all by blast
      have "log' = log @ (d1 @ d2)" using d1(1) d2(1) by simp
      moreover have "\<forall>ct \<in> set (d1 @ d2). \<exists>q \<in> set (p # ps). ct \<in> set (snd (sv_dump E q)) \<and> evictable ct"
        using d1(2) d2(2) by auto
      moreover have "run_passes (baseline_pass E deadline start) (p # ps) (r, log) = Some (r', log')"
        using step False all by simp
      moreover have "rs_result r' \<noteq> rs_result r \<longrightarrow> (\<exists>q \<in> set (p # ps). quiet_dump E q evictable)"
        using all by auto
      ultimately show ?thesis by blast
    qed
  qed
  then show thesis using that by blast
qed

lemma run_baseline_cases:
  obtains (nomem) "run_baseline E deadline = Some (1, None, [])"
  | (ran) r log where "run_baseline E deadline = Some (exit_code r, Some r, log)"
    "\<forall>ct \<in> set log. \<exists>p < 3. ct \<in> set (snd (sv_dump E p)) \<and> evictable ct"
    "rs_result r = ''COMPLETE'' \<Longrightarrow> \<exists>p < 3. quiet_dump E p evictable"
proof (cases "sv_calloc_matches E")
  case False
  then show thesis by (intro nomem) (simp add: run_baseline_def Let_def)
next
  case True
  let ?start = "monotonic_ms E Clock_Start"
  obtain r' log where
    run: "run_passes (baseline_pass E deadline ?start) [0..<3] (start_result ''FAILED'' True, []) = Some (r', log)" and
    logs: "\<exists>destroyed. log = [] @ destroyed \<and>
      (\<forall>ct \<in> set destroyed. \<exists>p \<in> set [0..<3]. ct \<in> set (snd (sv_dump E p)) \<and> evictable ct)" and
    res: "rs_result r' \<noteq> rs_result (start_result ''FAILED'' True) \<Longrightarrow> \<exists>p \<in> set [0..<3]. quiet_dump E p evictable"
    by (rule baseline_passes_cases [of E deadline ?start "[0..<3]" "start_result ''FAILED'' True" "[]"]) (rule that; assumption)
  let ?r = "check_deadline E deadline ?start r'"
  have "run_baseline E deadline = Some (exit_code ?r, Some ?r, log)"
    using True run by (simp add: run_baseline_def Let_def)
  then show thesis
  proof (rule ran)
    show "\<forall>ct \<in> set log. \<exists>p < 3. ct \<in> set (snd (sv_dump E p)) \<and> evictable ct"
      using logs by (auto simp: atLeast0LessThan)
    assume "rs_result ?r = ''COMPLETE''"
    then have "rs_result r' = ''COMPLETE''" using check_deadline_complete by blast
    with res show "\<exists>p < 3. quiet_dump E p evictable" by (auto simp: atLeast0LessThan)
  qed
qed

text \<open>
  C35 baseline_evicts: the broad fallback destroys software-offloaded entries only, and exits with 0
  only after a complete dump without any offloaded entry, in software or in hardware.
\<close>

theorem baseline_evicts:
  assumes run: "run_baseline E deadline = Some (c, r, log)"
  shows "(\<forall>ct \<in> set log. sw_offloaded ct \<and> \<not> hw_offloaded ct) \<and>
    (c = 0 \<longrightarrow> (\<exists>p < 3. fst (sv_dump E p) = 0 \<and>
      (\<forall>ct \<in> set (snd (sv_dump E p)). \<not> sw_offloaded ct \<and> \<not> hw_offloaded ct)))"
proof (cases rule: run_baseline_cases [of E deadline])
  case nomem
  with run show ?thesis by auto
next
  case (ran r' log')
  with run have eq: "c = exit_code r'" "log = log'" by simp_all
  have "\<forall>ct \<in> set log. sw_offloaded ct \<and> \<not> hw_offloaded ct" using ran(2) eq by (auto simp: evictable_def)
  moreover have "\<exists>p < 3. fst (sv_dump E p) = 0 \<and>
      (\<forall>ct \<in> set (snd (sv_dump E p)). \<not> sw_offloaded ct \<and> \<not> hw_offloaded ct)" if "c = 0"
    using ran(3) that eq by (auto simp: exit_code_0 quiet_dump_def evictable_def)
  ultimately show ?thesis by blast
qed

section \<open>gc\<close>

text \<open>A delete that says there is no such key tells the truth.\<close>

definition delete_exact :: "('k, 'v) map_ops \<Rightarrow> bool" where
  "delete_exact ops \<longleftrightarrow> map_delete_ok ops \<and> (\<forall>m k. fst (mo_delete ops m k) = ENOENT \<longrightarrow> m k = None)"

definition due :: "u64 \<Rightarrow> ca_candidate \<Rightarrow> bool" where
  "due cutoff it \<longleftrightarrow> \<not> cd_present it \<and> fs_last_seen_ns (cd_state it) < cutoff"

lemma gc_loop_spec:
  assumes ok: "delete_exact (sv_flows E)" and run: "gc_loop E cutoff its m r = (whole, m', r')"
  shows "(\<forall>k. m' k = m k \<or> m' k = None \<and> (\<exists>it \<in> set its. cd_key it = k \<and> due cutoff it)) \<and>
    (whole \<longrightarrow> (\<forall>it \<in> set its. due cutoff it \<longrightarrow> m' (cd_key it) = None)) \<and> rs_result r' = rs_result r"
  using run
proof (induction its arbitrary: m r)
  case Nil
  then show ?case by simp
next
  case (Cons it its)
  show ?case
  proof (cases "due cutoff it")
    case False
    then have "gc_loop E cutoff its m r = (whole, m', r')" using Cons.prems by (auto simp: due_def not_less)
    from Cons.IH [OF this] False show ?thesis by auto
  next
    case True
    obtain e m1 where d: "mo_delete (sv_flows E) m (cd_key it) = (e, m1)" by fastforce
    then have m1: "m1 = (if e = 0 then m(cd_key it := None) else m)" "e = ENOENT \<Longrightarrow> m (cd_key it) = None"
      using ok unfolding delete_exact_def map_delete_ok_def by (metis fst_conv snd_conv)+
    show ?thesis
    proof (cases "e = 0 \<or> e = ENOENT")
      case False
      with True d m1 Cons.prems have "m' = m" "\<not> whole" "rs_result r' = rs_result r"
        by (auto simp: due_def not_le[symmetric])
      then show ?thesis by simp
    next
      case e: True
      define r1 where "r1 = (if e = 0 then r\<lparr>rs_gc_reclaimed := rs_gc_reclaimed r + 1\<rparr> else r)"
      have "gc_loop E cutoff its m1 r1 = (whole, m', r')"
        using True d e Cons.prems by (auto simp: due_def not_le[symmetric] r1_def split: if_splits)
      note IH = Cons.IH [OF this]
      have gone: "m1 (cd_key it) = None" using m1 e by auto
      moreover have "m1 k = m k \<or> k = cd_key it" for k using m1(1) by auto
      moreover have "m' (cd_key it) = None" using IH gone by metis
      moreover have "rs_result r1 = rs_result r" by (simp add: r1_def)
      ultimately show ?thesis using IH True by (metis list.set_intros set_ConsD)
    qed
  qed
qed

text \<open>The loop comes to its end when no deletion fails but for an absent key.\<close>

lemma gc_loop_whole:
  assumes "\<And>m k. fst (mo_delete (sv_flows E) m k) \<in> {0, ENOENT}"
  shows "fst (gc_loop E cutoff its m r)"
proof (induction its arbitrary: m r)
  case Nil
  then show ?case by simp
next
  case (Cons it its)
  have "fst (mo_delete (sv_flows E) m (cd_key it)) = 0 \<or> fst (mo_delete (sv_flows E) m (cd_key it)) = ENOENT"
    using assms by blast
  with Cons.IH show ?case by (auto simp: split_beta)
qed

text \<open>The flows a collection may forget.\<close>

definition forgettable :: "sfo_env \<Rightarrow> (ca_flow_key \<rightharpoonup> ca_flow_state) \<Rightarrow> u64 \<Rightarrow> ca_flow_key \<Rightarrow> bool" where
  "forgettable E m cutoff k \<longleftrightarrow>
     (\<exists>state. m k = Some state \<and> supported_flow k \<and> fs_last_seen_ns state < cutoff \<and>
       (\<forall>ct \<in> set (snd (sv_dump E 0)). \<not> tuple_matches k ct))"

lemma run_gc_cases:
  assumes walk: "walk_ok (sv_flows E) ks" "dom m \<subseteq> set ks"
  obtains (refused) r where "run_gc E m idle = Some (exit_code r, Some r, m)" "rs_result r = ''FAILED''"
  | (swept) now r its where "sv_clock E Clock_Start = Some now" "fst (sv_dump E 0) = 0"
      "\<forall>ct \<in> set (snd (sv_dump E 0)). \<not> hw_offloaded ct"
      "run_gc E m idle = Some (let (whole, m', r) = gc_loop E (gc_cutoff now idle) its (sv_meanwhile E m) r;
          r = (if whole then r\<lparr>rs_result := ''COMPLETE''\<rparr> else r) in (exit_code r, Some r, m'))"
      "rs_result r = ''FAILED''"
      "{k. \<exists>it \<in> set its. cd_key it = k \<and> due (gc_cutoff now idle) it} = {k. forgettable E m (gc_cutoff now idle) k}"
proof -
  let ?r0 = "start_result ''FAILED'' False"
  let ?run = "run_gc E m idle"
  note goal = refused swept
  have failed: thesis if "?run = Some (exit_code (failure (degraded r)), Some (failure (degraded r)), m)"
      "rs_result r = ''FAILED''" for r
    using that by (intro refused [of "failure (degraded r)"]) simp_all
  show thesis
  proof (cases "sv_calloc_items E")
    case False
    then show thesis by (intro failed [of ?r0]) (simp_all add: run_gc_def Let_def)
  next
    case alloc: True
    obtain ret cset where coll: "collect_candidates E m (empty_set CA_MAX_FLOWS) False 0 False 0 = Some (ret, cset)" and
      ok: "ret = 0 \<Longrightarrow> collected (selected False 0 False 0 m) m ks cset \<and> cs_capacity cset = CA_MAX_FLOWS"
      by (rule collect_spec [OF walk empty_limits(2), of False 0 False 0]) (rule that; assumption)
    show thesis
    proof (cases "ret = 0 \<and> sv_clock E Clock_Start \<noteq> None")
      case False
      with alloc coll show thesis
        by (intro failed [of ?r0]) (auto simp: run_gc_def Let_def split: option.split)
    next
      case True
      then obtain now where now: "sv_clock E Clock_Start = Some now" by auto
      have col: "collected (selected False 0 False 0 m) m ks cset" using True ok by simp
      have wf: "index_wf cset" using col by (simp add: collected_def)
      let ?scan = "zero_scan\<lparr>sc_candidates := Some cset\<rparr>" and ?cts = "snd (sv_dump E 0)"
      let ?r1 = "?r0\<lparr>rs_candidates := of_nat (length (cs_items cset)), rs_tracked_flows := of_nat (length (cs_items cset))\<rparr>"
      have z: "scan_ok ?scan" "sc_entries ?scan = 0" "sc_hardware_offloaded ?scan = 0" "sc_offloaded_only ?scan = False"
        "sc_candidates ?scan = Some cset" "sc_matches ?scan = None"
        using wf by (simp_all add: zero_scan_def scan_ok_def)
      obtain ret' s where
        run: "conntrack_scan E 0 ?scan = Some (ret', s)" and
        shape: "sc_candidates s = None \<longleftrightarrow> sc_candidates ?scan = None" "sc_matches s = None \<longleftrightarrow> sc_matches ?scan = None" and
        good: "ret' = 0 \<Longrightarrow> clean s \<Longrightarrow> fst (sv_dump E 0) = 0 \<and>
          (sc_hardware_offloaded s = 0 \<longleftrightarrow> (\<forall>ct \<in> set ?cts. \<not> hw_offloaded ct)) \<and>
          sc_candidates s = (if sc_offloaded_only ?scan then sc_candidates ?scan
            else map_option (see ?cts) (sc_candidates ?scan)) \<and>
          sc_matches s = map_option (add_matches (filter (wanted ?scan) ?cts)) (sc_matches ?scan)"
        by (rule conntrack_scan_spec [OF z(1-3), of E 0]) (rule that; assumption)
      obtain cset' where cset': "sc_candidates s = Some cset'" using shape(1) z(5) by auto
      show thesis
      proof (cases "ret' \<noteq> 0 \<or> sc_snapshot_overflow s")
        case bad: True
        with alloc coll True now run cset' show thesis
          by (intro failed [of ?r1]) (auto simp: run_gc_def Let_def)
      next
        case fine: False
        let ?r2 = "take_counts s ?r1"
        have cl: "clean s" using fine shape(2) z(6) by (simp add: clean_def)
        with good fine z(4,5) cset' have g: "fst (sv_dump E 0) = 0"
          "sc_hardware_offloaded s = 0 \<longleftrightarrow> (\<forall>ct \<in> set ?cts. \<not> hw_offloaded ct)" "cset' = see ?cts cset" by simp_all
        show thesis
        proof (cases "sc_hardware_offloaded s \<noteq> 0")
          case hw: True
          with alloc coll True now run cset' fine show thesis
            by (intro refused [of "degraded ?r2"]) (auto simp: run_gc_def Let_def)
        next
          case sw: False
          show thesis
          proof (cases "sv_obj_get E 1")
            case shut: False
            with alloc coll True now run cset' fine sw show thesis
              by (intro failed [of ?r2]) (auto simp: run_gc_def Let_def)
          next
            case opened: True
            let ?cut = "gc_cutoff now idle"
            have "?run = Some (let (whole, m', r) = gc_loop E ?cut (cs_items cset') (sv_meanwhile E m) ?r2;
                r = (if whole then r\<lparr>rs_result := ''COMPLETE''\<rparr> else r) in (exit_code r, Some r, m'))"
              using alloc coll True now run cset' fine sw opened
              by (simp add: run_gc_def Let_def split_beta)
            moreover have "{k. \<exists>it \<in> set (cs_items cset'). cd_key it = k \<and> due ?cut it} = {k. forgettable E m ?cut k}"
            proof -
              have view: "set (map (\<lambda>it. (cd_key it, cd_state it, cd_present it)) (cs_items cset)) =
                  set (map (\<lambda>k. (k, the (m k), False)) (filter (selected False 0 False 0 m) (present m ks)))"
                using col unfolding collected_def by simp
              have it: "(\<exists>it \<in> set (cs_items cset). cd_key it = k \<and> cd_state it = st \<and> \<not> cd_present it) \<longleftrightarrow>
                  selected False 0 False 0 m k \<and> m k = Some st" for k st
              proof -
                have "(\<exists>it \<in> set (cs_items cset). cd_key it = k \<and> cd_state it = st \<and> \<not> cd_present it) \<longleftrightarrow>
                    (k, st, False) \<in> set (map (\<lambda>it. (cd_key it, cd_state it, cd_present it)) (cs_items cset))"
                  by force
                also have "\<dots> \<longleftrightarrow> selected False 0 False 0 m k \<and> m k = Some st"
                  unfolding view using walk(2) selected_present [of False 0 False 0 m k] by force
                finally show ?thesis .
              qed
              have "due ?cut (set_seen ?cts it) \<longleftrightarrow> \<not> cd_present it \<and> fs_last_seen_ns (cd_state it) < ?cut \<and>
                  (\<forall>ct \<in> set ?cts. \<not> entry_of (cd_key it) ct)" for it
                by (auto simp: due_def set_seen_def)
              then have "(\<exists>it \<in> set (cs_items cset'). cd_key it = k \<and> due ?cut it) \<longleftrightarrow>
                  (\<exists>st. (\<exists>it \<in> set (cs_items cset). cd_key it = k \<and> cd_state it = st \<and> \<not> cd_present it) \<and>
                     fs_last_seen_ns st < ?cut \<and> (\<forall>ct \<in> set ?cts. \<not> entry_of k ct))" for k
                by (auto simp: g(3) see_def) (auto simp: set_seen_def)
              then show ?thesis
                unfolding it by (auto simp: forgettable_def selected_def entry_of_supported split: option.splits)
            qed
            ultimately show thesis using now g sw by (intro swept [where now = now and r = ?r2 and its = "cs_items cset'"]) simp_all
          qed
        qed
      qed
    qed
  qed
qed


text \<open>
  C36 gc_forgets_idle_flows: a collection takes out of the flow map only TCP and UDP flows that were
  idle for the given time when it looked and have no entry in a complete conntrack dump; when it exits
  with 0 it has taken out all of these, when it fails it may have taken out some or none.  Flows of other
  protocols, which the datapath tracks as well, are never taken out.  Whatever the datapath wrote
  in the meantime is otherwise left as it is.
\<close>

theorem gc_forgets_idle_flows:
  assumes walk: "walk_ok (sv_flows E) ks" "dom m \<subseteq> set ks" and del: "delete_exact (sv_flows E)"
    and run: "run_gc E m idle = Some (c, r, m')"
  shows "c \<noteq> 0 \<and> m' = m \<or>
    (\<exists>now. sv_clock E Clock_Start = Some now \<and> fst (sv_dump E 0) = 0 \<and>
      (\<forall>k. m' k = sv_meanwhile E m k \<or> m' k = None \<and> forgettable E m (gc_cutoff now idle) k) \<and>
      (\<forall>k. fk_ip_proto k \<noteq> 6 \<and> fk_ip_proto k \<noteq> 17 \<longrightarrow> m' k = sv_meanwhile E m k) \<and>
      (c = 0 \<longrightarrow> (\<forall>k. forgettable E m (gc_cutoff now idle) k \<longrightarrow> m' k = None)))"
  using walk
proof (cases rule: run_gc_cases [where idle = idle])
  case (refused r')
  with run show ?thesis by (auto simp: exit_code_def)
next
  case (swept now r0 its)
  obtain whole' m1 r1 where g: "gc_loop E (gc_cutoff now idle) its (sv_meanwhile E m) r0 = (whole', m1, r1)"
    by (cases "gc_loop E (gc_cutoff now idle) its (sv_meanwhile E m) r0")
  have "run_gc E m idle = Some (let r = (if whole' then r1\<lparr>rs_result := ''COMPLETE''\<rparr> else r1) in (exit_code r, Some r, m1))"
    using swept(4) g by (simp add: Let_def)
  with run have m1: "m' = m1" "c = exit_code (if whole' then r1\<lparr>rs_result := ''COMPLETE''\<rparr> else r1)"
    by (auto simp: Let_def)
  note spec = gc_loop_spec [OF del g]
  have keys: "(\<exists>it \<in> set its. cd_key it = k \<and> due (gc_cutoff now idle) it) \<longleftrightarrow> forgettable E m (gc_cutoff now idle) k" for k
    using swept(6) by blast
  have taken: "\<forall>k. m' k = sv_meanwhile E m k \<or> m' k = None \<and> forgettable E m (gc_cutoff now idle) k"
    using spec unfolding keys m1 by blast
  moreover have "\<not> forgettable E m (gc_cutoff now idle) k" if "fk_ip_proto k \<noteq> 6" "fk_ip_proto k \<noteq> 17" for k
    using that by (simp add: forgettable_def supported_flow_def)
  with taken have "\<forall>k. fk_ip_proto k \<noteq> 6 \<and> fk_ip_proto k \<noteq> 17 \<longrightarrow> m' k = sv_meanwhile E m k" by blast
  moreover have "m' k = None" if c0: "c = 0" and f: "forgettable E m (gc_cutoff now idle) k" for k
  proof -
    have whole' using c0 m1(2) spec swept(5) by (auto simp: exit_code_def split: if_splits)
    moreover obtain it where "it \<in> set its" "cd_key it = k" "due (gc_cutoff now idle) it"
      using f keys [of k] by blast
    moreover have "whole' \<longrightarrow> (\<forall>it \<in> set its. due (gc_cutoff now idle) it \<longrightarrow> m1 (cd_key it) = None)"
      using spec by simp
    ultimately show ?thesis using m1(1) by auto
  qed
  ultimately show ?thesis using swept(1,2) by blast
qed

section \<open>The whole tool\<close>

lemma run_status_returns:
  assumes walk: "walk_ok (sv_flows E) ks" "dom m \<subseteq> set ks"
  shows "defined (run_status E m)"
proof -
  have scan: "defined (conntrack_scan E 0 zero_scan)"
  proof -
    have "scan_ok zero_scan" "sc_entries zero_scan = 0" "sc_hardware_offloaded zero_scan = 0"
      by (simp_all add: scan_ok_def zero_scan_def)
    from conntrack_scan_spec [OF this, of E 0] show ?thesis by (metis defined_simps(1))
  qed
  let ?body = "\<lambda>k n. (if m k \<noteq> None then n + 1 else n, False)"
  have count: "defined (each_key (\<lambda>_ k. mo_next_key (sv_flows E) m (Some k)) ?body key (0 :: nat))"
    if first: "mo_next_key (sv_flows E) m None = Inr key" for key
  proof (cases "present m ks")
    case Nil
    with first walk_first [OF walk] show ?thesis by simp
  next
    case (Cons k post)
    then have key: "k = key" using first walk_first [OF walk] by simp
    have e: "each_key (\<lambda>s k. mo_next_key (sv_flows E) m (Some k)) ?body k (0 :: nat) =
        Some (walk_fold ?body (k # post) 0)"
      by (rule each_key_const [OF walk Cons])
    show ?thesis unfolding key [symmetric] e by (rule defined_simps)
  qed
  have "defined (status_count E m r)" for r
    unfolding status_count_def by (auto intro!: bind_defined count simp del: not_None_eq split: sum.split)
  then obtain n r where "status_count E m (start_result ''COMPLETE'' False) = Some (n, r)"
    by (metis definedE surj_pair)
  moreover obtain ret s where "conntrack_scan E 0 zero_scan = Some (ret, s)" using scan by (auto simp: defined_def)
  ultimately show ?thesis by (simp add: run_status_def Let_def)
qed

lemma run_revoke_returns:
  assumes "walk_ok (sv_flows E) ks" "dom m \<subseteq> set ks"
  shows "defined (run_revoke E m sid hc cid deadline)"
  by (rule run_revoke_cases [OF assms, of sid hc cid deadline]) simp

lemma run_baseline_returns: "defined (run_baseline E deadline)"
  by (rule run_baseline_cases [of E deadline]) simp_all

lemma run_gc_returns:
  assumes "walk_ok (sv_flows E) ks" "dom m \<subseteq> set ks"
  shows "defined (run_gc E m idle)"
  by (rule run_gc_cases [OF assms, of idle]) simp_all

text \<open>
  C39 sfo_returns: whatever its arguments and whichever calls fail, the tool returns an exit code: no
  loop runs on, no read leaves its array, no unset attribute is followed.
\<close>

theorem sfo_returns:
  assumes "walk_ok (sv_flows E) ks" and "dom m \<subseteq> set ks"
  shows "\<exists>c out m' log. sfo_main E m argv = Some (c, out, m', log)"
proof -
  have "defined (sfo_main E m argv)"
    unfolding sfo_main_def Let_def
    by (auto intro!: bind_defined run_status_returns [OF assms] run_revoke_returns [OF assms] run_gc_returns [OF assms]
        run_baseline_returns split: option.split)
  then show ?thesis by (auto simp: defined_def)
qed

end
