(* ===== verification/Datapath_New_Flows.thy ===== *)
theory Datapath_New_Flows
  imports Datapath_Verdicts
begin

text \<open>
  New flows: the first packet is classified at once and passes with the provisional verdict, the
  packets after it get the policy's verdict on the class it found; a flow that admission refuses
  gets the unclassified verdict; a record without a class is as good as no record, so flows that
  correlation-only packets have recorded are classified once enforcement is on.
\<close>

section \<open>The first packet\<close>

lemma known_absent: "m_flows m k = None \<Longrightarrow> ca_ingress_known K skb c k s now m = Inr m"
  by (simp add: ca_ingress_known_def)

text \<open>
  \<open>admits K m c k s ex\<close>: both rate limiters and the pending bound let a new flow in, and the flow
  table takes its entry and the update of it.
\<close>

definition admits :: "kernel \<Rightarrow> ca_maps \<Rightarrow> ca_config \<Rightarrow> ca_flow_key \<Rightarrow> u32 \<Rightarrow> u32 \<Rightarrow> bool" where
  "admits K m c k s ex \<longleftrightarrow>
     (let now = kn_ktime_get_ns K;
          (admitted, m1) = ca_admit_classification K c (ca_stat_inc CA_STAT_PACKETS m) s now;
          (reserved, m2) = ca_pending_reserve K m1 (cfg_max_pending_entries c);
          (err, flows) = mo_update (kn_flows K) (m_flows m) k (initial_state c ex now) BPF_NOEXIST;
          f = terminal_state K c (initial_state c ex now) k s m
      in admitted \<and> reserved \<and> err = 0 \<and> fst (mo_update (kn_flows K) flows k f BPF_EXIST) = 0)"

lemma hints_cong:
  assumes "snapshot_of m' = snapshot_of m"
  shows "ca_prefix_hint K c m' k = ca_prefix_hint K c m k" and "ca_port_hint c m' k = ca_port_hint c m k"
  using same_active_lookups [OF snapshot_same_active [OF assms, of c]]
  by (simp_all add: ca_prefix_hint_def ca_port_hint_def)

lemma classify_cong:
  assumes "snapshot_of m' = snapshot_of m"
  shows "fst (ca_classify K c k m') = fst (ca_classify K c k m)"
    and "fst (snd (ca_classify K c k m')) = fst (snd (ca_classify K c k m))"
  by (simp_all add: ca_classify_def Let_def split_beta hints_cong [OF assms])

lemma terminal_state_cong:
  assumes "snapshot_of m' = snapshot_of m"
  shows "terminal_state K c f k s m' = terminal_state K c f k s m"
  using classify_cong [OF assms, of K c k] snapshot_verdict [OF assms]
  by (simp add: terminal_state_def Let_def split_beta)

lemma admit_stored:
  fixes skb :: sk_buff
  assumes ok: "flows_ok K" and a: "admits K m c k s ex"
  defines "now \<equiv> kn_ktime_get_ns K"
  defines "r \<equiv> ca_ingress_admit K skb c k s ex now (ca_stat_inc CA_STAT_PACKETS m)"
  shows "mark_verdict (skb_mark (fst (snd r))) = Some (norm_verdict (cfg_provisional_app_verdict c)) \<and>
    m_flows (snd (snd r)) = (m_flows m)(k \<mapsto> terminal_state K c (initial_state c ex now) k s m)"
proof -
  obtain m1 where 1: "ca_admit_classification K c (ca_stat_inc CA_STAT_PACKETS m) s now = (True, m1)"
    using a unfolding admits_def now_def by (auto simp: Let_def split: prod.splits)
  obtain m2 where 2: "ca_pending_reserve K m1 (cfg_max_pending_entries c) = (True, m2)"
    using a 1 unfolding admits_def now_def by (auto simp: Let_def split: prod.splits)
  have f1: "m_flows m1 = m_flows m" and s1: "snapshot_of m1 = snapshot_of m"
    using admit_frame(12) [of K c "ca_stat_inc CA_STAT_PACKETS m" s now]
      snapshot_of_admission(3) [of K c "ca_stat_inc CA_STAT_PACKETS m" s now] 1 by simp_all
  have f2: "m_flows m2 = m_flows m" and s2: "snapshot_of m2 = snapshot_of m"
    using reserve_frame(12) [of K m1 "cfg_max_pending_entries c"]
      snapshot_of_admission(2) [of K m1 "cfg_max_pending_entries c"] 2 f1 s1 by simp_all
  let ?i = "initial_state c ex now"
  let ?t = "terminal_state K c ?i k s m"
  let ?u = "mo_update (kn_flows K) (m_flows m) k ?i BPF_NOEXIST"
  have e: "fst ?u = 0"
    using a 1 2 unfolding admits_def now_def by (auto simp: Let_def split: prod.splits)
  then have u: "snd ?u = (m_flows m)(k \<mapsto> ?i)"
    by (rule_tac flows_update_cases [OF ok, of "m_flows m" k ?i BPF_NOEXIST]) simp_all
  let ?v = "mo_update (kn_flows K) ((m_flows m)(k \<mapsto> ?i)) k ?t BPF_EXIST"
  have e2: "fst ?v = 0"
    using a 1 2 u unfolding admits_def now_def by (auto simp: Let_def split: prod.splits)
  then have v: "snd ?v = (m_flows m)(k \<mapsto> ?t)"
    by (rule_tac flows_update_cases [OF ok, of "(m_flows m)(k \<mapsto> ?i)" k ?t BPF_EXIST]) simp_all
  let ?m5 = "ca_stat_add CA_STAT_CLASSIFICATION_BYTES (ucast ex) (ca_stat_inc CA_STAT_CLASSIFICATION_PACKETS
    (ca_stat_inc CA_STAT_FLOWS_PENDING (ca_stat_inc CA_STAT_FLOWS_TOTAL
      (m2\<lparr>m_flows := (m_flows m)(k \<mapsto> ?i)\<rparr>))))"
  have t: "terminal_state K c ?i k s ?m5 = ?t"
    using s2 by (intro terminal_state_cong) simp
  have "r = ca_ingress_classify K skb c k s ex now m2"
    using 1 2 by (simp add: r_def ca_ingress_admit_def)
  then show ?thesis
    using e u e2 v t by (simp add: ca_ingress_classify_def Let_def split_beta ca_try_terminal_eq f2)
qed

lemma first_packet:
  assumes ok: "flows_ok K" and pkt: "enforced m skb c k s ex" and new: "m_flows m k = None"
    and adm: "admits K m c k s ex"
    and hints: "opt_hint_wf (ca_prefix_hint K c m k)" "opt_hint_wf (ca_port_hint c m k)"
  shows "\<exists>skb' m' f. ca_ingress K m skb = Some (TC_ACT_UNSPEC, skb', m') \<and>
    mark_verdict (skb_mark skb') = Some (norm_verdict (cfg_provisional_app_verdict c)) \<and>
    m_flows m' = (m_flows m)(k \<mapsto> f) \<and> entry_wf k f \<and>
    (fs_class_id f, fs_class_kind f) =
      evidence_class (sup (opt_evidence (ca_prefix_hint K c m k)) (opt_evidence (ca_port_hint c m k))) \<and>
    fs_app_verdict f = ca_policy_verdict c m s (fs_class_id f) \<and>
    fs_app_policy_generation f = cfg_app_policy_generation c"
proof -
  let ?now = "kn_ktime_get_ns K"
  let ?f = "terminal_state K c (initial_state c ex ?now) k s m"
  let ?r = "ca_ingress_admit K (cleared skb) c k s ex ?now (ca_stat_inc CA_STAT_PACKETS m)"
  let ?e = "sup (opt_evidence (ca_prefix_hint K c m k)) (opt_evidence (ca_port_hint c m k))"
  have run: "ca_ingress K m skb = Some ?r"
    using new by (simp add: enforced_run [OF pkt] known_absent)
  have act: "fst ?r = TC_ACT_UNSPEC"
    using well_behaved_ingress [OF run] by (simp add: well_behaved_def)
  have cls: "ca_classify K c k m = (fst (evidence_class ?e), snd (evidence_class ?e),
      if ?e = Conflict then ca_stat_inc CA_STAT_CLASSIFIER_CONFLICTS m else m)"
    using ca_classify_evidence [OF hints] .
  then have "(fs_class_id ?f, fs_class_kind ?f) = evidence_class ?e"
    by (cases ?e) (simp_all add: terminal_state_def Let_def)
  moreover have "entry_wf k ?f" by (simp add: entry_wf_def terminal_state_def Let_def split_beta)
  moreover have "fs_app_verdict ?f = ca_policy_verdict c m s (fs_class_id ?f)"
    and "fs_app_policy_generation ?f = cfg_app_policy_generation c"
    by (simp_all add: terminal_state_def Let_def split_beta)
  ultimately show ?thesis
    using run act admit_stored [OF ok adm, of "cleared skb"] by (cases ?r) auto
qed

text \<open>
  C20 first_packet_classified: the first packet of an admitted flow carries the provisional
  verdict, and leaves a terminal entry behind: for published hints its class is that of the least
  upper bound of the prefix and the port evidence, its cached verdict is the active policy's, and
  no other entry has changed.
\<close>

theorem first_packet_classified:
  assumes ok: "flows_ok K" and pkt: "enforced m skb c k s ex" and new: "m_flows m k = None"
    and adm: "admits K m c k s ex"
    and hints: "opt_hint_wf (ca_prefix_hint K c m k)" "opt_hint_wf (ca_port_hint c m k)"
  shows "\<exists>skb' m' f. ca_ingress K m skb = Some (TC_ACT_UNSPEC, skb', m') \<and>
    mark_verdict (skb_mark skb') = Some (norm_verdict (cfg_provisional_app_verdict c)) \<and>
    m_flows m' = (m_flows m)(k \<mapsto> f) \<and> entry_wf k f \<and>
    (fs_class_id f, fs_class_kind f) =
      evidence_class (sup (opt_evidence (ca_prefix_hint K c m k)) (opt_evidence (ca_port_hint c m k))) \<and>
    fs_app_verdict f = ca_policy_verdict c m s (fs_class_id f) \<and>
    fs_app_policy_generation f = cfg_app_policy_generation c"
  using assms by (rule first_packet)

lemma ref_rate_take: "ca_rate_take (\<lambda>_ w. w) 0 5000000000 limit = (True, pack64 5 1)"
  if "limit = 512 \<or> limit = (64 :: u32)"
proof -
  have "rate_step 5000000000 limit 0 = Some (pack64 5 1)"
    using rate_step_pack [of 5000000000 limit 0 0] that by (auto simp: window_def pack64_def)
  then show ?thesis
    using cas_loop_quiet [of 7 0 "rate_step 5000000000 limit" 0] by (simp add: ca_rate_take_def)
qed

lemma ref_race [simp]: "kn_race (ref_kernel now) s = (\<lambda>_ w. w)"
  by (simp add: ref_kernel_def)

lemma ref_admits [simp]: "admits (ref_kernel 5000000000) ref_maps ref_config ref_key 42 46"
proof -
  let ?K = "ref_kernel 5000000000"
  have 1: "\<exists>m1. ca_admit_classification ?K ref_config (ca_stat_inc CA_STAT_PACKETS ref_maps) 42 5000000000 = (True, m1)"
    by (simp add: ca_admit_classification_def ref_rate_take Let_def ref_config_def ref_maps_def ref_ops_def)
  have p: "pending_step 256 0 \<noteq> None"
    using pending_step_pack [of 256 0 0] by (simp add: pack64_def)
  have 2: "fst (ca_pending_reserve ?K m1 256)" if "m_runtime m1 = [0 \<mapsto> 0]" for m1
    using that cas_loop_quiet [of 7 0 "pending_step 256" 0] p
    by (auto simp: ca_pending_reserve_def split: option.splits)
  obtain m1 where m1: "ca_admit_classification ?K ref_config (ca_stat_inc CA_STAT_PACKETS ref_maps) 42 5000000000 = (True, m1)"
    using 1 by blast
  have "m_runtime m1 = [0 \<mapsto> 0]"
    using m1 admit_frame(13) [of ?K ref_config "ca_stat_inc CA_STAT_PACKETS ref_maps" 42 5000000000]
    by (simp add: ref_maps_def)
  from 2 [OF this] show ?thesis
    unfolding admits_def Let_def ref_kernel_simps(3) m1
    by (simp add: split_beta ref_config_def ref_ops_def)
qed

lemma ref_hints_wf [simp]:
  "opt_hint_wf (ca_prefix_hint (ref_kernel now) ref_config ref_maps ref_key)"
  "opt_hint_wf (ca_port_hint ref_config ref_maps ref_key)"
  by (simp_all add: opt_hint_wf_def hint_wf_def)

theorem first_packet_classified_witness:
  "\<exists>skb' m' f. ca_ingress (ref_kernel 5000000000) ref_maps ref_skb = Some (TC_ACT_UNSPEC, skb', m') \<and>
    mark_verdict (skb_mark skb') = Some CA_VERDICT_ALLOW \<and>
    m_flows m' = [ref_key \<mapsto> f] \<and> fs_class_id f = 100 \<and> fs_app_verdict f = CA_VERDICT_DENY"
  using first_packet_classified [OF ref_kernel_ok ref_enforced(1) _ ref_admits ref_hints_wf]
  by (auto simp: norm_verdict_def opt_evidence_def hint_evidence_def)

section \<open>From the first packet to the enforced verdict\<close>

lemma enforced_cong: "snapshot_of m' = snapshot_of m \<Longrightarrow> enforced m' skb c k s ex = enforced m skb c k s ex"
proof -
  assume s: "snapshot_of m' = snapshot_of m"
  then have "m_config m' = m_config m" by (simp add: snapshot_of_def)
  then show ?thesis
    unfolding enforced_def same_active_lookups(1) [OF snapshot_same_active [OF s, of c]] by simp
qed

lemma entry_coherent_cong: "snapshot_of m' = snapshot_of m \<Longrightarrow> entry_coherent c m' = entry_coherent c m"
  using snapshot_verdict [of m' m] by (simp add: fun_eq_iff entry_coherent_def)

lemma run_entries:
  assumes "\<forall>p \<in> set ps. flows_ok (fst p) \<and> deletes_present (fst p)" and "m_config m 0 = Some c"
    and "all_entries entry_wf m" and "all_entries (entry_coherent c m0) m"
    and "snapshot_of m = snapshot_of m0" and "ca_ingress_run ps m = Some m'"
  shows "all_entries entry_wf m' \<and> all_entries (entry_coherent c m0) m'"
  using assms
proof (induction ps arbitrary: m)
  case Nil
  then show ?case by simp
next
  case (Cons p ps)
  from Cons.prems(6) obtain act skb' m1 where 1: "ca_ingress (fst p) m (snd p) = Some (act, skb', m1)"
    and run: "ca_ingress_run ps m1 = Some m'"
    by (auto split: option.splits)
  have snap: "snapshot_of m1 = snapshot_of m"
    using well_behaved_ingress [OF 1] by (simp add: well_behaved_def)
  then have "m_config m1 = m_config m" by (simp add: snapshot_of_def)
  moreover have "flows_ok (fst p)" and "deletes_present (fst p)" using Cons.prems(1) by auto
  then have "all_entries entry_wf m1" and "all_entries (entry_coherent c m0) m1"
    using entry_wf.ingress_entries [OF _ _ Cons.prems(2,3) refl 1]
      entry_coherent.ingress_entries [OF _ _ Cons.prems(2,4,5) 1] by simp_all
  ultimately show ?case
    using Cons.IH [OF _ _ _ _ _ run] Cons.prems(1,2,5) snap by simp
qed

text \<open>
  C1 one_packet_enforcement: end to end, once the first packet of a flow has been admitted with
  evidence for a class, and after any packets of any senders, the next packet of the flow is
  stamped with the active policy's verdict on that class.
\<close>

theorem one_packet_enforcement:
  assumes ok: "flows_ok K" "deletes_present K"
    "\<forall>p \<in> set ps. flows_ok (fst p) \<and> deletes_present (fst p)"
    and wf: "all_entries entry_wf m" "all_entries (entry_coherent c m) m"
    and first: "enforced m skb c k s ex" "m_flows m k = None" "admits K m c k s ex"
    and hints: "opt_hint_wf (ca_prefix_hint K c m k)" "opt_hint_wf (ca_port_hint c m k)"
    and ev: "evidence_class (sup (opt_evidence (ca_prefix_hint K c m k))
      (opt_evidence (ca_port_hint c m k))) = (cls, kind)" "kind \<noteq> CA_CLASS_KIND_NONE"
    and run: "ca_ingress_run ((K, skb) # ps) m = Some m2"
    and later: "enforced m skb2 c k s ex2"
  shows "\<exists>skb' m'. ca_ingress K2 m2 skb2 = Some (TC_ACT_UNSPEC, skb', m') \<and>
    mark_verdict (skb_mark skb') = Some (norm_verdict (ca_policy_verdict c m s cls))"
proof -
  obtain skb' m1 f where 1: "ca_ingress K m skb = Some (TC_ACT_UNSPEC, skb', m1)"
    and f: "m_flows m1 = (m_flows m)(k \<mapsto> f)" "(fs_class_id f, fs_class_kind f) = (cls, kind)"
    using admit_stored [OF ok(1) first(3)] first_packet [OF ok(1) first hints] ev(1)
    by metis
  have run1: "ca_ingress_run ps m1 = Some m2" using run 1 by simp
  obtain g where g: "m_flows m2 k = Some g" "same_class f g"
    using run_same_class [of ps m1 k f m2] ok(3) f ev(2) run1 by auto
  have kind: "fs_class_id g = cls" "fs_class_kind g \<noteq> CA_CLASS_KIND_NONE"
    using g(2) f(2) ev(2) by (simp_all add: same_class_def)
  have snap: "snapshot_of m2 = snapshot_of m" by (rule run_snapshot [OF run])
  have "all_entries entry_wf m2 \<and> all_entries (entry_coherent c m) m2"
    using run_entries [OF _ _ wf refl run] ok enforced_config [OF first(1)] by simp
  then have "entry_wf k g" and "entry_coherent c m2 k g"
    using g(1) entry_coherent_cong [OF snap] by (simp_all add: all_entries_def)
  moreover have "enforced m2 skb2 c k s ex2" using later enforced_cong [OF snap] by simp
  ultimately have "\<exists>skb' m'. ca_ingress K2 m2 skb2 = Some (TC_ACT_UNSPEC, skb', m') \<and>
      mark_verdict (skb_mark skb') = Some (norm_verdict (ca_policy_verdict c m2 s (fs_class_id g)))"
    using established_verdict [of m2 skb2 c k s ex2 g K2] g(1) kind(2) by blast
  then show ?thesis using snapshot_verdict [OF snap, of c s cls] kind(1) by simp
qed

theorem one_packet_enforcement_witness:
  "\<exists>m2 skb' m'.
    ca_ingress_run [(ref_kernel 5000000000, ref_skb), (ref_kernel 5000000001, ref_skb)] ref_maps = Some m2 \<and>
    ca_ingress (ref_kernel 5000000002) m2 ref_skb = Some (TC_ACT_UNSPEC, skb', m') \<and>
    mark_verdict (skb_mark skb') = Some CA_VERDICT_DENY"
proof -
  let ?K = "ref_kernel 5000000000"
  obtain r1 where 1: "ca_ingress ?K ref_maps ref_skb = Some r1"
    using ca_ingress_defined by (rule definedE)
  obtain r2 where 2: "ca_ingress (ref_kernel 5000000001) (snd (snd r1)) ref_skb = Some r2"
    using ca_ingress_defined by (rule definedE)
  have run: "ca_ingress_run ((?K, ref_skb) # [(ref_kernel 5000000001, ref_skb)]) ref_maps = Some (snd (snd r2))"
    using 1 2 by simp
  have "all_entries entry_wf ref_maps" "all_entries (entry_coherent ref_config ref_maps) ref_maps"
    by (simp_all add: all_entries_def)
  from one_packet_enforcement [OF ref_kernel_ok ref_kernel_deletes _ this ref_enforced(1) _ ref_admits
      ref_hints_wf _ _ run ref_enforced(1), of 100 CA_CLASS_KIND_EXACT "ref_kernel 5000000002"] run
  show ?thesis
    by (auto simp: ref_kernel_ok ref_kernel_deletes opt_evidence_def hint_evidence_def norm_verdict_def)
qed

section \<open>Refused flows\<close>

text \<open>One of the rate limiters or the pending bound keeps the new flow out.\<close>

definition refuses :: "kernel \<Rightarrow> ca_maps \<Rightarrow> ca_config \<Rightarrow> u32 \<Rightarrow> bool" where
  "refuses K m c s \<longleftrightarrow>
     (let (admitted, m1) = ca_admit_classification K c (ca_stat_inc CA_STAT_PACKETS m) s (kn_ktime_get_ns K)
      in \<not> admitted \<or> \<not> fst (ca_pending_reserve K m1 (cfg_max_pending_entries c)))"

lemma shed_verdict:
  assumes "flows_ok K" and "m_flows m k = None"
  shows "mark_verdict (skb_mark (fst (snd (ca_load_shed K skb c k s now m)))) =
    Some (norm_verdict (ca_policy_verdict c m s CA_CLASS_UNCLASSIFIED))"
proof -
  let ?u = "mo_update (kn_flows K) (m_flows m) k (shed_state c m s now) BPF_NOEXIST"
  have v: "shed_state c (ca_stat_inc i m) s now = shed_state c m s now" for i
    by (simp add: shed_state_def)
  show ?thesis
    using assms(2)
    by (rule_tac flows_update_cases [OF assms(1), of "m_flows m" k "shed_state c m s now" BPF_NOEXIST])
       (simp_all add: ca_load_shed_def Let_def split_beta v, simp_all add: shed_state_def)
qed

text \<open>
  C22 load_shed_fails_closed: a new flow that admission control refuses is stamped with the verdict
  the active policy gives unclassified traffic of its subject, also when the flow table is full.
\<close>

theorem load_shed_fails_closed:
  assumes ok: "flows_ok K" and pkt: "enforced m skb c k s ex" and new: "m_flows m k = None"
    and ref: "refuses K m c s"
  shows "\<exists>skb' m'. ca_ingress K m skb = Some (TC_ACT_UNSPEC, skb', m') \<and>
    mark_verdict (skb_mark skb') = Some (norm_verdict (ca_policy_verdict c m s CA_CLASS_UNCLASSIFIED))"
proof -
  let ?now = "kn_ktime_get_ns K"
  let ?m = "ca_stat_inc CA_STAT_PACKETS m"
  define m1 where "m1 = snd (ca_admit_classification K c ?m s ?now)"
  define m2 where "m2 = snd (ca_pending_reserve K m1 (cfg_max_pending_entries c))"
  have s: "snapshot_of m1 = snapshot_of m" "snapshot_of m2 = snapshot_of m"
    and f: "m_flows m1 k = None" "m_flows m2 k = None"
    using new by (simp_all add: m1_def m2_def)
  have step: "ca_ingress K m skb = Some (ca_ingress_admit K (cleared skb) c k s ex ?now ?m)"
    using new by (simp add: enforced_run [OF pkt] known_absent)
  obtain m' where m': "snapshot_of m' = snapshot_of m" "m_flows m' k = None"
    and run: "ca_ingress K m skb = Some (ca_load_shed K (cleared skb) c k s ?now m')"
  proof (cases "fst (ca_admit_classification K c ?m s ?now)")
    case False
    with step that [OF s(1) f(1)] show ?thesis by (simp add: ca_ingress_admit_def split_beta m1_def)
  next
    case True
    then have "\<not> fst (ca_pending_reserve K m1 (cfg_max_pending_entries c))"
      using ref by (simp add: refuses_def split_beta m1_def)
    with True step that [OF s(2) f(2)] show ?thesis
      by (simp add: ca_ingress_admit_def split_beta m1_def m2_def)
  qed
  have "fst (ca_load_shed K (cleared skb) c k s ?now m') = TC_ACT_UNSPEC"
    using well_behaved_ingress [OF run] by (simp add: well_behaved_def)
  with run shed_verdict [OF ok m'(2), of "cleared skb" c s ?now] snapshot_verdict [OF m'(1), of c s] show ?thesis
    by (cases "ca_load_shed K (cleared skb) c k s ?now m'") simp
qed

lemma ref_refuses: "refuses (ref_kernel 5) (ref_maps\<lparr>m_runtime := [0 \<mapsto> 256]\<rparr>) ref_config 42"
proof -
  have "cas_loop CA_CAS_ATTEMPTS (\<lambda>_ w. w) 0 (pending_step 256) 256 = (False, 256)"
    using cas_loop_quiet [of 7 0 "pending_step 256" 256] by (simp add: pending_step_def low32_def)
  then show ?thesis
    by (simp add: refuses_def Let_def split_beta ca_pending_reserve_def ref_config_def)
qed

lemma ref_full_enforced:
  "enforced (ref_maps\<lparr>m_runtime := [0 \<mapsto> 256]\<rparr>) ref_skb ref_config ref_key 42 46"
  by (rule enforced_cong [THEN iffD2, OF _ ref_enforced(1)]) simp

theorem load_shed_fails_closed_witness:
  "\<exists>skb' m'. ca_ingress (ref_kernel 5) (ref_maps\<lparr>m_runtime := [0 \<mapsto> 256]\<rparr>) ref_skb =
      Some (TC_ACT_UNSPEC, skb', m') \<and> mark_verdict (skb_mark skb') = Some CA_VERDICT_DENY"
proof -
  have "ca_policy_verdict ref_config (ref_maps\<lparr>m_runtime := [0 \<mapsto> 256]\<rparr>) 42 1 = CA_VERDICT_DENY"
    using snapshot_verdict [of "ref_maps\<lparr>m_runtime := [0 \<mapsto> 256]\<rparr>" ref_maps ref_config 42 1] by simp
  with load_shed_fails_closed [OF ref_kernel_ok ref_full_enforced _ ref_refuses] show ?thesis
    by (simp add: norm_verdict_def)
qed

text \<open>
  A packet of a flow whose record carries no class is handled exactly as if the flow had no record:
  the code deletes the record and sends the flow through admission again.  The comment there speaks of
  the records of the correlation-only mode, but the test is on the class kind, so the
  terminal records of load shedding and of flows without evidence are deleted as well.
\<close>

lemma unclassed_record_skipped:
  assumes ok: "flows_ok K" "deletes_present K" and pkt: "enforced m skb c k s ex"
    and f: "m_flows m k = Some f" "entry_wf k f" "fs_class_kind f = CA_CLASS_KIND_NONE"
  shows "ca_ingress K m skb = ca_ingress K (m\<lparr>m_flows := (m_flows m)(k := None)\<rparr>) skb"
proof -
  let ?m' = "m\<lparr>m_flows := (m_flows m)(k := None)\<rparr>"
  have pkt': "enforced ?m' skb c k s ex" using pkt enforced_cong [of ?m' m] by simp
  have e: "ca_stat_inc i (m\<lparr>m_flows := fl\<rparr>) = (ca_stat_inc i m)\<lparr>m_flows := fl\<rparr>" for i fl
    by (simp add: ca_stat_inc_def ca_stat_add_def split: option.split)
  have "snd (mo_delete (kn_flows K) ((m_flows m)(k \<mapsto> g)) k) = (m_flows m)(k := None)" for g
    using flows_delete_present [OF ok] by simp
  then have "ca_ingress_known K (cleared skb) c k s now (ca_stat_inc CA_STAT_PACKETS m) =
      Inr ((ca_stat_inc CA_STAT_PACKETS m)\<lparr>m_flows := (m_flows m)(k := None)\<rparr>)" for now
    using f enforced_config [OF pkt] by (simp add: ca_ingress_known_def Let_def entry_wf_def)
  then show ?thesis
    by (simp add: enforced_run [OF pkt] enforced_run [OF pkt'] known_absent e)
qed

section \<open>From correlation-only to enforcement\<close>

text \<open>The record of \<open>k\<close>, if there is one, carries no class.\<close>

definition unclassed :: "ca_flow_key \<Rightarrow> (ca_flow_key \<rightharpoonup> ca_flow_state) \<Rightarrow> bool" where
  "unclassed k t \<longleftrightarrow> pred_option (\<lambda>f. entry_wf k f \<and> fs_class_kind f = CA_CLASS_KIND_NONE) (t k)"

lemma unclassed_simps [simp]:
  "unclassed k (t(j \<mapsto> f)) \<longleftrightarrow>
     (if j = k then entry_wf k f \<and> fs_class_kind f = CA_CLASS_KIND_NONE else unclassed k t)"
  "t k = None \<Longrightarrow> unclassed k t"
  by (auto simp: unclassed_def)

lemma correlate_unclassed:
  assumes "flows_ok K" and "unclassed k (m_flows m)"
  shows "unclassed k (m_flows (snd (snd (ca_ingress_correlate K skb c j now m))))"
proof -
  have "unclassed k (snd (mo_update (kn_flows K) (m_flows m) j f BPF_NOEXIST))"
    if "entry_wf k f" "fs_class_kind f = CA_CLASS_KIND_NONE" for f
    using assms that by (rule_tac flows_update_cases [of K "m_flows m" j f BPF_NOEXIST]) simp_all
  then show ?thesis by (simp add: ca_ingress_correlate_def Let_def split_beta entry_wf_def zero_flow_state_def)
qed

lemma correlation_only_step:
  assumes ok: "flows_ok K" and off: "m_config m 0 = Some c" "cfg_app_enforcement_enabled c = 0"
    and u: "unclassed k (m_flows m)" and run: "ca_ingress K m skb = Some (act, skb', m')"
  shows "unclassed k (m_flows m')"
proof -
  have touched: "entry_wf k (f\<lparr>fs_last_seen_ns := t\<rparr>) \<and> fs_class_kind f = CA_CLASS_KIND_NONE"
    if "m_flows m k = Some f" for f t
    using u that by (auto simp: unclassed_def entry_wf_def)
  have subj: "unclassed k (m_flows (snd (snd (ca_ingress_subject K skb1 c j s ex m1))))"
    if "m_flows m1 = m_flows m" for skb1 j s ex m1
    using off(2) that u by (auto simp: ca_ingress_subject_def ca_ingress_known_def Let_def correlate_unclassed [OF ok]
        touched split: option.split)
  show ?thesis
    using run
  proof (cases rule: ca_ingress_cases)
    case off
    with u show ?thesis by simp
  next
    case (on c' parsed key mac ex)
    have "c' = c" using on(1) off(1) by simp
    then have "unclassed k (m_flows (snd (snd (act, skb', m'))))"
      unfolding on(4) Let_def using u subj by (auto split: option.split)
    then show ?thesis by simp
  qed
qed

lemma correlation_only_run:
  assumes "\<forall>p \<in> set ps. flows_ok (fst p)" and "m_config m 0 = Some c" "cfg_app_enforcement_enabled c = 0"
    and "unclassed k (m_flows m)" and "ca_ingress_run ps m = Some m'"
  shows "unclassed k (m_flows m')"
  using assms
proof (induction ps arbitrary: m)
  case Nil
  then show ?case by simp
next
  case (Cons p ps)
  from Cons.prems(5) obtain act skb' m1 where 1: "ca_ingress (fst p) m (snd p) = Some (act, skb', m1)"
    and run: "ca_ingress_run ps m1 = Some m'"
    by (auto split: option.splits)
  have "unclassed k (m_flows m1)"
    using correlation_only_step [OF _ Cons.prems(2,3,4) 1] Cons.prems(1) by simp
  moreover have "ca_ingress_run [p] m = Some m1" using 1 by simp
  from run_snapshot [OF this] have "m_config m1 = m_config m" by (simp add: snapshot_of_def)
  ultimately show ?case using Cons.IH [OF _ _ Cons.prems(3) _ run] Cons.prems(1,2) by simp
qed

text \<open>
  C34 correlated_flow_reclassified: a flow that had no record before a run of packets without
  enforcement is not mistaken for a classified one when enforcement is switched on: whatever these packets
  were, its next packet is handled exactly as if the flow had no record, and if admission lets it in,
  the record is replaced by the class of the evidence and the active policy's verdict on it.
\<close>

theorem correlated_flow_reclassified:
  assumes ok: "\<forall>p \<in> set ps. flows_ok (fst p)" "flows_ok K" "deletes_present K"
    and off: "m_config m1 0 = Some c1" "cfg_app_enforcement_enabled c1 = 0" and new: "m_flows m1 k = None"
    and run: "ca_ingress_run ps m1 = Some m2" and switched: "m_flows m3 = m_flows m2"
    and pkt: "enforced m3 skb c k s ex"
  shows "ca_ingress K m3 skb = ca_ingress K (m3\<lparr>m_flows := (m_flows m3)(k := None)\<rparr>) skb \<and>
    (admits K (m3\<lparr>m_flows := (m_flows m3)(k := None)\<rparr>) c k s ex \<and>
     opt_hint_wf (ca_prefix_hint K c m3 k) \<and> opt_hint_wf (ca_port_hint c m3 k) \<longrightarrow>
     (\<exists>skb' m' f. ca_ingress K m3 skb = Some (TC_ACT_UNSPEC, skb', m') \<and>
        mark_verdict (skb_mark skb') = Some (norm_verdict (cfg_provisional_app_verdict c)) \<and>
        m_flows m' = (m_flows m3)(k \<mapsto> f) \<and>
        (fs_class_id f, fs_class_kind f) =
          evidence_class (sup (opt_evidence (ca_prefix_hint K c m3 k)) (opt_evidence (ca_port_hint c m3 k))) \<and>
        fs_app_verdict f = ca_policy_verdict c m3 s (fs_class_id f)))"
proof -
  let ?m = "m3\<lparr>m_flows := (m_flows m3)(k := None)\<rparr>"
  have u: "unclassed k (m_flows m3)"
    unfolding switched by (rule correlation_only_run [OF ok(1) off _ run]) (simp add: new)
  have same: "ca_ingress K m3 skb = ca_ingress K ?m skb"
  proof (cases "m_flows m3 k")
    case None
    then have "(m_flows m3)(k := None) = m_flows m3" by auto
    then show ?thesis by simp
  next
    case (Some f)
    with u have "entry_wf k f" "fs_class_kind f = CA_CLASS_KIND_NONE" by (simp_all add: unclassed_def)
    then show ?thesis by (rule unclassed_record_skipped [OF ok(2,3) pkt Some])
  qed
  have pkt': "enforced ?m skb c k s ex" using pkt enforced_cong [of ?m m3] by simp
  have look: "ca_prefix_hint K c ?m k = ca_prefix_hint K c m3 k" "ca_port_hint c ?m k = ca_port_hint c m3 k"
    "ca_policy_verdict c ?m s i = ca_policy_verdict c m3 s i" for i
    using same_active_lookups [OF snapshot_same_active [of ?m m3 c]] snapshot_verdict [of ?m m3 c s i]
    by (simp_all add: ca_prefix_hint_def ca_port_hint_def)
  show ?thesis
    using same first_packet [OF ok(2) pkt', unfolded look] by auto
qed

text \<open>The reference maps with enforcement off, and what one packet leaves in them.\<close>

definition ref_correlate :: ca_maps where
  "ref_correlate = ref_maps\<lparr>m_config := [0 \<mapsto> ref_config\<lparr>cfg_app_enforcement_enabled := 0\<rparr>]\<rparr>"

lemma ref_correlated:
  "\<exists>m2 f. ca_ingress_run [(ref_kernel 5, ref_skb)] ref_correlate = Some m2 \<and> m_flows m2 = [ref_key \<mapsto> f]"
proof -
  have "ca_subject_lookup (ref_config\<lparr>cfg_app_enforcement_enabled := 0\<rparr>) m mac = ca_subject_lookup ref_config m mac" for m mac
    by (simp add: ca_subject_lookup_def)
  moreover have "ca_subject_lookup ref_config ref_correlate \<lparr>mac_addr = [2, 0, 0, 0, 0, 0x42]\<rparr> = Some 42"
    using ref_enforced(1) unfolding enforced_def by (simp add: ref_correlate_def ca_subject_lookup_def)
  ultimately have s: "ca_subject_lookup (ref_config\<lparr>cfg_app_enforcement_enabled := 0\<rparr>) ref_correlate
      \<lparr>mac_addr = [2, 0, 0, 0, 0, 0x42]\<rparr> = Some 42" by simp
  have c: "m_config ref_correlate 0 = Some (ref_config\<lparr>cfg_app_enforcement_enabled := 0\<rparr>)" "cfg_enabled ref_config \<noteq> 0"
    "example_key\<lparr>fk_subject_id := 42\<rparr> = ref_key" "m_flows ref_correlate = Map.empty"
    by (simp_all add: ref_key_def ref_correlate_def ref_maps_def ref_config_def)
  show ?thesis
    by (simp add: ca_ingress_def c s ca_ingress_subject_def known_absent ca_ingress_correlate_def Let_def split_beta)
      (auto simp: ref_ops_def)
qed

theorem correlated_flow_reclassified_witness:
  "\<exists>m2 f skb' m' g. ca_ingress_run [(ref_kernel 5, ref_skb)] ref_correlate = Some m2 \<and> m_flows m2 = [ref_key \<mapsto> f] \<and>
    ca_ingress (ref_kernel 5000000000) (ref_maps\<lparr>m_flows := m_flows m2\<rparr>) ref_skb = Some (TC_ACT_UNSPEC, skb', m') \<and>
    m_flows m' = [ref_key \<mapsto> g] \<and> fs_class_id g = 100 \<and> fs_app_verdict g = CA_VERDICT_DENY"
proof -
  obtain m2 f where run: "ca_ingress_run [(ref_kernel 5, ref_skb)] ref_correlate = Some m2"
    and fl: "m_flows m2 = [ref_key \<mapsto> f]"
    using ref_correlated by blast
  let ?m3 = "ref_maps\<lparr>m_flows := m_flows m2\<rparr>"
  have restored: "?m3\<lparr>m_flows := (m_flows ?m3)(ref_key := None)\<rparr> = ref_maps" by (simp add: fl ref_maps_def)
  have e: "enforced ?m3 ref_skb ref_config ref_key 42 46"
    by (rule enforced_cong [THEN iffD2, OF _ ref_enforced(1)]) simp
  have look: "ca_prefix_hint K c ?m3 k = ca_prefix_hint K c ref_maps k" "ca_port_hint c ?m3 k = ca_port_hint c ref_maps k"
    "ca_policy_verdict c ?m3 s i = ca_policy_verdict c ref_maps s i" for K c k s i
    using same_active_lookups [OF snapshot_same_active [of ?m3 ref_maps c]] snapshot_verdict [of ?m3 ref_maps c s i]
    by (simp_all add: ca_prefix_hint_def ca_port_hint_def)
  have "m_config ref_correlate 0 = Some (ref_config\<lparr>cfg_app_enforcement_enabled := 0\<rparr>)" "m_flows ref_correlate ref_key = None"
    by (simp_all add: ref_correlate_def ref_maps_def)
  from correlated_flow_reclassified [OF _ ref_kernel_ok ref_kernel_deletes this(1) _ this(2) run _ e, of 5000000000]
  have "\<exists>skb' m' g. ca_ingress (ref_kernel 5000000000) ?m3 ref_skb = Some (TC_ACT_UNSPEC, skb', m') \<and>
    m_flows m' = (m_flows ?m3)(ref_key \<mapsto> g) \<and> fs_class_id g = 100 \<and> fs_app_verdict g = CA_VERDICT_DENY"
    unfolding restored look using ref_admits ref_hints_wf
    by (auto simp: ref_kernel_ok opt_evidence_def hint_evidence_def) metis
  with run fl show ?thesis by auto
qed

end
