(* ===== verification/Datapath_Accounting.thy ===== *)
theory Datapath_Accounting
  imports Datapath_New_Flows
begin

text \<open>
  Accounting: every path of the handler gives back the pending reservation it took, the flow table
  stays within its declared size, a packet touches the entry of its own flow only, and the verdict
  counters move exactly with the marks.
\<close>

section \<open>Pending reservations\<close>

lemma runtime_frame [simp]:
  "m_runtime (snd (snd (ca_emit_app_verdict skb v m))) = m_runtime m"
  "m_runtime (snd (snd (ca_classify K c k m))) = m_runtime m"
  "m_runtime (ca_record_terminal f b m) = m_runtime m"
  by (simp_all add: emit_maps ca_classify_def ca_record_terminal_def Let_def split_beta)

lemma cached_runtime [simp]: "m_runtime (snd (snd (ca_cached_verdict skb c k s f m))) = m_runtime m"
  by (simp add: ca_cached_verdict_def Let_def)

lemma shed_runtime [simp]: "m_runtime (snd (snd (ca_load_shed K skb c k s now m))) = m_runtime m"
  by (simp add: ca_load_shed_def Let_def split_beta split: option.split)

lemma correlate_runtime [simp]: "m_runtime (snd (snd (ca_ingress_correlate K skb c k now m))) = m_runtime m"
  by (simp add: ca_ingress_correlate_def Let_def split_beta)

lemma release_runtime_cong: "m_runtime m = m_runtime m' \<Longrightarrow>
    m_runtime (ca_pending_release K m) = m_runtime (ca_pending_release K m')"
  by (simp add: ca_pending_release_def split: option.split)

text \<open>A classification releases its reservation exactly once, on each of its three ends.\<close>

lemma classify_runtime:
  "m_runtime (snd (snd (ca_ingress_classify K skb c k s ex now m))) = m_runtime (ca_pending_release K m)"
  by (simp add: ca_ingress_classify_def Let_def split_beta ca_try_terminal_eq)
     (intro conjI impI release_runtime_cong; simp)

text \<open>
  \<open>settled w w'\<close>: the count of pending classifications is the same and the recorded peak has not
  gone down.
\<close>

definition settled :: "u64 \<Rightarrow> u64 \<Rightarrow> bool" where
  "settled w w' \<longleftrightarrow> low32 w' = low32 w \<and> high32 w \<le> high32 w'"

lemma settled_refl [simp]: "settled w w" by (simp add: settled_def)

lemma pending_step_settled:
  assumes "pending_step limit w = Some w'"
  shows "settled w (w' - 1)"
proof -
  obtain p k where w: "w = pack64 p k" by (rule pack64_cases)
  have lt: "\<not> limit \<le> k" and w': "w' = pack64 (max (k + 1) p) (k + 1)"
    using assms by (auto simp: w pending_step_pack split: if_splits)
  have "unat k < 2 ^ 32 - 1"
    using lt unat_u32_less [of limit] by (simp add: word_le_nat_alt)
  then have "k + 1 \<noteq> 0" using unat_inc [of k] by auto
  then show ?thesis by (simp add: w w' settled_def pack64_dec)
qed

lemma admit_runtime:
  assumes quiet: "kn_race K Runtime_Word = (\<lambda>_ w. w)" and w: "m_runtime m 0 = Some w"
  shows "\<exists>w'. m_runtime (snd (snd (ca_ingress_admit K skb c k s ex now m))) 0 = Some w' \<and> settled w w'"
proof -
  define m1 where "m1 = snd (ca_admit_classification K c m s now)"
  define ok where "ok = fst (ca_admit_classification K c m s now)"
  have 1: "ca_admit_classification K c m s now = (ok, m1)" by (simp add: m1_def ok_def)
  have w1: "m_runtime m1 0 = Some w" using w by (simp add: m1_def)
  show ?thesis
  proof (cases "pending_step (cfg_max_pending_entries c) w")
    case None
    then have "ca_pending_reserve K m1 (cfg_max_pending_entries c) = (False, m1\<lparr>m_runtime := (m_runtime m1)(0 \<mapsto> w)\<rparr>)"
      using w1 cas_loop_quiet [of 7 0 "pending_step (cfg_max_pending_entries c)" w] quiet
      by (simp add: ca_pending_reserve_def)
    with w1 1 show ?thesis by (simp add: ca_ingress_admit_def)
  next
    case (Some w')
    then have "ca_pending_reserve K m1 (cfg_max_pending_entries c) = (True, m1\<lparr>m_runtime := (m_runtime m1)(0 \<mapsto> w')\<rparr>)"
      using w1 cas_loop_quiet [of 7 0 "pending_step (cfg_max_pending_entries c)" w] quiet
      by (simp add: ca_pending_reserve_def)
    with w1 1 pending_step_settled [OF Some] quiet show ?thesis
      by (simp add: ca_ingress_admit_def classify_runtime ca_pending_release_def)
  qed
qed

lemma known_runtime:
  "case ca_ingress_known K skb c k s now m of
     Inl r \<Rightarrow> m_runtime (snd (snd r)) = m_runtime m | Inr m' \<Rightarrow> m_runtime m' = m_runtime m"
  by (simp add: ca_ingress_known_def Let_def split: option.split)

lemma subject_runtime:
  assumes quiet: "kn_race K Runtime_Word = (\<lambda>_ w. w)" and w: "m_runtime m 0 = Some w"
  shows "\<exists>w'. m_runtime (snd (snd (ca_ingress_subject K skb c key s ex m))) 0 = Some w' \<and> settled w w'"
  using w known_runtime [where K = K and skb = skb and c = c and k = "key\<lparr>fk_subject_id := s\<rparr>"
      and s = s and now = "kn_ktime_get_ns K" and m = m]
    admit_runtime [OF quiet]
  by (cases "ca_ingress_known K skb c (key\<lparr>fk_subject_id := s\<rparr>) s (kn_ktime_get_ns K) m")
     (simp_all add: ca_ingress_subject_def Let_def)

text \<open>
  C29 pending_balanced: whatever happens to a packet (admitted, refused, table full, update
  refused), a handler that runs undisturbed leaves the number of pending classifications as it
  found it, so no path leaks or double-frees a reservation, and the recorded peak never decreases.
\<close>

theorem pending_balanced:
  assumes "kn_race K Runtime_Word = (\<lambda>_ w. w)" and "m_runtime m 0 = Some w"
    and "ca_ingress K m skb = Some (act, skb', m')"
  shows "\<exists>w'. m_runtime m' 0 = Some w' \<and> settled w w'"
  using assms(3)
proof (cases rule: ca_ingress_cases)
  case off
  with assms(2) show ?thesis by simp
next
  case (on c parsed key mac ex)
  have "\<exists>w'. m_runtime (snd (snd (act, skb', m'))) 0 = Some w' \<and> settled w w'"
    unfolding on(4) Let_def
    using assms(2) subject_runtime [OF assms(1), of "ca_stat_inc CA_STAT_PACKETS m" w]
    by (auto split: option.split)
  then show ?thesis by simp
qed

theorem pending_balanced_witness:
  "\<exists>r w'. ca_ingress (ref_kernel 5000000000) ref_maps ref_skb = Some r \<and>
     m_runtime (snd (snd r)) 0 = Some w' \<and> low32 w' = 0"
proof -
  obtain act skb' m' where r: "ca_ingress (ref_kernel 5000000000) ref_maps ref_skb = Some (act, skb', m')"
    using ca_ingress_defined by (metis definedE prod_cases3)
  have "m_runtime ref_maps 0 = Some 0" by (simp add: ref_maps_def)
  from pending_balanced [OF ref_race this r] r show ?thesis by (auto simp: settled_def)
qed

section \<open>The size of the flow table\<close>

text \<open>A property of the whole table that no store of the handler may break.\<close>

locale table_invariant =
  fixes K :: kernel and T :: "(ca_flow_key \<rightharpoonup> ca_flow_state) \<Rightarrow> bool"
  assumes update: "T t \<Longrightarrow> fst (mo_update (kn_flows K) t k v f) = 0 \<Longrightarrow> T (t(k \<mapsto> v))"
    and delete: "T t \<Longrightarrow> T (t(k := None))"
    and store: "T t \<Longrightarrow> t k \<noteq> None \<Longrightarrow> T (t(k \<mapsto> v))"
begin

lemma updated: "flows_ok K \<Longrightarrow> T t \<Longrightarrow> T (snd (mo_update (kn_flows K) t k v f))"
  by (rule flows_update_cases [of K t k v f]) (simp_all add: update)

lemma deleted: "flows_ok K \<Longrightarrow> T t \<Longrightarrow> T (snd (mo_delete (kn_flows K) t k))"
  by (rule flows_delete_cases [of K t k]) (simp_all add: delete)

lemma cached_table:
  "T (m_flows m) \<Longrightarrow> m_flows m k \<noteq> None \<Longrightarrow> T (m_flows (snd (snd (ca_cached_verdict skb c k s f m))))"
  by (simp add: ca_cached_verdict_def Let_def store)

lemma shed_table:
  "flows_ok K \<Longrightarrow> T (m_flows m) \<Longrightarrow> T (m_flows (snd (snd (ca_load_shed K skb c k s now m))))"
  by (simp add: ca_load_shed_def Let_def split_beta updated store cached_table split: option.split)

lemma correlate_table:
  "flows_ok K \<Longrightarrow> T (m_flows m) \<Longrightarrow> T (m_flows (snd (snd (ca_ingress_correlate K skb c k now m))))"
  by (simp add: ca_ingress_correlate_def Let_def split_beta updated)

lemma classify_table:
  "flows_ok K \<Longrightarrow> T (m_flows m) \<Longrightarrow> T (m_flows (snd (snd (ca_ingress_classify K skb c k s ex now m))))"
  by (simp add: ca_ingress_classify_def Let_def split_beta updated deleted shed_table ca_try_terminal_eq)

lemma admit_table:
  "flows_ok K \<Longrightarrow> T (m_flows m) \<Longrightarrow> T (m_flows (snd (snd (ca_ingress_admit K skb c k s ex now m))))"
  by (simp add: ca_ingress_admit_def split_beta shed_table classify_table)

lemma known_table:
  "flows_ok K \<Longrightarrow> T (m_flows m) \<Longrightarrow>
     (case ca_ingress_known K skb c k s now m of
        Inl r \<Rightarrow> T (m_flows (snd (snd r))) | Inr m' \<Rightarrow> T (m_flows m'))"
  by (simp add: ca_ingress_known_def Let_def store deleted cached_table split: option.split)

lemma subject_table:
  assumes "flows_ok K" and "T (m_flows m)"
  shows "T (m_flows (snd (snd (ca_ingress_subject K skb c key s ex m))))"
  using known_table [OF assms, of skb c "key\<lparr>fk_subject_id := s\<rparr>" s "kn_ktime_get_ns K"] assms(1)
  by (cases "ca_ingress_known K skb c (key\<lparr>fk_subject_id := s\<rparr>) s (kn_ktime_get_ns K) m")
     (simp_all add: ca_ingress_subject_def Let_def correlate_table admit_table)

lemma ingress_table:
  assumes ok: "flows_ok K" and t: "T (m_flows m)" and run: "ca_ingress K m skb = Some (act, skb', m')"
  shows "T (m_flows m')"
  using run
proof (cases rule: ca_ingress_cases)
  case off
  with t show ?thesis by simp
next
  case (on c parsed key mac ex)
  have "T (m_flows (snd (snd (act, skb', m'))))"
    unfolding on(4) Let_def using t by (auto simp: subject_table [OF ok] split: option.split)
  then show ?thesis by simp
qed

end

text \<open>A hash map of \<^verbatim>\<open>max_entries\<close> refuses a new key when it is full.\<close>

definition flows_bounded :: "kernel \<Rightarrow> bool" where
  "flows_bounded K \<longleftrightarrow> (\<forall>t k v f. t k = None \<and> CA_MAX_FLOWS \<le> card (dom t) \<longrightarrow>
     fst (mo_update (kn_flows K) t k v f) \<noteq> 0)"

definition table_small :: "kernel \<Rightarrow> (ca_flow_key \<rightharpoonup> ca_flow_state) \<Rightarrow> bool" where
  "table_small K t \<longleftrightarrow> flows_bounded K \<and> finite (dom t) \<and> card (dom t) \<le> CA_MAX_FLOWS"

interpretation table_size: table_invariant K "table_small K" for K
proof unfold_locales
  fix t k v f
  assume t: "table_small K t" and "fst (mo_update (kn_flows K) t k v f) = 0"
  then have "t k = None \<Longrightarrow> card (dom t) < CA_MAX_FLOWS"
    unfolding table_small_def flows_bounded_def by (meson not_le)
  with t show "table_small K (t(k \<mapsto> v))"
    by (cases "t k") (auto simp: table_small_def card_insert_if)
next
  fix t :: "ca_flow_key \<rightharpoonup> ca_flow_state" and k
  assume "table_small K t"
  then show "table_small K (t(k := None))"
    using card_mono [of "dom t" "dom t - {k}"] by (auto simp: table_small_def)
next
  fix t :: "ca_flow_key \<rightharpoonup> ca_flow_state" and k v
  assume "table_small K t" and "t k \<noteq> None"
  then show "table_small K (t(k \<mapsto> v))" by (simp add: table_small_def card_insert_if domIff)
qed

section \<open>The flow of a packet\<close>

text \<open>
  The key under which a packet is recorded: that of its header and of the subject that sends it, if
  the classifier is on, the packet parses and its sender is managed.
\<close>

definition packet_flow :: "ca_maps \<Rightarrow> sk_buff \<Rightarrow> ca_flow_key option" where
  "packet_flow m skb = do {
     c \<leftarrow> m_config m 0;
     (parsed, key, mac, n) \<leftarrow> ca_parse_flow (skb_data skb) (skb_len skb) zero_flow_key zero_mac 0;
     s \<leftarrow> ca_subject_lookup c m mac;
     if cfg_enabled c \<noteq> 0 \<and> parsed = CA_PARSE_OK then Some (key\<lparr>fk_subject_id := s\<rparr>) else None
   }"

text \<open>
  C30 packet_touches_own_flow: a packet changes no entry of the flow table but that of its own flow,
  whatever the kernel answers and whichever path the handler takes, and a packet without a flow
  (classifier off, sender unmanaged, header not understood) changes none.  The entry of its own flow
  afterwards is absent or carries the time of this packet, from which idle flows are told.
\<close>

theorem packet_touches_own_flow:
  assumes "flows_ok K" and "ca_ingress K m skb = Some (act, skb', m')"
  shows "case packet_flow m skb of
      None \<Rightarrow> m_flows m' = m_flows m
    | Some k \<Rightarrow> (\<forall>k'. k' \<noteq> k \<longrightarrow> m_flows m' k' = m_flows m k') \<and>
        (\<forall>f. m_flows m' k = Some f \<longrightarrow> fs_last_seen_ns f = kn_ktime_get_ns K)"
  using assms(2)
proof (cases rule: ca_ingress_cases)
  case off
  then have "packet_flow m skb = None" by (cases "m_config m 0") (auto simp: packet_flow_def split: bind_splits)
  with off show ?thesis by simp
next
  case (on c parsed key mac ex)
  have m': "m' = snd (snd (act, skb', m'))" by simp
  have flow: "packet_flow m skb = (case ca_subject_lookup c m mac of None \<Rightarrow> None
      | Some s \<Rightarrow> if parsed = CA_PARSE_OK then Some (key\<lparr>fk_subject_id := s\<rparr>) else None)"
    using on(1-3) by (simp add: packet_flow_def split: option.split)
  show ?thesis
  proof (cases "packet_flow m skb")
    case None
    have "m_flows (snd (snd (act, skb', m'))) = m_flows m"
      using None unfolding on(4) flow by (auto simp: Let_def split: option.splits if_splits)
    with None show ?thesis by simp
  next
    case (Some k)
    then obtain s where s: "ca_subject_lookup c m mac = Some s" "parsed = CA_PARSE_OK" "k = key\<lparr>fk_subject_id := s\<rparr>"
      unfolding flow by (auto split: option.splits if_splits)
    let ?r = "ca_ingress_subject K (cleared skb) c key s ex (ca_stat_inc CA_STAT_PACKETS m)"
    have "(act, skb', m') = ?r" unfolding on(4) using s by (simp add: Let_def)
    then have m': "m' = snd (snd ?r)" by (metis snd_conv)
    have "seen_at (kn_ktime_get_ns K) k (m_flows m')"
      unfolding m' s(3) by (rule subject_seen [OF assms(1)])
    moreover have "m_flows m' k' = m_flows m k'" if "k' \<noteq> k" for k'
      using subject_other [OF assms(1) that [unfolded s(3)], of "cleared skb" c ex "ca_stat_inc CA_STAT_PACKETS m"]
      by (simp add: m')
    ultimately show ?thesis using Some by (auto simp: seen_at_def)
  qed
qed

theorem packet_touches_own_flow_witness:
  "packet_flow ref_maps_flow ref_skb = Some ref_key \<and>
    (\<exists>act skb' m'. ca_ingress (ref_kernel 5) ref_maps_flow ref_skb = Some (act, skb', m') \<and>
      (\<forall>k'. k' \<noteq> ref_key \<longrightarrow> m_flows m' k' = None))"
proof -
  have k: "packet_flow ref_maps_flow ref_skb = Some ref_key"
    using ref_enforced(2) unfolding enforced_def packet_flow_def by (auto split: option.splits)
  obtain act skb' m' where r: "ca_ingress (ref_kernel 5) ref_maps_flow ref_skb = Some (act, skb', m')"
    using ca_ingress_defined by (metis definedE prod_cases3)
  from packet_touches_own_flow [OF ref_kernel_ok r] k r show ?thesis by (auto simp: ref_maps_flow_def)
qed

section \<open>Verdict counters\<close>

text \<open>
  \<open>calm m m'\<close>: the counters are there and neither verdict counter has moved.
  \<open>tallied m r\<close>: exactly the counter of the verdict on the packet has moved, by one.
\<close>

definition calm :: "ca_maps \<Rightarrow> ca_maps \<Rightarrow> bool" where
  "calm m m' \<longleftrightarrow> stats_ready m' \<and>
     stat m' CA_STAT_PACKET_APP_ALLOW_VERDICTS = stat m CA_STAT_PACKET_APP_ALLOW_VERDICTS \<and>
     stat m' CA_STAT_PACKET_APP_DENY_VERDICTS = stat m CA_STAT_PACKET_APP_DENY_VERDICTS"

definition marked :: "sk_buff \<Rightarrow> u8 \<Rightarrow> u64" where
  "marked skb v = of_bool (mark_verdict (skb_mark skb) = Some v)"

definition tallied :: "ca_maps \<Rightarrow> int \<times> sk_buff \<times> ca_maps \<Rightarrow> bool" where
  "tallied m r \<longleftrightarrow> stats_ready (snd (snd r)) \<and>
     stat (snd (snd r)) CA_STAT_PACKET_APP_ALLOW_VERDICTS =
       stat m CA_STAT_PACKET_APP_ALLOW_VERDICTS + marked (fst (snd r)) CA_VERDICT_ALLOW \<and>
     stat (snd (snd r)) CA_STAT_PACKET_APP_DENY_VERDICTS =
       stat m CA_STAT_PACKET_APP_DENY_VERDICTS + marked (fst (snd r)) CA_VERDICT_DENY"

lemma calm_refl: "stats_ready m \<Longrightarrow> calm m m"
  by (simp add: calm_def)

lemma calm_cong: "m_stats m1 = m_stats m2 \<Longrightarrow> calm m m1 = calm m m2"
  using stat_cong [of m1 m2] stats_ready_cong [of m1 m2] by (simp add: calm_def)

lemma calm_upd [simp]:
  "calm m (m'\<lparr>m_flows := x\<rparr>) = calm m m'" "calm m (m'\<lparr>m_runtime := r\<rparr>) = calm m m'"
  "calm m (m'\<lparr>m_global_rate := g\<rparr>) = calm m m'" "calm m (m'\<lparr>m_subject_rates := t\<rparr>) = calm m m'"
  "calm m (ca_pending_release K m') = calm m m'"
  "calm m (snd (ca_pending_reserve K m' l)) = calm m m'"
  "calm m (snd (ca_admit_classification K c m' s now)) = calm m m'"
  by (rule calm_cong; simp)+

lemma calm_stat [intro]:
  "calm m m' \<Longrightarrow> i < 16 \<or> i = 20 \<or> i = 21 \<Longrightarrow> calm m (ca_stat_add i n m')"
  "calm m m' \<Longrightarrow> i < 16 \<or> i = 20 \<or> i = 21 \<Longrightarrow> calm m (ca_stat_inc i m')"
proof -
  have "i < 22" if "i < 16 \<or> i = 20 \<or> i = (21 :: u32)"
    using that by (auto simp: word_less_nat_alt)
  then show "calm m m' \<Longrightarrow> i < 16 \<or> i = 20 \<or> i = 21 \<Longrightarrow> calm m (ca_stat_add i n m')"
    and "calm m m' \<Longrightarrow> i < 16 \<or> i = 20 \<or> i = 21 \<Longrightarrow> calm m (ca_stat_inc i m')"
    by (auto simp: calm_def stat_add stat_inc)
qed

lemma calm_stat_simps [simp]:
  "i < 16 \<or> i = 20 \<or> i = 21 \<Longrightarrow> calm m m' \<Longrightarrow> calm m (ca_stat_add i n m')"
  "i < 16 \<or> i = 20 \<or> i = 21 \<Longrightarrow> calm m m' \<Longrightarrow> calm m (ca_stat_inc i m')"
  by blast+

lemma calm_record [simp]: "calm m m' \<Longrightarrow> calm m (ca_record_terminal f b m')"
  by (simp add: ca_record_terminal_def Let_def)

lemma calm_classify [simp]: "calm m m' \<Longrightarrow> calm m (snd (snd (ca_classify K c k m')))"
  by (simp add: ca_classify_def Let_def split_beta)

lemma tallied_emit [simp]: "calm m m' \<Longrightarrow> tallied m (ca_emit_app_verdict skb v m')"
  by (simp add: tallied_def marked_def emit_maps calm_def stat_inc norm_verdict_def)

text \<open>A packet the handler passes on as it is carries no verdict: its two bits were cleared first.\<close>

lemma tallied_pass [simp]: "calm m m' \<Longrightarrow> tallied m (TC_ACT_UNSPEC, cleared skb, m')"
  by (simp add: tallied_def marked_def calm_def)

lemma tallied_cached [simp]: "calm m m' \<Longrightarrow> tallied m (ca_cached_verdict skb c k s f m')"
  by (simp add: ca_cached_verdict_def Let_def)

lemma tallied_shed [simp]: "calm m m' \<Longrightarrow> tallied m (ca_load_shed K skb c k s now m')"
  by (simp add: ca_load_shed_def Let_def split_beta split: option.split)

lemma tallied_correlate [simp]: "calm m m' \<Longrightarrow> tallied m (ca_ingress_correlate K (cleared skb) c k now m')"
  by (simp add: ca_ingress_correlate_def Let_def split_beta)

lemma tallied_classify [simp]: "calm m m' \<Longrightarrow> tallied m (ca_ingress_classify K skb c k s ex now m')"
  by (simp add: ca_ingress_classify_def Let_def split_beta ca_try_terminal_eq)

lemma tallied_admit [simp]: "calm m m' \<Longrightarrow> tallied m (ca_ingress_admit K skb c k s ex now m')"
  by (simp add: ca_ingress_admit_def split_beta)

lemma tallied_known:
  "calm m m' \<Longrightarrow> (case ca_ingress_known K (cleared skb) c k s now m' of
     Inl r \<Rightarrow> tallied m r | Inr m'' \<Rightarrow> calm m m'')"
  by (simp add: ca_ingress_known_def Let_def split: option.split)

lemma tallied_subject:
  assumes "calm m m'"
  shows "tallied m (ca_ingress_subject K (cleared skb) c key s ex m')"
  using tallied_known [OF assms, of K skb c "key\<lparr>fk_subject_id := s\<rparr>" s "kn_ktime_get_ns K"]
  by (cases "ca_ingress_known K (cleared skb) c (key\<lparr>fk_subject_id := s\<rparr>) s (kn_ktime_get_ns K) m'")
     (simp_all add: ca_ingress_subject_def Let_def)

text \<open>
  C31 verdict_counters_exact: of the two packet verdict counters exactly the one of the verdict
  stamped on the packet moves, by one; for a packet that passes unmarked neither does.
\<close>

theorem verdict_counters_exact:
  assumes "stats_ready m" and "ca_ingress K m skb = Some (act, skb', m')"
  shows "stat m' CA_STAT_PACKET_APP_ALLOW_VERDICTS = stat m CA_STAT_PACKET_APP_ALLOW_VERDICTS +
      of_bool (mark_verdict (skb_mark skb') = Some CA_VERDICT_ALLOW) \<and>
    stat m' CA_STAT_PACKET_APP_DENY_VERDICTS = stat m CA_STAT_PACKET_APP_DENY_VERDICTS +
      of_bool (mark_verdict (skb_mark skb') = Some CA_VERDICT_DENY)"
proof -
  note calm = calm_refl [OF assms(1)]
  have "tallied m (act, skb', m')"
    using assms(2)
  proof (cases rule: ca_ingress_cases)
    case off
    with calm show ?thesis by simp
  next
    case (on c parsed key mac ex)
    show ?thesis
      unfolding on(4) Let_def using calm by (auto simp: tallied_subject split: option.split)
  qed
  then show "stat m' CA_STAT_PACKET_APP_ALLOW_VERDICTS = stat m CA_STAT_PACKET_APP_ALLOW_VERDICTS +
      of_bool (mark_verdict (skb_mark skb') = Some CA_VERDICT_ALLOW) \<and>
    stat m' CA_STAT_PACKET_APP_DENY_VERDICTS = stat m CA_STAT_PACKET_APP_DENY_VERDICTS +
      of_bool (mark_verdict (skb_mark skb') = Some CA_VERDICT_DENY)"
    by (simp_all add: tallied_def marked_def)
qed

theorem verdict_counters_exact_witness:
  "\<exists>skb' m'. ca_ingress (ref_kernel 5) ref_maps_flow ref_skb = Some (TC_ACT_UNSPEC, skb', m') \<and>
     stat m' CA_STAT_PACKET_APP_DENY_VERDICTS = 1"
proof -
  obtain skb' m' where r: "ca_ingress (ref_kernel 5) ref_maps_flow ref_skb = Some (TC_ACT_UNSPEC, skb', m')"
    and v: "mark_verdict (skb_mark skb') = Some CA_VERDICT_DENY"
    using enforced_run [OF ref_enforced(2), of "ref_kernel 5"]
    by (auto simp: ca_ingress_known_def Let_def ca_cached_verdict_def norm_verdict_def ca_emit_app_verdict_def
        mark_verdict_def mark_bits)
  have "stats_ready ref_maps_flow" by (simp add: stats_ready_def ref_maps_flow_def ref_maps_def)
  from verdict_counters_exact [OF this r] r v show ?thesis
    by (simp add: stat_def ref_maps_flow_def ref_maps_def)
qed

section \<open>Packets without enforcement\<close>

text \<open>
  C32 correlation_only_unmarked: with enforcement switched off no packet is marked, whatever the
  maps hold, and neither admission budget nor policy is consulted: only the flow table and the
  counters change.
\<close>

theorem correlation_only_unmarked:
  assumes c: "m_config m 0 = Some c" and off: "cfg_app_enforcement_enabled c = 0"
    and run: "ca_ingress K m skb = Some (act, skb', m')"
  shows "skb' = skb\<lparr>skb_mark := skb_mark skb AND NOT CA_APP_MARK_MASK\<rparr> \<and>
    m_global_rate m' = m_global_rate m \<and> m_subject_rates m' = m_subject_rates m \<and>
    m_runtime m' = m_runtime m"
proof -
  have corr: "fst (snd (ca_ingress_subject K (cleared skb) c key s ex m1)) = cleared skb \<and>
      m_global_rate (snd (snd (ca_ingress_subject K (cleared skb) c key s ex m1))) = m_global_rate m1 \<and>
      m_subject_rates (snd (snd (ca_ingress_subject K (cleared skb) c key s ex m1))) = m_subject_rates m1 \<and>
      m_runtime (snd (snd (ca_ingress_subject K (cleared skb) c key s ex m1))) = m_runtime m1" for key s ex m1
    using off by (simp add: ca_ingress_subject_def ca_ingress_known_def ca_ingress_correlate_def Let_def
        split_beta split: option.split)
  show ?thesis
    using run
  proof (cases rule: ca_ingress_cases)
    case off
    then show ?thesis by simp
  next
    case (on c' parsed key mac ex)
    have same: "c' = c" using on(1) c by simp
    define r where "r = (act, skb', m')"
    have "fst (snd r) = cleared skb \<and> m_global_rate (snd (snd r)) = m_global_rate m \<and>
        m_subject_rates (snd (snd r)) = m_subject_rates m \<and> m_runtime (snd (snd r)) = m_runtime m"
      unfolding r_def on(4) same Let_def using off corr by (auto split: option.split)
    then show ?thesis by (simp add: r_def)
  qed
qed

theorem correlation_only_unmarked_witness:
  "\<exists>act skb' m'. ca_ingress (ref_kernel 5)
      (ref_maps\<lparr>m_config := [0 \<mapsto> ref_config\<lparr>cfg_app_enforcement_enabled := 0\<rparr>]\<rparr>) ref_skb = Some (act, skb', m') \<and>
    skb' = ref_skb\<lparr>skb_mark := skb_mark ref_skb AND NOT CA_APP_MARK_MASK\<rparr>"
proof -
  obtain act skb' m' where r: "ca_ingress (ref_kernel 5)
      (ref_maps\<lparr>m_config := [0 \<mapsto> ref_config\<lparr>cfg_app_enforcement_enabled := 0\<rparr>]\<rparr>) ref_skb = Some (act, skb', m')"
    using ca_ingress_defined by (metis definedE prod_cases3)
  from correlation_only_unmarked [OF _ _ r] r show ?thesis by simp
qed

text \<open>
  C33 unmanaged_or_opaque_packet: a packet whose sender is not managed gets the configured
  unknown-subject verdict, and a packet of a managed subject that cannot be parsed to a flow gets
  the policy's unclassified verdict; neither touches the flow table or the admission state.
\<close>

theorem unmanaged_or_opaque_packet:
  assumes c: "m_config m 0 = Some c" "cfg_enabled c \<noteq> 0" "cfg_app_enforcement_enabled c \<noteq> 0"
    and p: "ca_parse_flow (skb_data skb) (skb_len skb) zero_flow_key zero_mac 0 = Some (parsed, key, mac, ex)"
      "parsed \<noteq> CA_PARSE_NO_ETHERNET"
    and s: "parsed \<noteq> CA_PARSE_OK \<or> ca_subject_lookup c m mac = None"
  shows "\<exists>skb' m'. ca_ingress K m skb = Some (TC_ACT_UNSPEC, skb', m') \<and>
    mark_verdict (skb_mark skb') = Some (norm_verdict (case ca_subject_lookup c m mac of
        None \<Rightarrow> cfg_unknown_subject_app_verdict c
      | Some sid \<Rightarrow> ca_policy_verdict c m sid CA_CLASS_UNCLASSIFIED)) \<and>
    m_flows m' = m_flows m \<and> m_global_rate m' = m_global_rate m \<and>
    m_subject_rates m' = m_subject_rates m \<and> m_runtime m' = m_runtime m"
proof -
  obtain v i where run: "ca_ingress K m skb =
      Some (ca_emit_app_verdict (cleared skb) v (ca_stat_inc i (ca_stat_inc CA_STAT_PACKETS m)))"
    and v: "v = (case ca_subject_lookup c m mac of
        None \<Rightarrow> cfg_unknown_subject_app_verdict c
      | Some sid \<Rightarrow> ca_policy_verdict c m sid CA_CLASS_UNCLASSIFIED)"
  proof (cases "ca_subject_lookup c m mac")
    case None
    with that [of _ CA_STAT_UNKNOWN_SUBJECT_PACKETS] c p show ?thesis by (simp add: ca_ingress_def Let_def)
  next
    case (Some sid)
    with that [of _ CA_STAT_PARSE_UNSUPPORTED] c p s show ?thesis by (simp add: ca_ingress_def Let_def)
  qed
  let ?r = "ca_emit_app_verdict (cleared skb) v (ca_stat_inc i (ca_stat_inc CA_STAT_PACKETS m))"
  have "mark_verdict (skb_mark (fst (snd ?r))) = Some (norm_verdict v)" by simp
  moreover have "m_flows (snd (snd ?r)) = m_flows m" "m_global_rate (snd (snd ?r)) = m_global_rate m"
    "m_subject_rates (snd (snd ?r)) = m_subject_rates m" "m_runtime (snd (snd ?r)) = m_runtime m"
    by (simp_all add: emit_maps)
  moreover have "fst ?r = TC_ACT_UNSPEC" by simp
  ultimately show ?thesis
    unfolding run v by (intro exI [of _ "fst (snd ?r)"] exI [of _ "snd (snd ?r)"]) (simp add: prod_eq_iff v)
qed

theorem unmanaged_or_opaque_packet_witness:
  "\<exists>skb' m'. ca_ingress (ref_kernel 5) (ref_maps\<lparr>m_subject_a := Map.empty\<rparr>) ref_skb = Some (TC_ACT_UNSPEC, skb', m') \<and>
    mark_verdict (skb_mark skb') = Some CA_VERDICT_ALLOW"
proof -
  have n: "ca_subject_lookup ref_config (ref_maps\<lparr>m_subject_a := Map.empty\<rparr>) \<lparr>mac_addr = [2, 0, 0, 0, 0, 0x42]\<rparr> = None"
    "cfg_unknown_subject_app_verdict ref_config = 0"
    by (simp_all add: ca_subject_lookup_def ref_config_def)
  from unmanaged_or_opaque_packet [of "ref_maps\<lparr>m_subject_a := Map.empty\<rparr>" ref_config, OF _ _ _ ref_parse, of "ref_kernel 5"] n
  show ?thesis by (auto simp: norm_verdict_def)
qed

end
