(* ===== verification/System_State.thy ===== *)
theory System_State
  imports Publication Bpfctl Sfo_Housekeeping Datapath_Accounting
begin

text \<open>
  The invariant of the shared maps, and that each of the three programs keeps it: the classifier on
  every packet, the controller in every command, whether it succeeds or fails half way, and the offload
  tool.
\<close>

section \<open>The invariant\<close>

definition slot_wf :: "slot \<Rightarrow> bool" where
  "slot_wf sl \<longleftrightarrow> (\<forall>s \<in> ran (sl_subject sl). s \<noteq> 0) \<and> (\<forall>v \<in> ran (sl_policy sl). v \<le> CA_VERDICT_DENY) \<and>
     (\<forall>h \<in> ran (sl_port sl). published_hint h) \<and> (\<forall>h \<in> ran (sl_ipv4 sl). published_hint h) \<and>
     (\<forall>h \<in> ran (sl_ipv6 sl). published_hint h)"

text \<open>While the datapath is enabled every limit is in its range; a fresh configuration is not enabled.\<close>

definition config_safe :: "ca_config \<Rightarrow> bool" where
  "config_safe c \<longleftrightarrow> cfg_active_slot c \<le> 1 \<and> (cfg_enabled c \<noteq> 0 \<longrightarrow> config_wf c)"

definition maps_wf :: "ca_maps \<Rightarrow> bool" where
  "maps_wf m \<longleftrightarrow> (\<forall>c. m_config m 0 = Some c \<longrightarrow> config_safe c) \<and>
     slot_wf (get_slot True m) \<and> slot_wf (get_slot False m) \<and>
     all_entries entry_wf m \<and> finite (dom (m_flows m)) \<and> card (dom (m_flows m)) \<le> CA_MAX_FLOWS"

lemma maps_wf_slot: "maps_wf m \<Longrightarrow> slot_wf (get_slot b m)"
  by (cases b) (simp_all add: maps_wf_def)

lemma maps_wf_put: "maps_wf m \<Longrightarrow> slot_wf sl \<Longrightarrow> maps_wf (put_slot b sl m)"
proof -
  assume m: "maps_wf m" and sl: "slot_wf sl"
  have "slot_wf (get_slot b' (put_slot b sl m))" for b'
  proof (cases "b' = b")
    case True
    with sl show ?thesis by simp
  next
    case False
    then have "b' = (\<not> b)" by blast
    with m show ?thesis by (simp only: put_slot_frame maps_wf_slot)
  qed
  with m show ?thesis by (simp add: maps_wf_def all_entries_def)
qed

lemma maps_wf_frame [simp]:
  "maps_wf (m\<lparr>m_subject_rates := r\<rparr>) = maps_wf m" "maps_wf (m\<lparr>m_mark_schema := s\<rparr>) = maps_wf m"
  by (simp_all add: maps_wf_def all_entries_def get_slot_def)

lemma maps_wf_config:
  "maps_wf m \<Longrightarrow> config_safe c \<Longrightarrow> maps_wf (m\<lparr>m_config := (m_config m)(0 \<mapsto> c)\<rparr>)"
  by (simp add: maps_wf_def all_entries_def)

text \<open>Taking flows out keeps the invariant.\<close>

lemma maps_wf_fewer_flows: "maps_wf m \<Longrightarrow> fl \<subseteq>\<^sub>m m_flows m \<Longrightarrow> maps_wf (m\<lparr>m_flows := fl\<rparr>)"
proof -
  assume m: "maps_wf m" and le: "fl \<subseteq>\<^sub>m m_flows m"
  have dom: "dom fl \<subseteq> dom (m_flows m)" using le by (rule map_le_implies_dom_le)
  moreover have "m_flows m k = Some f" if "fl k = Some f" for k f
    using le that by (metis domI map_le_def)
  ultimately show ?thesis
    using m finite_subset [OF dom] card_mono [OF _ dom]
    by (auto simp: maps_wf_def all_entries_def get_slot_def)
qed

section \<open>The classifier\<close>

lemma packet_keeps:
  assumes K: "flows_ok K" "deletes_present K" "flows_bounded K" and m: "maps_wf m"
    and run: "ca_ingress K m skb = Some (act, skb', m')"
  shows "maps_wf m'"
proof -
  have snap: "snapshot_of m' = snapshot_of m"
    using well_behaved_ingress [OF run] by (simp add: well_behaved_def)
  then have "m_config m' = m_config m" "get_slot b m' = get_slot b m" for b
    by (simp_all add: snapshot_of_def get_slot_def)
  moreover have "all_entries entry_wf m'"
  proof (cases "m_config m 0")
    case None
    with run m show ?thesis by (auto simp: ca_ingress_def maps_wf_def)
  next
    case (Some c)
    have "all_entries entry_wf m" using m by (simp add: maps_wf_def)
    from entry_wf.ingress_entries [OF K(1,2) Some this refl run] show ?thesis .
  qed
  moreover have "table_small K (m_flows m')"
    using K(3) m by (intro table_size.ingress_table [OF K(1) _ run]) (simp add: table_small_def maps_wf_def)
  ultimately show ?thesis using m by (simp add: maps_wf_def table_small_def)
qed

section \<open>Publication\<close>

lemma run_steps_keep:
  "\<lbrakk>\<And>f s e s'. f \<in> set fs \<Longrightarrow> J s \<Longrightarrow> f s = Some (e, s') \<Longrightarrow> J s'; J s; run_steps fs s = Some (e, s')\<rbrakk> \<Longrightarrow> J s'"
proof (induction fs arbitrary: s)
  case Nil
  then show ?case by simp
next
  case (Cons f fs)
  obtain e1 s1 where f: "f s = Some (e1, s1)" using Cons.prems(3) by (auto split: option.splits)
  have "J s1" using Cons.prems(1) [of f s e1 s1] Cons.prems(2) f by simp
  show ?case
  proof (cases "e1 = 0")
    case True
    then have "run_steps fs s1 = Some (e, s')" using Cons.prems(3) f by simp
    with \<open>J s1\<close> show ?thesis by (intro Cons.IH [of s1]) (auto intro: Cons.prems(1))
  next
    case False
    with Cons.prems(3) f \<open>J s1\<close> show ?thesis by simp
  qed
qed

lemma populate_ran:
  assumes "map_update_ok ops"
  shows "populate ops es m = Some (e, m') \<Longrightarrow> ran m' \<subseteq> ran m \<union> snd ` set es"
proof (induction es arbitrary: m)
  case Nil
  then show ?case by simp
next
  case (Cons x es)
  obtain k v where x: "x = (k, v)" by (cases x)
  let ?u = "mo_update ops m k v BPF_NOEXIST"
  have u: "ran (snd ?u) \<subseteq> insert v (ran m)"
    using map_update_cases [OF assms, of m k v BPF_NOEXIST] by (cases ?u) (auto simp: ran_def split: if_splits)
  show ?case
  proof (cases "fst ?u = 0")
    case True
    then have "populate ops es (snd ?u) = Some (e, m')" using Cons.prems by (simp add: x)
    from Cons.IH [OF this] u show ?thesis by (auto simp: x)
  next
    case False
    with Cons.prems u show ?thesis by (auto simp: x)
  qed
qed

lemma cleared_values: "clear_map ops m = Some (e, m') \<Longrightarrow> map_ok ops \<Longrightarrow> \<forall>v \<in> ran m. P v \<Longrightarrow> \<forall>v \<in> ran m'. P v"
  using clear_map_le [of ops m "(e, m')"] by (auto simp: map_ok_def map_le_def ran_def) (metis domI)

lemma filled_values:
  "populate ops es m = Some (e, m') \<Longrightarrow> map_ok ops \<Longrightarrow> \<forall>v \<in> ran m. P v \<Longrightarrow> \<forall>v \<in> snd ` set es. P v \<Longrightarrow> \<forall>v \<in> ran m'. P v"
  using populate_ran [of ops es m e m'] by (auto simp: map_ok_def)

lemma clear_part:
  "on_part get put (clear_map ops) s = Some (e, s') \<Longrightarrow> map_ok ops \<Longrightarrow> \<forall>v \<in> ran (get s). P v \<Longrightarrow>
    \<exists>x. s' = put x s \<and> (\<forall>v \<in> ran x. P v)"
  using cleared_values [of ops "get s" e _ P] by (auto simp: on_part_Some)

lemma fill_part:
  "on_part get put (populate ops es) s = Some (e, s') \<Longrightarrow> map_ok ops \<Longrightarrow> \<forall>v \<in> ran (get s). P v \<Longrightarrow>
    \<forall>v \<in> snd ` set es. P v \<Longrightarrow> \<exists>x. s' = put x s \<and> (\<forall>v \<in> ran x. P v)"
  using filled_values [of ops es "get s" e _ P] by (auto simp: on_part_Some)

lemma rebuild_keeps:
  assumes ok: "sys_ok S" and sn: "snapshot_wf sn" and sl: "slot_wf sl"
    and run: "run_steps (clear_slot S @ fill_slot S sn) sl = Some (e, sl')"
  shows "slot_wf sl'"
  using _ sl run
proof (rule run_steps_keep)
  have new: "\<forall>v \<in> snd ` set (map (\<lambda>e. (se_key e, se_subject_id e)) (sn_subjects sn)). v \<noteq> 0"
    "\<forall>v \<in> snd ` set (map (\<lambda>e. (pe_key e, pe_verdict e)) (sn_policies sn)). v \<le> CA_VERDICT_DENY"
    "\<forall>h \<in> snd ` set (map (\<lambda>e. (te_key e, te_hint e)) (sn_ports sn)). published_hint h"
    "\<forall>h \<in> snd ` set (map (\<lambda>e. (v4_key e, v4_hint e)) (sn_ipv4 sn)). published_hint h"
    "\<forall>h \<in> snd ` set (map (\<lambda>e. (v6_key e, v6_hint e)) (sn_ipv6 sn)). published_hint h"
    using sn by (auto simp: snapshot_wf_def list_all_iff subject_wf_def policy_wf_def port_wf_def ipv4_wf_def ipv6_wf_def)
  fix f s e' s'
  assume f: "f \<in> set (clear_slot S @ fill_slot S sn)" and s: "slot_wf s" and r: "f s = Some (e', s')"
  have ops: "map_ok (sy_subject S)" "map_ok (sy_policy S)" "map_ok (sy_port S)" "map_ok (sy_ipv4 S)" "map_ok (sy_ipv6 S)"
    using ok by (simp_all add: sys_ok_def)
  have old: "\<forall>v \<in> ran (sl_subject s). v \<noteq> 0" "\<forall>v \<in> ran (sl_policy s). v \<le> CA_VERDICT_DENY"
    "\<forall>h \<in> ran (sl_port s). published_hint h" "\<forall>h \<in> ran (sl_ipv4 s). published_hint h"
    "\<forall>h \<in> ran (sl_ipv6 s). published_hint h"
    using s unfolding slot_wf_def by blast+
  note parts = clear_part [where get = sl_subject and P = "\<lambda>v. v \<noteq> 0", OF _ ops(1) old(1)]
    clear_part [where get = sl_policy and P = "\<lambda>v. v \<le> CA_VERDICT_DENY", OF _ ops(2) old(2)]
    clear_part [where get = sl_port and P = "published_hint", OF _ ops(3) old(3)]
    clear_part [where get = sl_ipv4 and P = "published_hint", OF _ ops(4) old(4)]
    clear_part [where get = sl_ipv6 and P = "published_hint", OF _ ops(5) old(5)]
    fill_part [where get = sl_subject and P = "\<lambda>v. v \<noteq> 0", OF _ ops(1) old(1) new(1)]
    fill_part [where get = sl_policy and P = "\<lambda>v. v \<le> CA_VERDICT_DENY", OF _ ops(2) old(2) new(2)]
    fill_part [where get = sl_port and P = "published_hint", OF _ ops(3) old(3) new(3)]
    fill_part [where get = sl_ipv4 and P = "published_hint", OF _ ops(4) old(4) new(4)]
    fill_part [where get = sl_ipv6 and P = "published_hint", OF _ ops(5) old(5) new(5)]
  from f r s show "slot_wf s'"
    unfolding clear_slot_def fill_slot_def append.simps set_simps insert_iff empty_iff
    by - (elim disjE FalseE; hypsubst; drule parts; elim exE conjE; simp add: slot_wf_def)
qed

lemma next_config_safe: "config_wf (sn_config sn) \<Longrightarrow> config_safe (next_config sn current)"
  by (simp add: config_safe_def next_config_def config_wf_def)

lemma sync_slot_keeps:
  assumes ok: "sys_ok S" and sn: "snapshot_wf sn" "config_wf (sn_config sn)" and m: "maps_wf m"
    and run: "sync_slot S sn current m = Some (e, m')"
  shows "maps_wf m'"
proof -
  let ?c = "next_config sn current"
  let ?b = "cfg_active_slot ?c \<noteq> 0"
  let ?steps = "[on_part (get_slot ?b) (put_slot ?b) (run_steps (clear_slot S @ fill_slot S sn)),
    reset_rates S ?c current, publish S ?c]"
  have upd: "map_update_ok (sy_config S)" using ok by (simp add: sys_ok_def map_ok_def)
  have keep: "maps_wf s'" if f: "f \<in> set ?steps" and s: "maps_wf s" and r: "f s = Some (e', s')" for f s e' s'
  proof -
    consider "f = on_part (get_slot ?b) (put_slot ?b) (run_steps (clear_slot S @ fill_slot S sn))"
      | "f = reset_rates S ?c current" | "f = publish S ?c" using f by auto
    then show ?thesis
    proof cases
      case 1
      with r obtain x where x: "run_steps (clear_slot S @ fill_slot S sn) (get_slot ?b s) = Some (e', x)" "s' = put_slot ?b x s"
        by (auto simp only: on_part_Some)
      have "slot_wf x" by (rule rebuild_keeps [OF ok sn(1) maps_wf_slot [OF s] x(1)])
      with s x(2) show ?thesis by (simp only: maps_wf_put)
    next
      case 2
      with r s show ?thesis by (auto simp: reset_rates_def on_part_Some split: if_splits)
    next
      case 3
      obtain e1 x where u: "mo_update (sy_config S) (m_config s) 0 ?c BPF_ANY = (e1, x)" by fastforce
      with 3 r have s': "s' = s\<lparr>m_config := x\<rparr>" by (simp add: publish_def)
      have "maps_wf (s\<lparr>m_config := m_config s\<rparr>)" using s by simp
      then show ?thesis
        using map_update_cases [OF upd u] maps_wf_config [OF s next_config_safe [OF sn(2), of current]] s' by auto
    qed
  qed
  have "m' = m \<or> run_steps ?steps m = Some (e, m')"
    using run by (auto simp: sync_slot_def next_config_def [symmetric] Let_def simp del: run_steps.simps split: if_splits)
  then show ?thesis
  proof
    assume steps: "run_steps ?steps m = Some (e, m')"
    show ?thesis by (rule run_steps_keep [where J = maps_wf, OF keep m steps])
  qed (use m in simp)
qed

lemma sync_keeps:
  assumes ok: "sys_ok S" and L: "pton_ok L" and m: "maps_wf m"
    and run: "ca_bpf_snapshot_sync S L stdin m = Some (e, m')"
  shows "maps_wf m'"
proof -
  obtain err sn where p: "parse_snapshot L zero_snapshot stdin = (err, sn)" by fastforce
  have wf: "snapshot_wf sn \<and> config_wf (sn_config sn)" if "err = 0"
  proof -
    have "sn_have_config sn" and "sn = snd (parse_lines L zero_snapshot (map c_str (get_lines stdin)))"
      using p that by (auto simp: parse_snapshot_def Let_def split_beta split: if_splits)
    moreover from this have "snapshot_wf sn" using parse_lines_wf [OF L] by simp
    ultimately show ?thesis by (simp add: snapshot_wf_def)
  qed
  have "m' = m \<or> err = 0 \<and> (\<exists>current e'. sync_slot S sn current m = Some (e', m'))"
    using run p by (auto simp: ca_bpf_snapshot_sync_def Let_def split: if_splits sum.splits option.splits)
  with sync_slot_keeps [OF ok _ _ m] wf m show ?thesis by blast
qed

section \<open>The other commands of the controller\<close>

lemma disable_keeps:
  assumes ok: "sys_ok S" and m: "maps_wf m" and run: "ca_bpf_backend_disable_unlocked S m = (e, m')"
  shows "maps_wf m'"
proof -
  have upd: "map_update_ok (sy_config S)" using ok by (simp add: sys_ok_def map_ok_def)
  have lk: "case ca_bpf_lookup_config S m of Inr c \<Rightarrow> m_config m 0 = Some c
      | Inl e \<Rightarrow> e \<noteq> 0 \<and> (e = ENOENT \<longrightarrow> m_config m 0 = None)"
    using ok unfolding sys_ok_def lookup_ok_def ca_bpf_lookup_config_def by blast
  show ?thesis
  proof (cases "ca_bpf_open_map S ''ca_config'' = 0 \<and> (\<exists>c. ca_bpf_lookup_config S m = Inr c)")
    case False
    with run m show ?thesis by (auto simp: ca_bpf_backend_disable_unlocked_def split: sum.splits if_splits)
  next
    case True
    then obtain c where c: "ca_bpf_lookup_config S m = Inr c" by blast
    obtain e1 x where u: "mo_update (sy_config S) (m_config m) 0 (c\<lparr>cfg_enabled := 0\<rparr>) BPF_ANY = (e1, x)" by fastforce
    have m': "m' = m\<lparr>m_config := x\<rparr>"
      using run True c u by (auto simp: ca_bpf_backend_disable_unlocked_def)
    have "config_safe (c\<lparr>cfg_enabled := 0\<rparr>)" using m lk c by (simp add: maps_wf_def config_safe_def)
    from map_update_cases [OF upd u] maps_wf_config [OF m this] m' m show ?thesis by auto
  qed
qed

lemma each_key_keep:
  assumes keep: "\<And>k s. J s \<Longrightarrow> J (fst (body k s))"
  shows "each_key nxt body k s = Some s' \<Longrightarrow> J s \<Longrightarrow> J s'"
proof -
  assume run: "each_key nxt body k s = Some s'"
  have "(\<forall>k s. J s \<longrightarrow> J (fst (body k s))) \<longrightarrow> J s \<longrightarrow> J s'"
    using run
  proof (rule each_key.raw_induct [where P = "\<lambda>nxt body k s s'. (\<forall>k s. J s \<longrightarrow> J (fst (body k s))) \<longrightarrow> J s \<longrightarrow> J s'", rotated])
    fix f nxt body k s s'
    assume IH: "\<And>nxt body k s y. f nxt body k s = Some y \<Longrightarrow> (\<forall>k s. J s \<longrightarrow> J (fst (body k s))) \<longrightarrow> J s \<longrightarrow> J y"
      and run: "(if snd (body k s) then Some (fst (body k s))
        else case nxt s k of Inl e \<Rightarrow> Some (fst (body k s)) | Inr key' \<Rightarrow> f nxt body key' (fst (body k s))) = Some s'"
    show "(\<forall>k s. J s \<longrightarrow> J (fst (body k s))) \<longrightarrow> J s \<longrightarrow> J s'"
    proof (intro impI)
      assume b: "\<forall>k s. J s \<longrightarrow> J (fst (body k s))" and s: "J s"
      then have now: "J (fst (body k s))" by blast
      have "s' = fst (body k s) \<or> (\<exists>key'. f nxt body key' (fst (body k s)) = Some s')"
        using run by (auto split: if_splits sum.splits)
      then show "J s'" using now IH b by blast
    qed
  qed
  with keep show "J s \<Longrightarrow> J s'" by blast
qed

lemma gc_keeps:
  assumes ok: "sys_ok S" and m: "maps_wf m" and run: "ca_bpf_gc_flows S clock idle m = Some (e, out, m')"
  shows "maps_wf m'"
proof -
  have del: "map_delete_ok (sy_flows S)" using ok by (simp add: sys_ok_def map_ok_def)
  have step: "fst (fst (gc_visit S cutoff k s)) \<subseteq>\<^sub>m fst s" for cutoff k s
  proof -
    obtain fl n where s: "s = (fl, n)" by fastforce
    obtain e1 x where u: "mo_delete (sy_flows S) fl k = (e1, x)" by fastforce
    from map_delete_cases [OF del u] have "x \<subseteq>\<^sub>m fl" by (auto simp: map_le_def split: if_splits)
    then show ?thesis by (simp add: gc_visit_def s u split: option.split)
  qed
  have keep: "fst s' \<subseteq>\<^sub>m m_flows m"
    if "each_key nxt (gc_visit S cutoff) k (m_flows m, 0) = Some s'" for nxt cutoff k s'
    by (rule each_key_keep [OF _ that, of "\<lambda>s. fst s \<subseteq>\<^sub>m m_flows m"])
      (auto intro: map_le_trans [OF step])
  have "m' = m \<or> (\<exists>fl. m' = m\<lparr>m_flows := fl\<rparr> \<and> fl \<subseteq>\<^sub>m m_flows m)"
    using run by (auto simp: ca_bpf_gc_flows_def split: if_splits option.splits sum.splits Option.bind_splits dest!: keep)
  with m maps_wf_fewer_flows show ?thesis by blast
qed

end
