(* ===== verification/System.thy ===== *)
theory System
  imports System_State
begin

text \<open>
  The three programs together: a system state changes by a packet through the classifier, a command of
  the controller, or a run of the offload tool, in any order and any number, with any calls failing.
\<close>

section \<open>Loading\<close>

text \<open>
  \<^verbatim>\<open>bpf_object__load\<close> uses the map behind a pin that is still there and creates the others
  anew: a hash map empty, the array of the configuration zeroed.
\<close>

definition reused_or_new :: "ca_maps \<Rightarrow> ca_maps \<Rightarrow> bool" where
  "reused_or_new m m' \<longleftrightarrow> m_config m' \<in> {m_config m, [0 \<mapsto> zero_config]} \<and>
     m_subject_a m' \<in> {m_subject_a m, Map.empty} \<and> m_subject_b m' \<in> {m_subject_b m, Map.empty} \<and>
     m_policy_a m' \<in> {m_policy_a m, Map.empty} \<and> m_policy_b m' \<in> {m_policy_b m, Map.empty} \<and>
     m_port_a m' \<in> {m_port_a m, Map.empty} \<and> m_port_b m' \<in> {m_port_b m, Map.empty} \<and>
     m_ipv4_a m' \<in> {m_ipv4_a m, Map.empty} \<and> m_ipv4_b m' \<in> {m_ipv4_b m, Map.empty} \<and>
     m_ipv6_a m' \<in> {m_ipv6_a m, Map.empty} \<and> m_ipv6_b m' \<in> {m_ipv6_b m, Map.empty} \<and>
     m_flows m' \<in> {m_flows m, Map.empty}"

definition load_ok :: "host \<Rightarrow> bool" where
  "load_ok H \<longleftrightarrow> (\<forall>path m pins. reused_or_new m (fst (snd (ho_load H path m pins))))"

lemma reused_or_new_wf:
  assumes m: "maps_wf m" and r: "reused_or_new m m'"
  shows "maps_wf m'"
proof -
  have sub: "ran x \<subseteq> ran y" if "x \<in> {y, Map.empty}" for x y :: "'k \<rightharpoonup> 'v" using that by auto
  have wf: "slot_wf sl'" if "slot_wf sl" "ran (sl_subject sl') \<subseteq> ran (sl_subject sl)"
    "ran (sl_policy sl') \<subseteq> ran (sl_policy sl)" "ran (sl_port sl') \<subseteq> ran (sl_port sl)"
    "ran (sl_ipv4 sl') \<subseteq> ran (sl_ipv4 sl)" "ran (sl_ipv6 sl') \<subseteq> ran (sl_ipv6 sl)" for sl sl'
    using that unfolding slot_wf_def by blast
  have "slot_wf (get_slot True m')"
    using r by (intro wf [OF maps_wf_slot [OF m, of True]] sub) (simp_all add: get_slot_def reused_or_new_def)
  moreover have "slot_wf (get_slot False m')"
    using r by (intro wf [OF maps_wf_slot [OF m, of False]] sub) (simp_all add: get_slot_def reused_or_new_def)
  moreover have "config_safe c" if "m_config m' 0 = Some c" for c
  proof -
    have "config_safe zero_config" by (simp add: config_safe_def zero_config_def)
    moreover have "m_config m' = m_config m \<or> m_config m' = [0 \<mapsto> zero_config]" using r by (simp add: reused_or_new_def)
    ultimately show ?thesis using that m by (auto simp: maps_wf_def)
  qed
  moreover have "m_flows m' = m_flows m \<or> m_flows m' = Map.empty" using r by (simp add: reused_or_new_def)
  then have "all_entries entry_wf m'" "finite (dom (m_flows m'))" "card (dom (m_flows m')) \<le> CA_MAX_FLOWS"
    using m by (auto simp: maps_wf_def all_entries_def)
  ultimately show ?thesis by (simp add: maps_wf_def)
qed

lemma load_object_maps:
  defines "loaded H path st \<equiv> fst (snd (ho_load H path (cs_maps st) (cs_pins st)))"
  shows "cs_maps (snd (load_object H path st)) \<in> {cs_maps st, loaded H path st} \<union>
    range (\<lambda>s. (loaded H path st)\<lparr>m_mark_schema := s\<rparr>)"
proof -
  have prog: "cs_maps (unlink_program H st) = cs_maps st" for st by (simp add: unlink_program_def)
  show ?thesis unfolding loaded_def by (simp add: load_object_def Let_def split_beta prog)
qed

lemma load_keeps:
  assumes tc: "tc_ok H" and law: "load_ok H" and m: "maps_wf (cs_maps st)"
    and run: "ca_bpf_object_load H S path replace st = (e, st')"
  shows "maps_wf (cs_maps st')"
proof -
  obtain r st1 where p: "ca_bpf_tc_prune H [] st = (r, st1)" by fastforce
  have m1: "maps_wf (cs_maps st1)" using prune_maps [OF tc p] m by simp
  have "st' = st \<or> st' = st1 \<or> st' = snd (load_object H path (ca_bpf_object_unlink H st1))"
    using run p by (auto simp: ca_bpf_object_load_def ca_bpf_tc_detach_all_def Let_def split: if_splits prod.splits)
  moreover have "maps_wf (cs_maps (snd (load_object H path (ca_bpf_object_unlink H st1))))"
    using load_object_maps [of H path "ca_bpf_object_unlink H st1"] m1 law reused_or_new_wf [OF m1] unfolding load_ok_def
    by auto
  ultimately show ?thesis using m m1 by auto
qed

section \<open>A command, a run of the offload tool\<close>

lemma action_maps:
  "tc_ok H \<Longrightarrow> ca_bpf_tc_action H ifname attach st = (ret, st') \<Longrightarrow> cs_maps st' = cs_maps st"
  using action_spec [of H ifname attach st ret st'] by auto

lemma unload_keeps:
  assumes tc: "tc_ok H" and ok: "sys_ok S" and m: "maps_wf (cs_maps st)"
    and run: "unload_backend H S st = Some (ret, out, st')"
  shows "maps_wf (cs_maps st')"
proof -
  obtain r maps where d: "ca_bpf_backend_disable_unlocked (sys_at H S st) (cs_maps st) = (r, maps)" by fastforce
  obtain r2 st2 where t: "ca_bpf_tc_detach_all H (st\<lparr>cs_maps := maps\<rparr>) = (r2, st2)" by fastforce
  have "maps_wf maps" using ok by (intro disable_keeps [OF _ m d]) simp
  moreover have "cs_maps st2 = maps" using prune_maps [OF tc] t by (fastforce simp: ca_bpf_tc_detach_all_def)
  moreover have "cs_maps st' \<in> {cs_maps st, maps, cs_maps st2}"
    using run d t by (auto simp: unload_backend_def Let_def split: if_splits)
  ultimately show ?thesis using m by auto
qed

lemma command_keeps:
  assumes H: "tc_ok H" "load_ok H" and S: "sys_ok S" and L: "pton_ok L" and m: "maps_wf (cs_maps st)"
    and run: "bpfctl_main H S L stdin argv st = Some (ret, out, st')"
  shows "maps_wf (cs_maps st')"
proof -
  have at: "sys_ok (sys_at H S st)" using S by simp
  have locked: "maps_wf (cs_maps st')" if "with_object_lock H S path replace st = Some (ret, out, st')" for path replace
    using object_lock.outcome [OF that] load_keeps [OF H m] m by (auto split: prod.splits)
  have tc: "maps_wf (cs_maps st')" if "with_tc_lock H S ifname attach st = Some (ret, out, st')" for ifname attach
    using tc_lock.outcome [OF that] action_maps [OF H(1)] m by (auto split: prod.splits)
  have prune: "maps_wf (cs_maps st')" if "prune_with_lock H S keep st = Some (ret, out, st')" for keep
    using prune_lock.outcome [OF that] prune_maps [OF H(1)] m by (auto split: prod.splits)
  have simple: "maps_wf (cs_maps st')" if "simple_with_lock S operation st = Some (ret, out, st')" for operation
    using simple_lock.outcome [OF that] m by (auto split: Option.bind_splits)
  have health: "maps_wf (cs_maps st')" if "health_with_lock H S pg cg names st = Some (ret, out, st')" for pg cg names
    using health_lock.outcome [OF that] m by (auto simp: Let_def split: Option.bind_splits if_splits)
  have gc: "maps_wf (cs_maps st')" if "gc_with_lock H S idle st = Some (ret, out, st')" for idle
    using gc_lock.outcome [OF that] gc_keeps [OF at m] m by (auto split: Option.bind_splits)
  have disable: "maps_wf x" if "ca_bpf_backend_disable (sys_at H S st) (cs_maps st) = (e, x)" for e x
    using that disable_keeps [OF at m] m by (auto simp: ca_bpf_backend_disable_def split: if_splits)
  from run m show ?thesis
    unfolding bpfctl_main_def Let_def
    by (auto split: if_splits option.splits prod.splits Option.bind_splits
        dest: locked tc prune simple health gc disable sync_keeps [OF at L m] unload_keeps [OF H(1) S m])
qed

lemma gc_loop_le:
  "map_delete_ok (sv_flows E) \<Longrightarrow> gc_loop E cutoff its m r = (whole, m', r') \<Longrightarrow> m' \<subseteq>\<^sub>m m"
proof (induction its arbitrary: m r)
  case Nil
  then show ?case by simp
next
  case (Cons it its)
  obtain e x where u: "mo_delete (sv_flows E) m (cd_key it) = (e, x)" by fastforce
  have x: "x \<subseteq>\<^sub>m m"
    using map_delete_cases [OF Cons.prems(1) u] by (auto simp: map_le_def split: if_splits)
  show ?case
    using Cons.prems(2) Cons.IH [OF Cons.prems(1)] x
    by (auto simp: u split: if_splits intro: map_le_trans)
qed

lemma run_gc_le:
  assumes "map_delete_ok (sv_flows E)" and "sv_meanwhile E = id" and "run_gc E m idle = Some (c, r, m')"
  shows "m' \<subseteq>\<^sub>m m"
  using assms(2,3) unfolding run_gc_def Let_def
  by (auto split: if_splits option.splits Option.bind_splits prod.splits dest: gc_loop_le [OF assms(1)])

lemma sfo_keeps:
  assumes E: "map_delete_ok (sv_flows E)" "sv_meanwhile E = id" and m: "maps_wf m"
    and run: "sfo_main E (m_flows m) argv = Some (ret, out, fl, log)"
  shows "maps_wf (m\<lparr>m_flows := fl\<rparr>)"
proof -
  have "fl = m_flows m \<or> (\<exists>idle c r. run_gc E (m_flows m) idle = Some (c, r, fl))"
    using run unfolding sfo_main_def Let_def
    by (auto split: if_splits option.splits Option.bind_splits)
  then have "fl \<subseteq>\<^sub>m m_flows m" using run_gc_le [OF E] by auto
  then show ?thesis by (rule maps_wf_fewer_flows [OF m])
qed

section \<open>Executions\<close>

inductive system_step :: "ctl \<Rightarrow> ctl \<Rightarrow> bool" where
  packet: "\<lbrakk>flows_ok K; deletes_present K; flows_bounded K;
      ca_ingress K (cs_maps st) skb = Some (act, skb', m)\<rbrakk> \<Longrightarrow>
    system_step st (st\<lparr>cs_maps := m\<rparr>)"
| controller: "\<lbrakk>host_ok H; load_ok H; sys_ok S; pton_ok L;
      bpfctl_main H S L stdin argv st = Some (ret, out, st')\<rbrakk> \<Longrightarrow>
    system_step st st'"
| offload: "\<lbrakk>map_delete_ok (sv_flows E); sv_meanwhile E = id;
      sfo_main E (m_flows (cs_maps st)) argv = Some (ret, out, fl, log)\<rbrakk> \<Longrightarrow>
    system_step st (st\<lparr>cs_maps := (cs_maps st)\<lparr>m_flows := fl\<rparr>\<rparr>)"

lemma step_keeps: "system_step st st' \<Longrightarrow> maps_wf (cs_maps st) \<Longrightarrow> maps_wf (cs_maps st')"
proof (induction rule: system_step.induct)
  case (packet K st skb act skb' m)
  then show ?case using packet_keeps [of K "cs_maps st" skb act skb' m] by simp
next
  case (controller H S L stdin argv st ret out st')
  then show ?case using command_keeps [of H S L st stdin argv ret out st'] by (simp add: host_ok_def)
next
  case (offload E st argv ret out fl log)
  then show ?case using sfo_keeps [of E "cs_maps st" argv ret out fl log] by simp
qed

text \<open>
  C8 reachable_maps_wf: in every state that the three programs can reach from a well-formed one, such
  as fresh maps, by any sequence of packets, commands and offload runs, successful or not, the maps are
  well formed: an enabled configuration has every limit in its range, both slots hold only real
  subjects, verdicts and hints, every flow entry has its shape and the table its bound.
\<close>

theorem reachable_maps_wf:
  assumes "system_step\<^sup>*\<^sup>* st st'" and "maps_wf (cs_maps st)"
  shows "maps_wf (cs_maps st')"
  using assms by (induction rule: rtranclp_induct) (auto intro: step_keeps)

lemma step_respects: "system_step st st' \<Longrightarrow> filters_respected st st'"
proof (induction rule: system_step.induct)
  case (controller H S L stdin argv st ret out st')
  then show ?case using main_respects [of H S L stdin argv st ret out st'] by (simp add: host_ok_def)
qed (simp_all add: filters_respected_same)

text \<open>
  C40 foreign_filter_survives: a filter of another program stays where it is for as long as its
  program is not the one pinned, whatever packets arrive and whatever commands are run.
\<close>

theorem foreign_filter_survives:
  assumes "(\<lambda>s s'. system_step s s' \<and> cs_program s \<noteq> Some p)\<^sup>*\<^sup>* st st'" and "cs_filters st c = Some p"
  shows "cs_filters st' c = Some p"
  using assms
proof (induction rule: rtranclp_induct)
  case base
  then show ?case .
next
  case (step s s')
  then have r: "filters_respected s s'" and f: "cs_filters s c = Some p" using step_respects by simp_all
  show ?case
  proof (cases "cs_program s")
    case None
    with r f show ?thesis by (simp add: filters_respected_def)
  next
    case (Some own)
    with r have "spares own (cs_filters s) (cs_filters s')" by (simp add: filters_respected_def)
    moreover have "p \<noteq> own" using step Some by auto
    ultimately show ?thesis using spares_foreign [where f = "cs_filters s" and c = c] f by blast
  qed
qed

section \<open>Every command returns\<close>

text \<open>Each map the counting loops visit is iterated in a fixed order that covers its keys.\<close>

definition covered :: "('k, 'v) map_ops \<Rightarrow> ('k \<rightharpoonup> 'v) set \<Rightarrow> bool" where
  "covered ops ms \<longleftrightarrow> (\<exists>ks. walk_ok ops ks \<and> (\<forall>m \<in> ms. dom m \<subseteq> set ks))"

definition walkable :: "sys \<Rightarrow> ca_maps \<Rightarrow> bool" where
  "walkable S m \<longleftrightarrow> covered (sy_subject S) {m_subject_a m, m_subject_b m} \<and>
     covered (sy_policy S) {m_policy_a m, m_policy_b m} \<and> covered (sy_port S) {m_port_a m, m_port_b m} \<and>
     covered (sy_ipv4 S) {m_ipv4_a m, m_ipv4_b m} \<and> covered (sy_ipv6 S) {m_ipv6_a m, m_ipv6_b m} \<and>
     covered (sy_flows S) {m_flows m}"

lemma covered_counts:
  "covered ops ms \<Longrightarrow> m \<in> ms \<Longrightarrow> defined (count_map_entries ops m)"
  "covered ops' ms' \<Longrightarrow> m' \<in> ms' \<Longrightarrow> defined (count_unique_subjects ops' m')"
  unfolding covered_def by (auto simp: count_entries count_unique_subjects_def follow_keys_fold)

lemma covered_finite: "covered ops ms \<Longrightarrow> m \<in> ms \<Longrightarrow> finite (dom m)"
  unfolding covered_def by (meson List.finite_set finite_subset)

lemma walkable_finite: "walkable S m \<Longrightarrow> slot_finite (get_slot b m)"
  by (auto simp: walkable_def slot_finite_def get_slot_def intro: covered_finite)

lemma status_returns:
  assumes "walkable S (cs_maps st)"
  shows "defined (ca_bpf_print_status H S st)"
proof -
  let ?m = "cs_maps st"
  have ops: "sy_subject (sys_at H S st) = sy_subject S" "sy_policy (sys_at H S st) = sy_policy S"
    "sy_port (sys_at H S st) = sy_port S" "sy_ipv4 (sys_at H S st) = sy_ipv4 S" "sy_ipv6 (sys_at H S st) = sy_ipv6 S"
    by (simp_all add: sys_at_def)
  have counts: "defined (count_map_entries (sy_subject S) (sl_subject (get_slot b ?m)))"
    "defined (count_unique_subjects (sy_subject S) (sl_subject (get_slot b ?m)))"
    "defined (count_map_entries (sy_policy S) (sl_policy (get_slot b ?m)))"
    "defined (count_map_entries (sy_port S) (sl_port (get_slot b ?m)))"
    "defined (count_map_entries (sy_ipv4 S) (sl_ipv4 (get_slot b ?m)))"
    "defined (count_map_entries (sy_ipv6 S) (sl_ipv6 (get_slot b ?m)))"
    "defined (count_map_entries (sy_flows S) (m_flows ?m))" for b
    using assms unfolding walkable_def
    by (auto simp: get_slot_def intro: covered_counts)
  show ?thesis
    unfolding ca_bpf_print_status_def Let_def ops sys_at_fields
    by (auto intro!: bind_defined counts split: sum.split option.split)
qed

lemma gc_returns:
  assumes "sys_ok S" and "covered (sy_flows S) {m_flows m}"
  shows "defined (ca_bpf_gc_flows S clock idle m)"
proof -
  have del: "map_delete_ok (sy_flows S)" using assms(1) by (simp add: sys_ok_def map_ok_def)
  obtain ks where walk: "walk_ok (sy_flows S) ks" "dom (m_flows m) \<subseteq> set ks" using assms(2) by (auto simp: covered_def)
  have visit: "fst (fst (gc_visit S cutoff k s)) = fst s \<or> fst (fst (gc_visit S cutoff k s)) = (fst s)(k := None)" for cutoff k s
  proof -
    obtain fl n where s: "s = (fl, n)" by fastforce
    obtain e x where u: "mo_delete (sy_flows S) fl k = (e, x)" by fastforce
    from map_delete_cases [OF del u] show ?thesis by (auto simp: gc_visit_def s u split: option.split)
  qed
  have loop: "defined (each_key (\<lambda>s k. mo_next_key (sy_flows S) (fst s) (Some k)) (gc_visit S cutoff) key (m_flows m, 0))"
    if "mo_next_key (sy_flows S) (m_flows m) None = Inr key" for cutoff key
  proof (cases "present (m_flows m) ks")
    case Nil
    with that walk_first [OF walk] show ?thesis by simp
  next
    case (Cons k post)
    then have k: "k = key" using that walk_first [OF walk] by simp
    have dom: "dom (fst (m_flows m, 0 :: nat)) \<subseteq> set ks" using walk(2) by simp
    have pre: "present (fst (m_flows m, 0 :: nat)) ks = [] @ key # post"
      using Cons k by (simp only: fst_conv append_Nil)
    show ?thesis unfolding each_key_fold [where get = fst, OF walk(1) visit dom pre] by (rule defined_simps)
  qed
  show ?thesis
    unfolding ca_bpf_gc_flows_def by (auto intro!: bind_defined loop split: option.split sum.split)
qed

text \<open>
  C38 bpfctl_returns: every command of the controller returns, for every argument list and every text on
  its standard input, whichever calls fail.
\<close>

theorem bpfctl_returns:
  assumes ok: "sys_ok S" and walk: "walkable S (cs_maps st)" and rates: "finite (dom (m_subject_rates (cs_maps st)))"
  shows "\<exists>ret out st'. bpfctl_main H S L stdin argv st = Some (ret, out, st')"
proof -
  have at: "sys_ok (sys_at H S st)" using ok by simp
  have sync: "defined (ca_bpf_snapshot_sync (sys_at H S st) L stdin (cs_maps st))"
    using sync_terminates [OF at walkable_finite [OF walk] walkable_finite [OF walk] rates] by (auto simp: defined_def)
  have gc: "defined (ca_bpf_gc_flows (sys_at H S st) clock idle (cs_maps st))" for clock idle
    using walk by (intro gc_returns [OF at]) (simp add: walkable_def)
  have "defined (bpfctl_main H S L stdin argv st)"
    unfolding bpfctl_main_def Let_def with_object_lock_def unload_backend_def with_tc_lock_def prune_with_lock_def
      health_with_lock_def simple_with_lock_def gc_with_lock_def
    by (auto intro!: bind_defined sync gc status_returns [OF walk] split: option.split prod.split)
  then show ?thesis by (auto simp: defined_def)
qed

end
