(* ===== verification/Reference_System.thy ===== *)
theory Reference_System
  imports Publication
begin

text \<open>
  A concrete controller environment and the witnesses of the properties of \<open>Publication\<close>: the
  snapshot of \<open>Snapshot_Roundtrip\<close> is published over the state of \<open>Reference_Kernel\<close>, whose inactive
  slot holds a stale subject.
\<close>

text \<open>The maps of \<open>Reference_Kernel\<close> with an iteration that finds every key.\<close>

definition sys_ops :: "nat \<Rightarrow> 'k list \<Rightarrow> ('k, 'v) map_ops" where
  "sys_ops cap ks = (ref_ops cap ks)\<lparr>mo_next_key := (\<lambda>m cur.
     case filter (\<lambda>k. m k \<noteq> None) ks of
       k # _ \<Rightarrow> Inr k
     | [] \<Rightarrow> if m = Map.empty then Inl ENOENT else Inr (SOME k. m k \<noteq> None))\<rparr>"

lemma sys_ops_simps [simp]:
  "mo_update (sys_ops cap ks) = mo_update (ref_ops cap ks)" "mo_delete (sys_ops cap ks) = mo_delete (ref_ops cap ks)"
  by (simp_all add: sys_ops_def)

lemma sys_ops_ok: "map_ok (sys_ops cap ks :: ('k, 'v) map_ops)"
proof -
  have "map_update_ok (sys_ops cap ks :: ('k, 'v) map_ops)" "map_delete_ok (sys_ops cap ks :: ('k, 'v) map_ops)"
    using ref_ops_update_ok [of cap ks] ref_ops_delete_ok [of cap ks]
    unfolding map_update_ok_def map_delete_ok_def sys_ops_simps by blast+
  moreover have "map_iter_ok (sys_ops cap ks :: ('k, 'v) map_ops)"
  proof -
    have some: "m (SOME k. m k \<noteq> None) \<noteq> None" if "m \<noteq> Map.empty" for m :: "'k \<rightharpoonup> 'v"
    proof -
      have "\<exists>k. m k \<noteq> None" using that by (auto simp: fun_eq_iff)
      then show ?thesis by (rule someI_ex)
    qed
    show ?thesis
      unfolding map_iter_ok_def
    proof
      fix m :: "'k \<rightharpoonup> 'v"
      show "(\<forall>k. mo_next_key (sys_ops cap ks) m None = Inr k \<longrightarrow> m k \<noteq> None) \<and>
        mo_next_key (sys_ops cap ks) m None \<noteq> Inl 0 \<and>
        (mo_next_key (sys_ops cap ks) m None = Inl ENOENT \<longrightarrow> m = Map.empty)"
      proof (cases "filter (\<lambda>k. m k \<noteq> None) ks")
        case Nil
        then show ?thesis
          using some [of m] by (simp add: sys_ops_def)
      next
        case (Cons k xs)
        then have "k \<in> set (filter (\<lambda>k. m k \<noteq> None) ks)" by simp
        then have "m k \<noteq> None" by simp
        with Cons show ?thesis by (simp add: sys_ops_def)
      qed
    qed
  qed
  ultimately show ?thesis by (simp add: map_ok_def)
qed

definition ref_sys :: sys where
  "ref_sys = \<lparr>sy_open_lock = 0, sy_flock = 0, sy_obj_get = (\<lambda>_. 0),
     sy_lookup_config = (\<lambda>m k. case m k of None \<Rightarrow> Inl ENOENT | Some c \<Rightarrow> Inr c),
     sy_config = sys_ops 1 [0], sy_subject = sys_ops CA_MAX_SUBJECTS [zero_mac],
     sy_policy = sys_ops CA_MAX_POLICY_ENTRIES [], sy_port = sys_ops CA_MAX_PORT_HINTS [],
     sy_ipv4 = sys_ops CA_MAX_IPV4_HINTS [], sy_ipv6 = sys_ops CA_MAX_IPV6_HINTS [],
     sy_rates = sys_ops CA_MAX_SUBJECTS [], sy_flows = sys_ops CA_MAX_FLOWS [ref_key]\<rparr>"

lemma ref_sys_ok [simp]: "sys_ok ref_sys" "sys_ok (ref_sys\<lparr>sy_policy := sys_ops 0 []\<rparr>)"
  by (auto simp: sys_ok_def ref_sys_def sys_ops_ok lookup_ok_def split: option.split)

definition ref_stale :: ca_maps where
  "ref_stale = ref_maps_flow\<lparr>m_subject_b := [zero_mac \<mapsto> 9]\<rparr>"

definition ref_text :: string where
  "ref_text = ''# policy'' @ [NL] @ snapshot_text ref_ntop ref_snapshot"

lemma clear_empty: "clear_map (sys_ops cap ks) Map.empty = Some (0, Map.empty)"
  by (subst clear_map.simps) (simp add: sys_ops_def)

lemma clear_one: "clear_map (sys_ops cap [k]) [k \<mapsto> v] = Some (0, Map.empty)"
proof -
  have "mo_next_key (sys_ops cap [k]) [k \<mapsto> v] None = Inr k" by (simp add: sys_ops_def)
  moreover have "mo_delete (sys_ops cap [k]) [k \<mapsto> v] k = (0, Map.empty)" by (simp add: ref_ops_def)
  ultimately show ?thesis by (subst clear_map.simps) (simp add: clear_empty)
qed

lemma fill_one: "0 < cap \<Longrightarrow> populate (sys_ops cap ks) [(k, v)] Map.empty = Some (0, [k \<mapsto> v])"
  by (simp add: ref_ops_def)

definition ref_published :: ca_maps where
  "ref_published = (put_slot True (slot_of ref_snapshot) ref_stale)\<lparr>
     m_config := [0 \<mapsto> next_config ref_snapshot ref_config]\<rparr>"

lemma opens [simp]: "ca_bpf_pin_path 4096 name \<noteq> None \<Longrightarrow> ca_bpf_open_map ref_sys name = 0"
  "ca_bpf_pin_path 4096 name \<noteq> None \<Longrightarrow> ca_bpf_open_map (ref_sys\<lparr>sy_policy := x\<rparr>) name = 0"
  by (auto simp: ca_bpf_open_map_def ref_sys_def)

lemma paths [simp]: "length name < 100 \<Longrightarrow> ca_bpf_pin_path 4096 name \<noteq> None"
  by (simp add: ca_bpf_pin_path_def Let_def)

lemma ref_stale_fields [simp]:
  "m_config ref_stale = [0 \<mapsto> ref_config]" "m_flows ref_stale = [ref_key \<mapsto> ref_flow]"
  "m_subject_rates ref_stale = Map.empty"
  by (simp_all add: ref_stale_def) (simp add: ref_maps_flow_def ref_maps_def)

lemma ref_sync:
  "ca_bpf_snapshot_sync ref_sys ref_libc ref_text ref_stale = Some (0, ref_published)"
proof -
  have slot: "get_slot True ref_stale = \<lparr>sl_subject = [zero_mac \<mapsto> 9], sl_policy = Map.empty,
      sl_port = Map.empty, sl_ipv4 = Map.empty, sl_ipv6 = Map.empty\<rparr>"
    by (simp add: get_slot_def ref_stale_def ref_maps_flow_def ref_maps_def)
  have rebuild: "run_steps (clear_slot ref_sys @ fill_slot ref_sys ref_snapshot) (get_slot True ref_stale) =
      Some (0, slot_of ref_snapshot)"
    unfolding slot clear_slot_def fill_slot_def
    by (simp add: on_part_def ref_sys_def clear_one clear_empty ref_snapshot_def slot_of_def fill_one
        del: populate.simps(2))
  have nxt: "uses_b ref_config = False" "cfg_classifier_generation ref_config = 1"
    "cfg_classifier_generation (next_config ref_snapshot ref_config) = 1"
    "cfg_active_slot (next_config ref_snapshot ref_config) = 1"
    by (simp_all add: uses_b_def ref_config_def next_config_def ref_snapshot_def)
  let ?c = "next_config ref_snapshot ref_config"
  have c: "(sn_config ref_snapshot)\<lparr>cfg_active_slot := 1\<rparr> = ?c"
    by (simp add: next_config_def ref_config_def)
  have "on_part (get_slot True) (put_slot True) (run_steps (clear_slot ref_sys @ fill_slot ref_sys ref_snapshot)) ref_stale =
      Some (0, put_slot True (slot_of ref_snapshot) ref_stale)"
    by (simp add: on_part_def rebuild)
  moreover have "reset_rates ref_sys ?c ref_config m = Some (0, m)" for m
    using nxt by (simp add: reset_rates_def)
  moreover have "publish ref_sys ?c (put_slot True (slot_of ref_snapshot) ref_stale) = Some (0, ref_published)"
    by (simp add: publish_def ref_published_def) (simp add: ref_sys_def ref_ops_def)
  ultimately have "sync_slot ref_sys ref_snapshot ref_config ref_stale = Some (0, ref_published)"
    using nxt c by (simp add: sync_slot_def Let_def slot_names_def)
  moreover have "ca_bpf_update_lock ref_sys" "ca_bpf_lookup_config ref_sys ref_stale = Inr ref_config"
    by (simp_all add: ca_bpf_update_lock_def ca_bpf_lookup_config_def ref_sys_def)
  ultimately show ?thesis
    using ref_snapshot_parse by (simp add: ca_bpf_snapshot_sync_def ref_text_def)
qed


section \<open>Witnesses\<close>

lemma ref_slots_finite: "slot_finite (get_slot True ref_stale)" "slot_finite (get_slot False ref_stale)"
proof -
  have "finite (dom (\<lambda>k. if k = a then Some x else if k = b then Some y else None))" for a b :: 'k and x y :: 'v
    by (rule finite_subset [of _ "{a, b}"]) (auto split: if_splits)
  then show "slot_finite (get_slot True ref_stale)" "slot_finite (get_slot False ref_stale)"
    by (simp_all add: slot_finite_def get_slot_def ref_stale_def ref_maps_flow_def ref_maps_def)
qed

theorem sync_terminates_witness:
  "\<exists>r m'. ca_bpf_snapshot_sync ref_sys ref_libc ref_text ref_stale = Some (r, m')"
  by (rule sync_terminates [OF ref_sys_ok(1) ref_slots_finite]) simp

theorem sync_publishes_witness:
  "\<exists>sn current. parse_snapshot ref_libc zero_snapshot ref_text = (0, sn) \<and>
    m_config ref_published = (m_config ref_stale)(0 \<mapsto> next_config sn current) \<and>
    get_slot (uses_b (next_config sn current)) ref_published = slot_of sn"
  using sync_publishes [OF ref_sys_ok(1) ref_sync] by blast

text \<open>The policy map has no room: the sync fails after the subjects were written.\<close>

lemma ref_failed_sync:
  "\<exists>m'. ca_bpf_snapshot_sync (ref_sys\<lparr>sy_policy := sys_ops 0 []\<rparr>) ref_libc ref_text ref_stale = Some (1, m') \<and>
    m_subject_rates m' = Map.empty"
proof -
  let ?S = "ref_sys\<lparr>sy_policy := sys_ops 0 []\<rparr>"
  have slot: "get_slot True ref_stale = \<lparr>sl_subject = [zero_mac \<mapsto> 9], sl_policy = Map.empty,
      sl_port = Map.empty, sl_ipv4 = Map.empty, sl_ipv6 = Map.empty\<rparr>"
    by (simp add: get_slot_def ref_stale_def ref_maps_flow_def ref_maps_def)
  have full: "populate (sys_ops 0 []) [(k, v)] Map.empty = Some (E2BIG, Map.empty)" for k :: 'k and v :: 'v
    by (simp add: ref_ops_def)
  have rebuild: "\<exists>sl. run_steps (clear_slot ?S @ fill_slot ?S ref_snapshot) (get_slot True ref_stale) = Some (E2BIG, sl)"
    unfolding slot clear_slot_def fill_slot_def
    by (simp add: on_part_def ref_sys_def clear_one clear_empty ref_snapshot_def fill_one full
        del: populate.simps(2))
  then obtain sl where sl: "run_steps (clear_slot ?S @ fill_slot ?S ref_snapshot) (get_slot True ref_stale) = Some (E2BIG, sl)" ..
  have nxt: "cfg_active_slot (next_config ref_snapshot ref_config) = 1"
    by (simp add: ref_config_def next_config_def)
  have c: "(sn_config ref_snapshot)\<lparr>cfg_active_slot := 1\<rparr> = next_config ref_snapshot ref_config"
    by (simp add: next_config_def ref_config_def)
  have "on_part (get_slot True) (put_slot True) (run_steps (clear_slot ?S @ fill_slot ?S ref_snapshot)) ref_stale =
      Some (E2BIG, put_slot True sl ref_stale)"
    by (simp add: on_part_def sl)
  then have "sync_slot ?S ref_snapshot ref_config ref_stale = Some (E2BIG, put_slot True sl ref_stale)"
    using nxt c by (simp add: sync_slot_def Let_def slot_names_def)
  moreover have "ca_bpf_update_lock ?S" "ca_bpf_lookup_config ?S ref_stale = Inr ref_config"
    by (simp_all add: ca_bpf_update_lock_def ca_bpf_lookup_config_def ref_sys_def)
  ultimately show ?thesis
    using ref_snapshot_parse by (simp add: ca_bpf_snapshot_sync_def ref_text_def)
qed

theorem failed_sync_invisible_witness:
  "\<exists>m'. ca_bpf_snapshot_sync (ref_sys\<lparr>sy_policy := sys_ops 0 []\<rparr>) ref_libc ref_text ref_stale = Some (1, m') \<and>
    m_config m' = [0 \<mapsto> ref_config] \<and>
    ca_ingress (ref_kernel 5) m' ref_skb =
      map_option (on_maps (overlay ref_config m')) (ca_ingress (ref_kernel 5) ref_stale ref_skb)"
proof -
  obtain m' where run: "ca_bpf_snapshot_sync (ref_sys\<lparr>sy_policy := sys_ops 0 []\<rparr>) ref_libc ref_text ref_stale = Some (1, m')"
    and rates: "m_subject_rates m' = Map.empty"
    using ref_failed_sync by blast
  have c: "m_config ref_stale 0 = Some ref_config" "m_config ref_stale = [0 \<mapsto> ref_config]" by simp_all
  have "m_subject_rates m' = m_subject_rates ref_stale" by (simp add: rates)
  with failed_sync_invisible [OF ref_sys_ok(2) run one_neq_zero c(1), of "ref_kernel 5" ref_skb] c(2)
  show ?thesis using run by (metis (no_types))
qed

lemma ref_published_fields:
  "m_config ref_published 0 = Some (next_config ref_snapshot ref_config)"
  "m_flows ref_published = [ref_key \<mapsto> ref_flow]"
  "get_slot True ref_published = slot_of ref_snapshot"
  by (simp_all add: ref_published_def)

lemma ref_published_enforced:
  "enforced ref_published ref_skb (next_config ref_snapshot ref_config) ref_key 42 46"
proof -
  have "m_subject_b ref_published = sl_subject (get_slot True ref_published)" by (simp add: get_slot_def)
  then have "m_subject_b ref_published = sl_subject (slot_of ref_snapshot)"
    by (simp only: ref_published_fields(3))
  then show ?thesis
    using ref_parse ref_published_fields(1)
    by (simp add: enforced_def ref_key_def next_config_def ref_snapshot_def ca_subject_lookup_def slot_of_def)
qed

theorem publication_enforced_witness:
  "\<exists>sn skb' m''. parse_snapshot ref_libc zero_snapshot ref_text = (0, sn) \<and>
    ca_ingress (ref_kernel 5) ref_published ref_skb = Some (TC_ACT_UNSPEC, skb', m'') \<and>
    mark_verdict (skb_mark skb') = Some (norm_verdict (policy_of sn 42 100))"
  using publication_enforced [OF ref_sys_ok(1) ref_sync ref_published_enforced, of ref_flow "ref_kernel 5"]
  by (simp add: next_config_def ref_snapshot_def entry_wf_def)

theorem published_hints_wf_witness:
  "opt_hint_wf (ca_prefix_hint (ref_kernel 5) (next_config ref_snapshot ref_config) ref_published ref_key)"
proof -
  have "lpm_ok (ref_kernel 5)" by (auto simp: lpm_ok_def ran_def)
  from published_hints_wf [OF ref_sys_ok(1) ref_sync ref_libc_ok(2) this ref_published_fields(1), of ref_key]
  show ?thesis by simp
qed

end
