(* ===== verification/Sfo_Reference.thy ===== *)
theory Sfo_Reference
  imports Sfo_Housekeeping Reference_Kernel
begin

text \<open>
  A concrete environment of the offload tool and the witnesses of its properties: the flow of
  \<open>Reference_Kernel\<close> is in the flow map, and its software-offloaded conntrack entry is in the table
  until it is destroyed.
\<close>

lemma ref_ops_walk: "distinct ks \<Longrightarrow> walk_ok (ref_ops cap ks) ks"
proof -
  assume d: "distinct ks"
  have "tl (dropWhile (\<lambda>x. x \<noteq> k) (pre @ k # post)) = post" if "distinct (pre @ k # post)" for pre post and k :: 'a
  proof -
    have "dropWhile (\<lambda>x. x \<noteq> k) (pre @ k # post) = k # post"
      using that by (induction pre) auto
    then show ?thesis by simp
  qed
  note tl = this
  have some: "mo_next_key (ref_ops cap ks) m (Some k) = first_key (tl (dropWhile (\<lambda>x. x \<noteq> k) (present m ks)))"
    for m :: "'a \<rightharpoonup> 'b" and k
    by (simp add: ref_ops_def first_key_def Let_def)
  have "mo_next_key (ref_ops cap ks) m (Some k) = first_key post"
    if eq: "present m ks = pre @ k # post" for m :: "'a \<rightharpoonup> 'b" and pre k post
  proof -
    have "distinct (present m ks)" using d by (rule distinct_filter)
    then have "distinct (pre @ k # post)" unfolding eq .
    then show ?thesis unfolding some eq by (simp only: tl)
  qed
  moreover have "mo_next_key (ref_ops cap ks) m None = first_key (present m ks)" for m :: "'a \<rightharpoonup> 'b"
    by (simp add: ref_ops_def first_key_def)
  ultimately show ?thesis using d unfolding walk_ok_def by blast
qed

definition ref_ct :: nf_conntrack where
  "ref_ct = \<lparr>ct_l3proto = Some 2, ct_l4proto = Some (fk_ip_proto ref_key), ct_port_src = Some (fk_src_port ref_key),
     ct_port_dst = Some (fk_dst_port ref_key), ct_ipv4_src = Some (fk_v4_src ref_key), ct_ipv4_dst = Some (fk_v4_dst ref_key),
     ct_ipv6_src = None, ct_ipv6_dst = None, ct_status_attr = Some 0x4000\<rparr>"

definition ref_env :: sfo_env where
  "ref_env = \<lparr>sv_calloc_items = True, sv_calloc_matches = True, sv_malloc_buckets = True, sv_obj_get = (\<lambda>_. True),
     sv_flows = ref_ops CA_MAX_FLOWS [ref_key], sv_meanwhile = (\<lambda>m. m), sv_clock = (\<lambda>_. Some (100, 0)),
     sv_scan_open = (\<lambda>_. True), sv_register = (\<lambda>_. 0),
     sv_dump = (\<lambda>p. (0, if p = 0 then [ref_ct] else [])), sv_clone = (\<lambda>_ _. True),
     sv_delete_open = (\<lambda>_. True), sv_destroy = (\<lambda>_ _. 0), sv_einval_on_empty = True\<rparr>"

definition ref_flows :: "ca_flow_key \<rightharpoonup> ca_flow_state" where "ref_flows = [ref_key \<mapsto> ref_flow]"

lemma ref_walk: "walk_ok (sv_flows ref_env) [ref_key]" "dom ref_flows \<subseteq> set [ref_key]"
  using ref_ops_walk [of "[ref_key]"] by (simp_all add: ref_env_def ref_flows_def)

lemma ref_matches: "tuple_matches ref_key ref_ct" "supported_flow ref_key" "supported_conntrack_tuple ref_ct"
proof -
  have "bpf_ntohs (fk_eth_proto ref_key) = ETH_P_IP" "fk_ip_proto ref_key = 6 \<or> fk_ip_proto ref_key = 17"
    by (simp_all add: ref_key_def example_key_def bswap16_def)
  then show "tuple_matches ref_key ref_ct" "supported_flow ref_key" "supported_conntrack_tuple ref_ct"
    by (auto simp: tuple_matches_def supported_flow_def supported_conntrack_tuple_def ref_ct_def)
qed

lemma ref_selected: "selected True 42 False 0 ref_flows k \<longleftrightarrow> k = ref_key"
  using ref_matches(2) by (simp add: selected_def ref_flows_def)

lemma ref_hits: "hits_any {k. selected True 42 False 0 ref_flows k} ref_ct"
  using ref_matches by (simp add: hits_any_def ref_selected entry_of_def)

lemma ref_quiet: "quiet_system ref_env {k. selected True 42 False 0 ref_flows k} 2000"
  using ref_hits
  by (simp add: quiet_system_def scan_serves_def ref_env_def monotonic_ms_def hw_offloaded_def ct_status_def ref_ct_def)

lemma ref_fits: "length (filter (selected True 42 False 0 ref_flows) (present ref_flows [ref_key])) \<le> CA_SFO_MAX_CANDIDATES"
  by (simp add: ref_flows_def)

lemma ref_revoke: "\<exists>r. run_revoke ref_env ref_flows 42 False 0 2000 = Some (0, Some r, [ref_ct])"
  using quiet_run [OF ref_walk ref_quiet ref_fits] ref_matches(1)
  by (simp add: ref_selected) (simp add: ref_env_def)

theorem index_is_linear_scan_witness:
  "\<exists>cset. map cd_key (cs_items cset) = [ref_key] \<and>
    scan_cb (\<lambda>_. True) ref_ct (revoke_scan cset) = Some (scan_linear (\<lambda>_. True) ref_ct (revoke_scan cset))"
proof -
  have "length (cs_items ((empty_set 8)\<lparr>cs_items := [candidate ref_flows ref_key]\<rparr>)) < 2 ^ 32 - 1" by simp
  then obtain cset where wf: "index_wf cset" and
    items: "length (cs_items cset) = 1" "\<exists>x. cs_items cset ! 0 = (candidate ref_flows ref_key)\<lparr>cd_next := x\<rparr>"
    by (cases rule: index_candidates_total [where malloc = True]) auto
  have "map cd_key (cs_items cset) = [ref_key]"
    using items by (cases "cs_items cset") (auto simp: candidate_def)
  moreover have "scan_ok (revoke_scan cset)" by (rule revoke_scan_ok [OF wf])
  then have "scan_cb (\<lambda>_. True) ref_ct (revoke_scan cset) = Some (scan_linear (\<lambda>_. True) ref_ct (revoke_scan cset))"
    by (intro index_is_linear_scan) (auto simp: scan_ok_def)
  ultimately show ?thesis by (intro exI [of _ cset] conjI)
qed

theorem quiet_revoke_succeeds_witness:
  "\<exists>r. run_revoke ref_env ref_flows 42 False 0 2000 = Some (0, Some r,
    filter (\<lambda>ct. \<exists>k. selected True 42 False 0 ref_flows k \<and> tuple_matches k ct) [ref_ct])"
  using quiet_revoke_succeeds [OF ref_walk ref_quiet ref_fits] by (simp add: ref_env_def)

theorem revoke_destroys_own_flows_witness:
  "\<exists>k state. ref_flows k = Some state \<and> fk_subject_id k = 42 \<and> tuple_matches k ref_ct"
proof -
  obtain r where "run_revoke ref_env ref_flows 42 False 0 2000 = Some (0, Some r, [ref_ct])" using ref_revoke by blast
  from revoke_destroys_own_flows [OF ref_walk this, of ref_ct] show ?thesis by auto
qed

theorem revoke_complete_verified_witness:
  "\<exists>r'. run_revoke ref_env ref_flows 42 False 0 2000 = Some (0, Some r', [ref_ct]) \<and> \<not> rs_deadline_exceeded r' \<and>
    monotonic_ms ref_env Clock_End - monotonic_ms ref_env Clock_Start \<le> 2000"
proof -
  obtain r where r: "run_revoke ref_env ref_flows 42 False 0 2000 = Some (0, Some r, [ref_ct])" using ref_revoke by blast
  from revoke_complete_verified [OF ref_walk this] r show ?thesis by auto
qed

theorem baseline_evicts_witness:
  "\<exists>c r log. run_baseline ref_env 2000 = Some (c, r, log) \<and> (\<forall>ct \<in> set log. sw_offloaded ct \<and> \<not> hw_offloaded ct)"
proof -
  obtain c r log where run: "run_baseline ref_env 2000 = Some (c, r, log)"
    using run_baseline_returns [of ref_env 2000] by (auto simp: defined_def)
  from baseline_evicts [OF this] run show ?thesis by blast
qed

text \<open>A run of \<^verbatim>\<open>gc\<close> after the entry is gone from the conntrack table: the flow is taken out.\<close>

definition ref_quiet_env :: sfo_env where "ref_quiet_env = ref_env\<lparr>sv_dump := (\<lambda>_. (0, []))\<rparr>"

lemma ref_quiet_walk: "walk_ok (sv_flows ref_quiet_env) [ref_key]"
  using ref_walk(1) by (simp add: ref_quiet_env_def)

lemma ref_gc: "\<exists>r m'. run_gc ref_quiet_env ref_flows 30 = Some (0, r, m')"
proof -
  have fits: "length (filter (selected False 0 False 0 ref_flows) (present ref_flows [ref_key])) \<le> CA_MAX_FLOWS"
    by (simp add: ref_flows_def)
  obtain cset where coll:
    "collect_candidates ref_quiet_env ref_flows (empty_set CA_MAX_FLOWS) False 0 False 0 = Some (0, cset)"
    using collect_success [OF ref_quiet_walk ref_walk(2) _ _ empty_limits(2) fits]
    by (auto simp: ref_quiet_env_def ref_env_def)
  have scan: "conntrack_scan ref_quiet_env 0 s = Some (0, s)" for s
    by (simp add: conntrack_scan_def ref_quiet_env_def ref_env_def)
  have whole: "fst (gc_loop ref_quiet_env c its m r)" for c its m r
    by (rule gc_loop_whole) (simp add: ref_quiet_env_def ref_env_def ref_ops_def)
  have env: "sv_calloc_items ref_quiet_env" "sv_clock ref_quiet_env site = Some (100, 0)" "sv_obj_get ref_quiet_env i" for site i
    by (simp_all add: ref_quiet_env_def ref_env_def)
  show ?thesis
    by (simp add: run_gc_def Let_def coll scan env whole zero_scan_def take_counts_def split_beta exit_code_def)
qed

theorem gc_forgets_idle_flows_witness:
  "\<exists>r m'. run_gc ref_quiet_env ref_flows 30 = Some (0, r, m') \<and> ref_flows ref_key = Some ref_flow \<and> m' = Map.empty"
proof -
  obtain r m' where run: "run_gc ref_quiet_env ref_flows 30 = Some (0, r, m')" using ref_gc by blast
  have del: "delete_exact (sv_flows ref_quiet_env)"
    using ref_ops_delete_ok by (auto simp: delete_exact_def ref_quiet_env_def ref_env_def) (auto simp: ref_ops_def split: if_splits)
  have idle: "forgettable ref_quiet_env ref_flows (gc_cutoff (100, 0) 30) ref_key"
    using ref_matches(2)
    by (simp add: forgettable_def ref_flows_def ref_quiet_env_def gc_cutoff_def ref_flow_def zero_flow_state_def)
  have "m' ref_key = None" "\<forall>k. m' k = ref_flows k \<or> m' k = None"
    using gc_forgets_idle_flows [OF ref_quiet_walk ref_walk(2) del run] idle
    by (auto simp: ref_quiet_env_def ref_env_def)
  then have "m' k = None" for k by (cases "k = ref_key") (auto simp: ref_flows_def split: if_splits)
  with run show ?thesis by (auto simp: ref_flows_def)
qed

theorem sfo_returns_witness:
  "\<exists>c out m' log. sfo_main ref_env ref_flows [''client-access-sfoctl'', ''revoke'', ''42'', ''-''] = Some (c, out, m', log)"
  by (rule sfo_returns [OF ref_walk])

end
