(* ===== verification/Reference_Host.thy ===== *)
theory Reference_Host
  imports Bpfctl Reference_System Sfo_Reference
begin

text \<open>
  A concrete host and the witnesses of the properties of the controller commands: one interface with
  the filter of the pinned program 9 and a foreign filter at the coordinate of the older version.
\<close>

definition ref_pins :: "string set" where
  "ref_pins = (\<lambda>name. CA_PIN_ROOT @ ''/'' @ name) ` set map_names"

text \<open>The maps of a fresh load.\<close>

definition ref_empty :: ca_maps where
  "ref_empty = \<lparr>m_config = [0 \<mapsto> zero_config], m_mark_schema = [0 \<mapsto> 0], m_subject_a = Map.empty, m_subject_b = Map.empty,
     m_policy_a = Map.empty, m_policy_b = Map.empty, m_port_a = Map.empty, m_port_b = Map.empty, m_ipv4_a = Map.empty,
     m_ipv4_b = Map.empty, m_ipv6_a = Map.empty, m_ipv6_b = Map.empty, m_flows = Map.empty, m_global_rate = [0 \<mapsto> 0],
     m_subject_rates = Map.empty, m_runtime = [0 \<mapsto> 0], m_stats = (\<lambda>i. if i < 22 then Some 0 else None)\<rparr>"

definition ref_host :: host where
  "ref_host = \<lparr>ho_clock = Some (1000, 0), ho_obj_get = (\<lambda>pinned _. if pinned then 0 else ENOENT),
     ho_prog_info = (\<lambda>_. 0),
     ho_schema_lookup = (\<lambda>m. case m 0 of None \<Rightarrow> Inl ENOENT | Some v \<Rightarrow> Inr v),
     ho_schema_update = (\<lambda>m v. (0, m(0 \<mapsto> v))),
     ho_tc_query = (\<lambda>f c. case f c of None \<Rightarrow> Inl (- ENOENT) | Some p \<Rightarrow> Inr p),
     ho_tc_detach = (\<lambda>f c. if f c = None then (- ENOENT, f) else (0, f(c := None))),
     ho_tc_attach = (\<lambda>f c p. if f c = None then (0, f(c \<mapsto> p)) else (- EEXIST, f)),
     ho_hook_create = (\<lambda>_. 0), ho_if_nameindex = Some [(3, ''br-lan'')],
     ho_if_nametoindex = (\<lambda>name. if name = ''br-lan'' then 3 else 0), ho_unlink = (\<lambda>_. 0), ho_mkdir = 0,
     ho_open_file = (\<lambda>_. 0), ho_find_program = (\<lambda>_. True), ho_load = (\<lambda>_ _ _. (0, ref_empty, ref_pins)),
     ho_find_schema = (\<lambda>_. True), ho_pin_program = (\<lambda>_. 0), ho_new_id = (\<lambda>_. 10), ho_cpus = 1,
     ho_calloc = True, ho_runtime_lookup = (\<lambda>m. m 0), ho_percpu_stats = (\<lambda>_. Some [0])\<rparr>"

lemma ref_tc_ok: "tc_ok ref_host"
  by (auto simp: tc_ok_def ref_host_def split: option.split)

lemma ref_host_ok: "host_ok ref_host"
  using ref_tc_ok by (auto simp: host_ok_def pins_ok_def ref_host_def split: option.splits)

definition ref_ctl :: ctl where
  "ref_ctl = \<lparr>cs_maps = ref_maps_flow, cs_pins = ref_pins, cs_program = Some 9,
     cs_filters = [(3, CA_TC_HANDLE, CA_TC_PRIORITY) \<mapsto> 9, (3, 1, 1) \<mapsto> 77]\<rparr>"

lemma ref_get_program: "get_program ref_host ref_ctl = Inr 9"
  by (simp add: get_program_def ref_host_def ref_ctl_def)

lemma ref_prune:
  "ca_bpf_tc_prune ref_host [] ref_ctl = (0, ref_ctl\<lparr>cs_filters := [(3, 1, 1) \<mapsto> 77]\<rparr>)"
  by (simp add: ca_bpf_tc_prune_def ref_get_program)
    (simp add: ca_bpf_program_id_from_fd_def detach_program_from_interfaces_def visits_def coordinates_def
      detach_visit_def ca_bpf_tc_query_program_def keep_interface_def ref_host_def ref_ctl_def fun_upd_twist)

lemma ref_locked: "ca_bpf_update_lock ref_sys"
  by (simp add: ca_bpf_update_lock_def ref_sys_def)

theorem foreign_filters_kept_witness:
  "bpfctl_main ref_host ref_sys ref_libc [] [''bpfctl'', ''prune''] ref_ctl =
     Some (0, [], ref_ctl\<lparr>cs_filters := [(3, 1, 1) \<mapsto> 77]\<rparr>) \<and>
   (\<exists>own. cs_program ref_ctl = Some own \<and>
     {cs_filters ref_ctl (3, CA_TC_HANDLE, CA_TC_PRIORITY), None} = {None, Some own})"
proof -
  have run: "bpfctl_main ref_host ref_sys ref_libc [] [''bpfctl'', ''prune''] ref_ctl =
      Some (0, [], ref_ctl\<lparr>cs_filters := [(3, 1, 1) \<mapsto> 77]\<rparr>)"
    by (simp add: bpfctl_main_def prune_with_lock_def ref_locked ref_prune)
  from foreign_filters_kept [OF ref_tc_ok run, of "(3, CA_TC_HANDLE, CA_TC_PRIORITY)"] run
  show ?thesis by (simp add: ref_ctl_def)
qed

theorem load_replaces_cleanly_witness:
  "\<exists>st'. ca_bpf_object_load ref_host ref_sys ''new.o'' True ref_ctl = (0, st') \<and> cs_program st' = Some 10 \<and>
    cs_filters st' (3, CA_TC_HANDLE, CA_TC_PRIORITY) \<noteq> Some 9"
proof -
  have "ensure_pin_root ref_host = 0" by (simp add: ensure_pin_root_def ref_host_def)
  moreover have "fst (load_object ref_host ''new.o'' st) = 0" for st
    by (simp add: load_object_def ref_host_def)
  ultimately obtain st' where run: "ca_bpf_object_load ref_host ref_sys ''new.o'' True ref_ctl = (0, st')"
    by (simp add: ca_bpf_object_load_def ca_bpf_tc_detach_all_def ref_prune) (metis prod.collapse)
  from load_replaces_cleanly [OF ref_host_ok run _ ref_get_program] run
  show ?thesis by (auto simp: ref_host_def)
qed

text \<open>The system calls of \<open>Reference_System\<close> with maps that can be walked.\<close>

definition ref_walk_sys :: sys where
  "ref_walk_sys = ref_sys\<lparr>sy_subject := ref_ops CA_MAX_SUBJECTS [\<lparr>mac_addr = [2, 0, 0, 0, 0, 0x42]\<rparr>],
     sy_policy := ref_ops CA_MAX_POLICY_ENTRIES [\<lparr>pk_subject_id = 42, pk_class_id = 100, pk_reserved = 0\<rparr>,
       \<lparr>pk_subject_id = 42, pk_class_id = CA_CLASS_UNCLASSIFIED, pk_reserved = 0\<rparr>],
     sy_port := ref_ops CA_MAX_PORT_HINTS [],
     sy_ipv4 := ref_ops CA_MAX_IPV4_HINTS [\<lparr>p4_prefixlen = 32, p4_addr = [198, 51, 100, 3]\<rparr>],
     sy_ipv6 := ref_ops CA_MAX_IPV6_HINTS [], sy_flows := ref_ops CA_MAX_FLOWS [ref_key]\<rparr>"

lemma ref_walk_sys_calls: "lookup_ok ref_walk_sys" "map_update_ok (sy_config ref_walk_sys)" "ca_bpf_update_lock ref_walk_sys"
  using ref_sys_ok(1) ref_locked by (simp_all add: sys_ok_def map_ok_def lookup_ok_def ref_walk_sys_def ca_bpf_update_lock_def)

lemma ref_deletes_work: "deletes_work (ref_ops cap ks)"
  unfolding deletes_work_def using ref_ops_delete_ok by (auto simp: ref_ops_def)

theorem gc_removes_idle_witness:
  "\<exists>out m'. ca_bpf_gc_flows ref_walk_sys (Some (1000, 0)) 300 ref_maps_flow = Some (0, out, m') \<and>
    m_flows m' = Map.empty"
proof -
  have walk: "walk_ok (sy_flows ref_walk_sys) [ref_key]"
    by (simp add: ref_walk_sys_def ref_ops_walk)
  have del: "deletes_work (sy_flows ref_walk_sys)" by (simp add: ref_walk_sys_def ref_deletes_work)
  have op: "ca_bpf_open_map ref_walk_sys ''ca_flows'' = 0"
    by (simp add: ca_bpf_open_map_def ca_bpf_pin_path_def ref_walk_sys_def ref_sys_def)
  have "keep_recent (idle_cutoff (1000, 0) 300) [ref_key \<mapsto> ref_flow] = Map.empty"
    by (simp add: keep_recent_def idle_cutoff_def ref_flow_def zero_flow_state_def fun_eq_iff)
  with gc_removes_idle [OF walk _ del op, of ref_maps_flow "(1000, 0)" 300] show ?thesis by simp
qed

lemma ref_opens: "name \<in> set map_names \<Longrightarrow> ca_bpf_open_map (sys_at ref_host S ref_ctl) name = 0"
  by (auto simp: ca_bpf_open_map_def ca_bpf_pin_path_def sys_at_def ref_host_def ref_ctl_def ref_pins_def map_names_def)

lemma ref_config_pinned: "''/sys/fs/bpf/client_access/ca_config'' \<in> cs_pins ref_ctl"
  by (simp add: ref_ctl_def ref_pins_def map_names_def)

lemma ref_lookup: "ca_bpf_lookup_config (sys_at ref_host ref_walk_sys ref_ctl) ref_maps_flow = Inr ref_config"
  by (simp add: ca_bpf_lookup_config_def sys_at_def ref_walk_sys_def ref_sys_def)


lemma ref_available: "ca_bpf_object_available ref_host S ref_ctl"
proof -
  have "''ca_mark_schema'' \<in> set map_names" by (simp add: map_names_def)
  moreover have "list_all (\<lambda>name. ca_bpf_open_map (sys_at ref_host S ref_ctl) name = 0) map_names"
    using ref_opens by (simp add: list_all_iff)
  moreover have "ho_schema_lookup ref_host (m_mark_schema (cs_maps ref_ctl)) = Inr CA_BPF_SCHEMA_VERSION"
    by (simp add: ref_host_def ref_ctl_def ref_maps_flow_def ref_maps_def)
  ultimately show ?thesis using ref_opens by (simp add: ca_bpf_object_available_def ref_get_program)
qed

lemma ref_verify: "ca_bpf_verify_health ref_host ref_walk_sys 7 1 [''br-lan''] ref_ctl = 0"
proof -
  have "ca_bpf_open_map (sys_at ref_host ref_walk_sys ref_ctl) ''ca_config'' = 0"
    by (rule ref_opens) (simp add: map_names_def)
  moreover have "cs_maps ref_ctl = ref_maps_flow" by (simp add: ref_ctl_def)
  moreover have "ca_bpf_program_id_from_fd ref_host 9 = Inr 9" by (simp add: ca_bpf_program_id_from_fd_def ref_host_def)
  moreover have "list_all (interface_healthy ref_host (cs_filters ref_ctl) 9) [''br-lan'']"
    by (simp add: interface_healthy_def ca_bpf_tc_query_program_def ref_host_def ref_ctl_def)
  moreover have "ca_bpf_tc_verify_program_interfaces ref_host (cs_filters ref_ctl) 9 [''br-lan''] = 0"
    by (simp add: ca_bpf_tc_verify_program_interfaces_def visits_def coordinates_def verify_visit_def
        ca_bpf_tc_query_program_def keep_interface_def ref_host_def ref_ctl_def)
  moreover have "cfg_classifier_generation ref_config = 1" by (simp add: ref_config_def)
  ultimately show ?thesis
    using ref_available ref_lookup ref_get_program by (simp add: ca_bpf_verify_health_def)
qed

lemma counts_return:
  "walk_ok ops ks \<Longrightarrow> dom m \<subseteq> set ks \<Longrightarrow> \<exists>n. count_map_entries ops m = Some n"
  "walk_ok ops' ks' \<Longrightarrow> dom m' \<subseteq> set ks' \<Longrightarrow> \<exists>n. count_unique_subjects ops' m' = Some n"
  by (simp_all add: count_entries count_unique_subjects_def follow_keys_fold)

lemma ref_status: "\<exists>out. ca_bpf_print_status ref_host ref_walk_sys ref_ctl = Some (0, out)"
proof -
  let ?m = ref_maps_flow
  have slot: "get_slot False ?m = \<lparr>sl_subject = m_subject_a ref_maps, sl_policy = m_policy_a ref_maps,
      sl_port = Map.empty, sl_ipv4 = m_ipv4_a ref_maps, sl_ipv6 = Map.empty\<rparr>"
    by (simp add: get_slot_def ref_maps_flow_def ref_maps_def)
  have "\<exists>n. count_map_entries (sy_subject ref_walk_sys) (m_subject_a ref_maps) = Some n"
    by (rule counts_return(1) [where ks = "[\<lparr>mac_addr = [2, 0, 0, 0, 0, 0x42]\<rparr>]"]) (simp_all add: ref_walk_sys_def ref_maps_def ref_ops_walk)
  moreover have "\<exists>n. count_unique_subjects (sy_subject ref_walk_sys) (m_subject_a ref_maps) = Some n"
    by (rule counts_return(2) [where ks' = "[\<lparr>mac_addr = [2, 0, 0, 0, 0, 0x42]\<rparr>]"]) (simp_all add: ref_walk_sys_def ref_maps_def ref_ops_walk)
  moreover have "\<exists>n. count_map_entries (sy_policy ref_walk_sys) (m_policy_a ref_maps) = Some n"
    by (rule counts_return(1) [where ks = "[\<lparr>pk_subject_id = 42, pk_class_id = 100, pk_reserved = 0\<rparr>, \<lparr>pk_subject_id = 42, pk_class_id = 1, pk_reserved = 0\<rparr>]"]) (simp_all add: ref_walk_sys_def ref_maps_def ref_ops_walk)
  moreover have "\<exists>n. count_map_entries (sy_port ref_walk_sys) Map.empty = Some n"
    by (rule counts_return(1) [where ks = "[]"]) (simp_all add: ref_walk_sys_def ref_maps_def ref_ops_walk)
  moreover have "\<exists>n. count_map_entries (sy_ipv4 ref_walk_sys) (m_ipv4_a ref_maps) = Some n"
    by (rule counts_return(1) [where ks = "[\<lparr>p4_prefixlen = 32, p4_addr = [198, 51, 100, 3]\<rparr>]"]) (simp_all add: ref_walk_sys_def ref_maps_def ref_ops_walk)
  moreover have "\<exists>n. count_map_entries (sy_ipv6 ref_walk_sys) Map.empty = Some n"
    by (rule counts_return(1) [where ks = "[]"]) (simp_all add: ref_walk_sys_def ref_maps_def ref_ops_walk)
  moreover have "\<exists>n. count_map_entries (sy_flows ref_walk_sys) [ref_key \<mapsto> ref_flow] = Some n"
    by (rule counts_return(1) [where ks = "[ref_key]"]) (simp_all add: ref_walk_sys_def ref_maps_def ref_ops_walk)
  moreover have "sy_subject (sys_at ref_host ref_walk_sys ref_ctl) = sy_subject ref_walk_sys"
    "sy_policy (sys_at ref_host ref_walk_sys ref_ctl) = sy_policy ref_walk_sys"
    "sy_port (sys_at ref_host ref_walk_sys ref_ctl) = sy_port ref_walk_sys"
    "sy_ipv4 (sys_at ref_host ref_walk_sys ref_ctl) = sy_ipv4 ref_walk_sys"
    "sy_ipv6 (sys_at ref_host ref_walk_sys ref_ctl) = sy_ipv6 ref_walk_sys"
    by (simp_all add: sys_at_def)
  moreover have "set (slot_names False @ [''ca_flows'', ''ca_runtime'', ''ca_stats'', ''ca_config'', ''ca_mark_schema'']) \<subseteq> set map_names"
    by (simp add: slot_names_def map_names_def)
  then have "\<forall>name \<in> set (slot_names False @ [''ca_flows'', ''ca_runtime'', ''ca_stats'', ''ca_config'', ''ca_mark_schema'']).
      ca_bpf_open_map (sys_at ref_host ref_walk_sys ref_ctl) name = 0"
    using ref_opens by blast
  moreover have "cs_maps ref_ctl = ?m" "ho_schema_lookup ref_host (m_mark_schema ?m) = Inr CA_BPF_SCHEMA_VERSION"
    "ho_cpus ref_host = 1" "ho_calloc ref_host"
    by (simp_all add: ref_ctl_def ref_host_def ref_maps_flow_def ref_maps_def)
  ultimately show ?thesis
    using ref_lookup slot by (auto simp: ca_bpf_print_status_def Let_def)
qed

lemma ref_args: "parse_u32_argument ref_libc (dec 7) = Some 7" "parse_u32_argument ref_libc (dec 1) = Some 1"
  using scan_decimal_dec [of 7 "[]"] scan_decimal_dec [of 1 "[]"] skip_ws_dec [of 7 "[]"] skip_ws_dec [of 1 "[]"]
  by (simp_all add: parse_u32_argument_def strtoul_def stops_def)

theorem healthy_enforcing_witness:
  "\<exists>out own config. bpfctl_main ref_host ref_walk_sys ref_libc []
      ([''bpfctl'', ''health'', dec 7, dec 1] @ [''br-lan'']) ref_ctl = Some (0, out, ref_ctl) \<and>
    deployed ref_host 7 1 [''br-lan''] ref_ctl own config"
proof -
  obtain out where out: "ca_bpf_print_status ref_host ref_walk_sys ref_ctl = Some (0, out)" using ref_status by blast
  have run: "bpfctl_main ref_host ref_walk_sys ref_libc []
      ([''bpfctl'', ''health'', dec 7, dec 1] @ [''br-lan'']) ref_ctl = Some (0, out, ref_ctl)"
    using ref_walk_sys_calls(3) by (simp add: bpfctl_main_def ref_args health_with_lock_def ref_verify out del: One_nat_def)
  from healthy_enforcing [OF ref_host_ok ref_walk_sys_calls(1) ref_args _ run] run
  show ?thesis by blast
qed

end
