(* ===== verification/Reference_Whole.thy ===== *)
theory Reference_Whole
  imports System Reference_Host
begin

text \<open>The witnesses of the properties of \<open>System\<close>: a command and a packet on the state of \<open>Reference_Host\<close>.\<close>

text \<open>Maps that meet both laws of iteration, the one of clearing and the one of walking.\<close>

definition walk_ops :: "nat \<Rightarrow> 'k list \<Rightarrow> ('k, 'v) map_ops" where
  "walk_ops cap ks = (ref_ops cap ks)\<lparr>mo_next_key := (\<lambda>m cur.
     if dom m \<subseteq> set ks then mo_next_key (ref_ops cap ks) m cur else Inr (SOME k. m k \<noteq> None))\<rparr>"

lemma walk_ops_walk: "distinct ks \<Longrightarrow> walk_ok (walk_ops cap ks :: ('k, 'v) map_ops) ks"
  using ref_ops_walk [of ks cap, where 'b = 'v] unfolding walk_ok_def by (simp add: walk_ops_def)

lemma walk_ops_ok: "map_ok (walk_ops cap ks :: ('k, 'v) map_ops)"
proof -
  have "map_update_ok (walk_ops cap ks :: ('k, 'v) map_ops)" "map_delete_ok (walk_ops cap ks :: ('k, 'v) map_ops)"
    using ref_ops_update_ok [of cap ks, where 'b = 'v] ref_ops_delete_ok [of cap ks, where 'b = 'v]
    unfolding map_update_ok_def map_delete_ok_def walk_ops_def by simp_all
  moreover have "map_iter_ok (walk_ops cap ks :: ('k, 'v) map_ops)"
    unfolding map_iter_ok_def
  proof
    fix m :: "'k \<rightharpoonup> 'v"
    show "(\<forall>k. mo_next_key (walk_ops cap ks) m None = Inr k \<longrightarrow> m k \<noteq> None) \<and>
      mo_next_key (walk_ops cap ks) m None \<noteq> Inl 0 \<and>
      (mo_next_key (walk_ops cap ks) m None = Inl ENOENT \<longrightarrow> m = Map.empty)"
    proof (cases "dom m \<subseteq> set ks")
      case True
      have nx: "mo_next_key (walk_ops cap ks) m None = first_key (present m ks)"
        using True by (simp add: walk_ops_def ref_ops_def first_key_def)
      have set: "set (present m ks) = dom m" by (rule set_present_keys [OF True])
      show ?thesis
      proof (cases "present m ks")
        case Nil
        then have "dom m = {}" using set by (simp only: list.set)
        with Nil nx show ?thesis by simp
      next
        case (Cons k post)
        then have "k \<in> dom m" unfolding set [symmetric] by (simp only: list.set insertI1)
        with Cons nx show ?thesis by auto
      qed
    next
      case False
      then have "\<exists>k. m k \<noteq> None" by auto
      then have "m (SOME k. m k \<noteq> None) \<noteq> None" by (rule someI_ex)
      with False show ?thesis by (simp add: walk_ops_def)
    qed
  qed
  ultimately show ?thesis by (simp add: map_ok_def)
qed

definition whole_sys :: sys where
  "whole_sys = ref_sys\<lparr>sy_config := walk_ops 1 [0],
     sy_subject := walk_ops CA_MAX_SUBJECTS [\<lparr>mac_addr = [2, 0, 0, 0, 0, 0x42]\<rparr>],
     sy_policy := walk_ops CA_MAX_POLICY_ENTRIES [\<lparr>pk_subject_id = 42, pk_class_id = 100, pk_reserved = 0\<rparr>,
       \<lparr>pk_subject_id = 42, pk_class_id = CA_CLASS_UNCLASSIFIED, pk_reserved = 0\<rparr>],
     sy_port := walk_ops CA_MAX_PORT_HINTS [],
     sy_ipv4 := walk_ops CA_MAX_IPV4_HINTS [\<lparr>p4_prefixlen = 32, p4_addr = [198, 51, 100, 3]\<rparr>],
     sy_ipv6 := walk_ops CA_MAX_IPV6_HINTS [], sy_rates := walk_ops CA_MAX_SUBJECTS [],
     sy_flows := walk_ops CA_MAX_FLOWS [ref_key]\<rparr>"

lemma whole_sys_ok: "sys_ok whole_sys" "ca_bpf_update_lock whole_sys"
  using ref_sys_ok(1) ref_locked
  by (simp_all add: sys_ok_def whole_sys_def walk_ops_ok lookup_ok_def ca_bpf_update_lock_def)

lemma whole_walkable: "walkable whole_sys ref_maps_flow"
proof -
  have c: "covered (walk_ops cap ks) ms" if "distinct ks" "\<forall>m \<in> ms. dom m \<subseteq> set ks"
    for cap and ks :: "'k list" and ms :: "('k \<rightharpoonup> 'v) set"
    unfolding covered_def using walk_ops_walk [OF that(1)] that(2) by blast
  show ?thesis
    unfolding walkable_def by (intro conjI; simp add: whole_sys_def; intro c) (simp_all add: ref_maps_flow_def ref_maps_def)
qed

theorem bpfctl_returns_witness:
  "\<exists>ret out st'. bpfctl_main ref_host whole_sys ref_libc [] [''bpfctl'', ''status''] ref_ctl = Some (ret, out, st')"
proof (rule bpfctl_returns [OF whole_sys_ok(1)])
  show "walkable whole_sys (cs_maps ref_ctl)" using whole_walkable by (simp add: ref_ctl_def)
  show "finite (dom (m_subject_rates (cs_maps ref_ctl)))" by (simp add: ref_ctl_def ref_maps_flow_def ref_maps_def)
qed

lemma ref_maps_wf: "maps_wf (cs_maps ref_ctl)"
proof -
  have "slot_wf (get_slot True ref_maps_flow)" "slot_wf (get_slot False ref_maps_flow)"
    by (auto simp: slot_wf_def get_slot_def ref_maps_flow_def ref_maps_def published_hint_def ran_def split: if_splits)
  moreover have "config_safe ref_config" by (simp add: config_safe_def config_wf_def ref_config_def)
  ultimately show ?thesis by (simp add: maps_wf_def ref_ctl_def)
qed

lemma ref_empty_wf: "maps_wf ref_empty"
  by (simp add: maps_wf_def ref_empty_def slot_wf_def get_slot_def all_entries_def config_safe_def zero_config_def)

lemma ref_load_ok: "load_ok ref_host"
  by (simp add: load_ok_def reused_or_new_def ref_host_def ref_empty_def)

text \<open>A prune, then a packet.\<close>

lemma ref_steps:
  obtains st1 st2 where "system_step ref_ctl st1" "system_step st1 st2" "cs_program st1 = Some 9"
proof -
  let ?st = "ref_ctl\<lparr>cs_filters := [(3, 1, 1) \<mapsto> 77]\<rparr>"
  have run: "bpfctl_main ref_host whole_sys ref_libc [] [''bpfctl'', ''prune''] ref_ctl = Some (0, [], ?st)"
    by (simp add: bpfctl_main_def prune_with_lock_def whole_sys_ok ref_prune)
  have 1: "system_step ref_ctl ?st"
    by (rule system_step.controller [OF ref_host_ok ref_load_ok whole_sys_ok(1) ref_libc_ok(2) run])
  obtain act skb' m' where r: "ca_ingress (ref_kernel 5) (cs_maps ?st) ref_skb = Some (act, skb', m')"
    using ca_ingress_defined by (metis definedE prod_cases3)
  have "flows_bounded (ref_kernel 5)" by (simp add: flows_bounded_def ref_ops_def)
  from system_step.packet [OF ref_kernel_ok ref_kernel_deletes this r]
  show thesis by (rule that [OF 1]) (simp add: ref_ctl_def)
qed

theorem reachable_maps_wf_witness:
  "\<exists>st1 st2. system_step ref_ctl st1 \<and> system_step st1 st2 \<and> maps_wf (cs_maps st2)"
proof (rule ref_steps)
  fix st1 st2 assume s: "system_step ref_ctl st1" "system_step st1 st2"
  then have "system_step\<^sup>*\<^sup>* ref_ctl st2" by simp
  from reachable_maps_wf [OF this ref_maps_wf] s show ?thesis by blast
qed

theorem foreign_filter_survives_witness:
  "\<exists>st1 st2. system_step ref_ctl st1 \<and> system_step st1 st2 \<and> cs_filters st2 (3, 1, 1) = Some 77"
proof (rule ref_steps)
  fix st1 st2 assume s: "system_step ref_ctl st1" "system_step st1 st2" "cs_program st1 = Some 9"
  let ?R = "\<lambda>s s'. system_step s s' \<and> cs_program s \<noteq> Some 77"
  have "?R ref_ctl st1" "?R st1 st2" using s by (simp_all add: ref_ctl_def)
  then have "?R\<^sup>*\<^sup>* ref_ctl st2" by (rule converse_rtranclp_into_rtranclp [OF _ r_into_rtranclp])
  from foreign_filter_survives [OF this, of "(3, 1, 1)"] s(1,2) show ?thesis by (auto simp: ref_ctl_def)
qed

end
