(* ===== verification/Spec2Isabelle.thy ===== *)
theory Spec2Isabelle
  imports Reference_Whole
begin

text \<open>
  A verification development for the C programs of client-access, which gives the devices of a home
  network access to applications by policy.

  \<^bold>\<open>The program.\<close>  Three programs share the maps pinned under \<^verbatim>\<open>/sys/fs/bpf/client_access\<close>.
  The TC classifier \<^verbatim>\<open>src/client-access-bpf.c\<close> runs on every packet that enters from the
  network: it identifies the sender (a managed subject) by its MAC address, looks the flow up or classifies
  it by address and port hints, and stamps the verdict of the subject's policy into two bits of the packet
  mark, which the firewall reads.  The controller \<^verbatim>\<open>src/client-access-bpfctl.c\<close> with
  \<^verbatim>\<open>src/bpf-*.c\<close> loads the program, attaches it, publishes policy snapshots by filling the slot
  the classifier does not read and storing one configuration record, and reports.  The offload tool
  \<^verbatim>\<open>sfo/client-access-sfoctl.c\<close> destroys the conntrack entries of flows whose packets bypass the
  classifier, so that a changed policy takes hold on them.

  \<^bold>\<open>Base.\<close>  \<open>Prelude\<close>: integer types, checked reads, lemmas and collections.  \<open>Bpf_Types\<close>:
  \<^verbatim>\<open>client-access-bpf.h\<close>, the maps as one record, and the kernel calls as a parameter.
  \<open>Libc\<close>: what is used of the C library (lines, \<^verbatim>\<open>strtoul\<close>, \<^verbatim>\<open>sscanf\<close>, printing).

  \<^bold>\<open>Classifier program\<close> (\<^verbatim>\<open>client-access-bpf.c\<close>).
  \<^item> \<open>Packet_Parser\<close>, \<open>Frame_Encoding\<close>: \<^verbatim>\<open>ca_parse_flow\<close>; memory safety, and parsing as the
    inverse of encoding a frame.
  \<^item> \<open>Datapath_State\<close>: counters, slot lookups, policy verdict, packet mark.  \<open>Classifier\<close>: evidence and
    its join in a semilattice.  \<open>Admission\<close>: the rate words and the pending word as retry loops with an
    explicit race parameter, and as systems of any number of CPUs, each with the time of its own
    packet: what the limiter guarantees, and the one case in which a second admits more.
  \<^item> \<open>Datapath\<close>: \<^verbatim>\<open>ca_ingress\<close> and its steps.  \<open>Datapath_Frame\<close>, \<open>Flow_Table\<close>,
    \<open>Datapath_Verdicts\<close>, \<open>Datapath_New_Flows\<close>, \<open>Datapath_Accounting\<close>, \<open>Datapath_Properties\<close>: what a
    packet may change, invariants of flow entries, the verdict of known and new flows, the failure paths,
    the return of correlation-only records to the classifier, the accounts, and the independence of
    the inactive slot.

  \<^bold>\<open>Controller.\<close>
  \<^item> \<open>Snapshot_Parser\<close>, \<open>Prefixes\<close>, \<open>Snapshot_Text\<close>, \<open>Snapshot_Roundtrip\<close>, \<open>Snapshot_Wf\<close>: the text
    format of \<^verbatim>\<open>bpf-snapshot.c\<close>; a printed snapshot parses back, an accepted one is well formed.
  \<^item> \<open>Control\<close>, \<open>Snapshot_Sync\<close>, \<open>Publication\<close>: \<^verbatim>\<open>bpfctl-common.c\<close> and the publication
    as a sequence of fallible steps; success makes the parsed snapshot active, failure is invisible to
    packets but for rate words of subjects it may have reset, and the loops end.
  \<^item> \<open>Map_Walk\<close>: the two ways the tools iterate over a map, as folds over its keys.  \<open>Host\<close>: pins, TC
    filters, interfaces and libbpf.  \<open>Runtime\<close>, \<open>Tc\<close>, \<open>Object\<close>, \<open>Health\<close>, \<open>Bpfctl\<close>: the files
    \<^verbatim>\<open>bpf-runtime.c\<close>, \<^verbatim>\<open>bpf-tc.c\<close>, \<^verbatim>\<open>bpf-object.c\<close>,
    \<^verbatim>\<open>bpf-health.c\<close> and \<^verbatim>\<open>client-access-bpfctl.c\<close>; every command
    keeps the filters of other programs, and load and health mean what they say, as does
    disable when it finds the pinned configuration.

  \<^bold>\<open>Offload tool\<close> (\<^verbatim>\<open>client-access-sfoctl.c\<close>).
  \<open>Sfo_Index\<close>, \<open>Sfo_Scan\<close>: the hash index of the flows, the collection of flows, the scan callback, which
  is the same as a linear search.  \<open>Sfo_Dump\<close>: a whole dump.  \<open>Sfo_Run\<close>: the commands.  \<open>Sfo_Passes\<close>,
  \<open>Sfo_Properties\<close>, \<open>Sfo_Housekeeping\<close>: revocation destroys entries of the subject only and reports
  success only when none is left and its deadline was kept by the clock, eviction and collection (of
  TCP and UDP flows) likewise, and the tool always returns.

  \<^bold>\<open>The three together.\<close>  \<open>System_State\<close>: the invariant of the shared maps and that every program
  keeps it.  \<open>System\<close>: executions as sequences of packets, commands and offload runs; the invariant in
  every reachable state, the survival of foreign filters, and the termination of every command.

  \<^bold>\<open>Witnesses.\<close>  \<open>Reference_Kernel\<close>, \<open>Reference_System\<close>, \<open>Sfo_Reference\<close>, \<open>Reference_Host\<close> and
  \<open>Reference_Whole\<close> give concrete environments; every property with hypotheses is applied in one of them.

  \<^bold>\<open>Interfaces.\<close>  Contracts that several operations share are locales, interpreted on the model:
  \<open>cas_step\<close>, \<open>slot_lookup\<close>, \<open>entry_invariant\<close>, \<open>table_invariant\<close>, \<open>bounded_append\<close>, \<open>record_lines\<close>,
  \<open>hash_index\<close>, \<open>locked_command\<close> and \<open>sparing_command\<close>.

  \<^bold>\<open>Parameters.\<close>  Code that is not in the repository is an argument: \<open>kernel\<close> (map calls, longest-prefix
  lookup, clock, other CPUs), \<open>sys\<close> and \<open>host\<close> (system calls, libbpf, interfaces), \<open>libc\<close> (address
  parsing, allocation, one error code), \<open>sfo_env\<close> (map calls, conntrack, clock).  Every call may fail in
  every documented way.  Hypotheses such as \<open>map_update_ok\<close>, \<open>sys_ok\<close>, \<open>tc_ok\<close>, \<open>pins_ok\<close>, \<open>load_ok\<close> and \<open>walk_ok\<close>
  state the documented behaviour.

  \<^bold>\<open>Bounds.\<close>  The loops of the classifier are bounded in the source (two VLAN tags, a
  fixed number of attempts of a compare-and-swap) and structural here.  The loops of the controller and of
  the offload tool have no bound in the source: they are partial functions whose value \<open>None\<close> is a loop
  that does not return, and termination is proved under the laws of map iteration, never assumed.

  \<^bold>\<open>Assumptions.\<close>  Little-endian memory and 64-bit \<^verbatim>\<open>long\<close>, as on the supported routers.
  A command runs alone on the maps and filters as far as its lock reaches, except where a race is a
  parameter (the words several CPUs share, the flow map during a collection); in an execution of the
  whole system a command is one step.  Between a TC query and the
  detach that follows it no other program replaces the filter: the interface offers no atomic check.

  \<^bold>\<open>Not modelled.\<close>  Messages on standard error, usage texts, the release of memory and descriptors,
  \<^verbatim>\<open>usleep\<close>, and the limit on locked memory have no effect on what is proved.  The daemon and
  its libraries (ucode), the web interface (JavaScript), the firewall fragments (nftables), scripts, tests
  and packaging are not C programs.
\<close>

end
